(* ===== verification/Prelude.thy ===== *)
theory Prelude
  imports Main "HOL-Library.Word" "HOL-Library.Sublist" "HOL-Library.AList"
begin

text \<open>
  What every component of the development shares: the collections of facts the component
  proofs simplify with, the integer and byte types of the code, and the operations of Rust's
  \<open>str\<close> that the code calls, on strings as lists of characters.

  A Rust string is UTF-8; a \<open>string\<close> here is its list of bytes.  The operations below look at
  ASCII characters only (separators, digits, white space), and no byte of a multi-byte
  character is ASCII, so splitting and trimming at them agree with the code.  The Unicode
  white space outside ASCII, which \<open>str::trim\<close> also removes, is not modelled.
\<close>

section \<open>Types and collections of facts\<close>

type_synonym u8 = "8 word"
type_synonym u32 = "32 word"
type_synonym u64 = "64 word"
type_synonym bytes = "u8 list"

named_theorems sys_simps \<open>how a system call acts when the environment raises no fault\<close>
named_theorems path_simps \<open>components of the paths the code builds\<close>
named_theorems frame_simps \<open>what an operation leaves unchanged\<close>

text \<open>The bytes of a string (\<open>as_bytes\<close>) and back.\<close>

definition str_bytes :: "string \<Rightarrow> bytes" where
  "str_bytes s = map (\<lambda>c. of_nat (of_char c)) s"

definition bytes_str :: "bytes \<Rightarrow> string" where
  "bytes_str bs = map (\<lambda>b. char_of (unat b)) bs"

lemma bytes_str_bytes [simp]: "bytes_str (str_bytes s) = s"
  by (induction s) (simp_all add: bytes_str_def str_bytes_def unat_of_nat)

lemma str_bytes_inject [simp]: "str_bytes s = str_bytes t \<longleftrightarrow> s = t"
  by (metis bytes_str_bytes)

section \<open>Splitting at a separator\<close>

text \<open>\<open>s.split(c)\<close>: always at least one piece.\<close>

fun split_on :: "'a \<Rightarrow> 'a list \<Rightarrow> 'a list list" where
  "split_on c [] = [[]]"
| "split_on c (x # xs) =
     (if x = c then [] # split_on c xs
      else (case split_on c xs of [] \<Rightarrow> [[x]] | s # ss \<Rightarrow> (x # s) # ss))"

fun join_with :: "'a \<Rightarrow> 'a list list \<Rightarrow> 'a list" where
  "join_with c [] = []"
| "join_with c [s] = s"
| "join_with c (s # t # ss) = s @ c # join_with c (t # ss)"

text \<open>\<open>s.split_once(c)\<close> at the first, and \<open>s.rsplit_once(c)\<close> at the last occurrence.\<close>

fun split_once :: "'a \<Rightarrow> 'a list \<Rightarrow> ('a list \<times> 'a list) option" where
  "split_once c [] = None"
| "split_once c (x # xs) =
     (if x = c then Some ([], xs)
      else map_option (\<lambda>(a, b). (x # a, b)) (split_once c xs))"

definition rsplit_once :: "'a \<Rightarrow> 'a list \<Rightarrow> ('a list \<times> 'a list) option" where
  "rsplit_once c s = map_option (\<lambda>(a, b). (rev b, rev a)) (split_once c (rev s))"

lemma split_on_not_Nil [simp]: "split_on c s \<noteq> []"
  by (induction s) (auto split: list.splits)

lemma split_on_append: "split_on c (a @ c # b) = split_on c a @ split_on c b"
proof (induction a)
  case (Cons x xs)
  then show ?case by (cases "split_on c xs") auto
qed simp

lemma split_on_no_sep [simp]: "c \<notin> set s \<Longrightarrow> split_on c s = [s]"
  by (induction s) auto

lemma split_on_pieces: "s \<in> set (split_on c xs) \<Longrightarrow> c \<notin> set s"
proof (induction xs arbitrary: s)
  case (Cons x xs)
  then show ?case by (cases "split_on c xs") (auto split: if_splits)
qed simp

lemma join_split_on [simp]: "join_with c (split_on c s) = s"
proof (induction s)
  case (Cons x xs)
  then show ?case
    by (cases "split_on c xs"; cases "tl (split_on c xs)") auto
qed simp

lemma split_join_with:
  "ss \<noteq> [] \<Longrightarrow> \<forall>s \<in> set ss. c \<notin> set s \<Longrightarrow> split_on c (join_with c ss) = ss"
proof (induction c ss rule: join_with.induct)
  case (3 c s t ss)
  then show ?case by (simp add: split_on_append)
qed auto

lemma split_once_Some:
  "split_once c s = Some (a, b) \<longleftrightarrow> s = a @ c # b \<and> c \<notin> set a"
proof (induction s arbitrary: a)
  case (Cons x xs)
  then show ?case by (cases a) auto
qed simp

lemma split_once_None: "split_once c s = None \<longleftrightarrow> c \<notin> set s"
  by (induction s) auto

lemma rsplit_once_Some:
  "rsplit_once c s = Some (a, b) \<longleftrightarrow> s = a @ c # b \<and> c \<notin> set b"
proof -
  have "rsplit_once c s = Some (a, b) \<longleftrightarrow> split_once c (rev s) = Some (rev b, rev a)"
    by (cases "split_once c (rev s)") (auto simp: rsplit_once_def)
  also have "\<dots> \<longleftrightarrow> rev s = rev b @ c # rev a \<and> c \<notin> set b"
    by (simp add: split_once_Some)
  also have "rev s = rev b @ c # rev a \<longleftrightarrow> s = a @ c # b"
    by (metis append.assoc append_Cons append_Nil rev.simps(2) rev_append rev_rev_ident)
  finally show ?thesis .
qed

lemma rsplit_once_None: "rsplit_once c s = None \<longleftrightarrow> c \<notin> set s"
  by (simp add: rsplit_once_def split_once_None)

section \<open>Prefixes and trimming\<close>

text \<open>\<open>s.strip_prefix(p)\<close>.\<close>

fun strip_prefix :: "'a list \<Rightarrow> 'a list \<Rightarrow> 'a list option" where
  "strip_prefix [] s = Some s"
| "strip_prefix (p # ps) [] = None"
| "strip_prefix (p # ps) (x # xs) = (if p = x then strip_prefix ps xs else None)"

lemma strip_prefix_Some: "strip_prefix p s = Some r \<longleftrightarrow> s = p @ r"
  by (induction p s rule: strip_prefix.induct) auto

definition is_ws :: "char \<Rightarrow> bool" where
  "is_ws c \<longleftrightarrow> c \<in> set [CHR '' '', CHR 0x09, CHR 0x0A, CHR 0x0B, CHR 0x0C, CHR 0x0D]"

definition trim_end_matches :: "('a \<Rightarrow> bool) \<Rightarrow> 'a list \<Rightarrow> 'a list" where
  "trim_end_matches P s = rev (dropWhile P (rev s))"

definition trim :: "string \<Rightarrow> string" where
  "trim s = trim_end_matches is_ws (dropWhile is_ws s)"

lemma trim_end_matches_Nil [simp]: "trim_end_matches P [] = []"
  by (simp add: trim_end_matches_def)

lemma trim_end_matches_snoc:
  "trim_end_matches P (xs @ [x]) = (if P x then trim_end_matches P xs else xs @ [x])"
  by (simp add: trim_end_matches_def)

lemma trim_end_matches_last:
  "trim_end_matches P s \<noteq> [] \<Longrightarrow> \<not> P (last (trim_end_matches P s))"
  by (induction s rule: rev_induct) (auto simp: trim_end_matches_snoc)

lemma trim_end_matches_prefix: "\<exists>t. s = trim_end_matches P s @ t \<and> (\<forall>x \<in> set t. P x)"
proof -
  have "s = rev (takeWhile P (rev s) @ dropWhile P (rev s))" by simp
  then have "s = trim_end_matches P s @ rev (takeWhile P (rev s))"
    by (simp only: rev_append trim_end_matches_def)
  then show ?thesis by (metis set_rev set_takeWhileD)
qed

lemma filter_trim_end [simp]:
  "filter (\<lambda>x. \<not> P x) (trim_end_matches P s) = filter (\<lambda>x. \<not> P x) s"
  by (induction s rule: rev_induct) (auto simp: trim_end_matches_snoc)

lemma set_trim_end: "set (trim_end_matches P s) \<subseteq> set s"
  by (auto simp: trim_end_matches_def dest: set_dropWhileD)

section \<open>ASCII case and decimal digits\<close>

definition to_ascii_lower :: "char \<Rightarrow> char" where
  "to_ascii_lower c =
     (if 65 \<le> (of_char c :: nat) \<and> (of_char c :: nat) \<le> 90 then char_of (of_char c + 32 :: nat) else c)"

definition ascii_lowercase :: "string \<Rightarrow> string" where
  "ascii_lowercase s = map to_ascii_lower s"

definition digit_char :: "nat \<Rightarrow> char" where
  "digit_char d = char_of (48 + d)"

text \<open>\<open>format!("{n}")\<close> of an unsigned integer, and \<open>"{n:0w}"\<close> with leading zeros.\<close>

fun show_nat :: "nat \<Rightarrow> string" where
  "show_nat n = (if n < 10 then [digit_char n] else show_nat (n div 10) @ [digit_char (n mod 10)])"

declare show_nat.simps [simp del]

definition show_nat_pad :: "nat \<Rightarrow> nat \<Rightarrow> string" where
  "show_nat_pad k n = replicate (k - length (show_nat n)) (CHR ''0'') @ show_nat n"

fun nat_of_digits :: "nat \<Rightarrow> string \<Rightarrow> nat" where
  "nat_of_digits acc [] = acc"
| "nat_of_digits acc (c # cs) = nat_of_digits (10 * acc + (of_char c - 48)) cs"

lemma of_char_digit: "d < 10 \<Longrightarrow> of_char (digit_char d) = 48 + d"
  by (simp add: digit_char_def)

lemma nat_of_digits_append:
  "nat_of_digits acc (s @ [c]) = 10 * nat_of_digits acc s + (of_char c - 48)"
  by (induction s arbitrary: acc) auto

lemma show_nat_value: "nat_of_digits 0 (show_nat n) = n"
proof (induction n rule: show_nat.induct)
  case (1 n)
  then show ?case
    by (subst show_nat.simps) (auto simp: nat_of_digits_append of_char_digit)
qed

lemma show_nat_inject [simp]: "show_nat a = show_nat b \<longleftrightarrow> a = b"
  by (metis show_nat_value)

lemma show_nat_digits: "c \<in> set (show_nat n) \<Longrightarrow> \<exists>d < 10. c = digit_char d"
proof (induction n rule: show_nat.induct)
  case (1 n)
  show ?case
  proof (cases "n < 10")
    case True
    with "1.prems" show ?thesis by (subst (asm) show_nat.simps) auto
  next
    case False
    with "1.prems" have "c \<in> set (show_nat (n div 10)) \<or> c = digit_char (n mod 10)"
      by (subst (asm) show_nat.simps) auto
    then show ?thesis using "1.IH"[OF False] by (auto intro: exI[of _ "n mod 10"])
  qed
qed

lemma digit_char_neq: "d < 10 \<Longrightarrow> digit_char d \<noteq> CHR ''/''" "d < 10 \<Longrightarrow> digit_char d \<noteq> CHR ''.''"
  by (auto dest!: arg_cong[of _ _ "of_char :: char \<Rightarrow> nat"] simp: of_char_digit)

lemma show_nat_plain: "CHR ''/'' \<notin> set (show_nat n)" "CHR ''.'' \<notin> set (show_nat n)"
  using digit_char_neq by (metis show_nat_digits)+

lemma show_nat_not_Nil [simp]: "show_nat n \<noteq> []"
  by (subst show_nat.simps) simp

lemma length_show_nat_bound: "n < 10 ^ k \<Longrightarrow> 0 < k \<Longrightarrow> length (show_nat n) \<le> k"
proof (induction k arbitrary: n)
  case (Suc k)
  show ?case
  proof (cases "n < 10")
    case True
    then show ?thesis by (subst show_nat.simps) simp
  next
    case False
    with Suc.prems have "0 < k" by (cases k) auto
    moreover from Suc.prems have "n div 10 < 10 ^ k" by (simp add: less_mult_imp_div_less mult.commute)
    ultimately have "length (show_nat (n div 10)) \<le> k" using Suc.IH by blast
    with False show ?thesis by (subst show_nat.simps) simp
  qed
qed simp

lemma length_show_nat_pad: "n < 10 ^ k \<Longrightarrow> 0 < k \<Longrightarrow> length (show_nat_pad k n) = k"
  using length_show_nat_bound[of n k] by (simp add: show_nat_pad_def)

lemma nat_of_digits_zeros: "nat_of_digits 0 (replicate m (CHR ''0'') @ s) = nat_of_digits 0 s"
  by (induction m) auto

lemma show_nat_pad_value: "nat_of_digits 0 (show_nat_pad k n) = n"
  by (simp add: show_nat_pad_def nat_of_digits_zeros show_nat_value)

text \<open>A signed 64-bit word is negative when its unsigned value has the top bit.\<close>

lemma negative_word: "sint (x :: 64 word) < 0 \<longleftrightarrow> \<not> unat x < 2 ^ 63"
proof -
  have s: "sint x = (uint x + 2 ^ 63) mod 2 ^ 64 - 2 ^ 63"
    by (simp add: sint_uint signed_take_bit_eq_take_bit_shift take_bit_eq_mod)
  have b: "0 \<le> uint x" "uint x < 2 ^ 64" using uint_bounded[of x] by simp_all
  have u: "unat x < 2 ^ 63 \<longleftrightarrow> uint x < 2 ^ 63"
    unfolding uint_nat by (rule of_nat_less_numeral_power_cancel_iff[symmetric])
  show ?thesis
  proof (cases "uint x < 2 ^ 63")
    case True
    then have "(uint x + 2 ^ 63) mod 2 ^ 64 = uint x + 2 ^ 63" using b by (intro mod_pos_pos_trivial) simp_all
    with True s u b show ?thesis by simp
  next
    case False
    have "(uint x + 2 ^ 63) mod 2 ^ 64 = (uint x + 2 ^ 63 - 2 ^ 64) mod 2 ^ 64" by (rule minus_mod_self2[symmetric])
    also have "\<dots> = uint x + 2 ^ 63 - 2 ^ 64" using b False by (intro mod_pos_pos_trivial) simp_all
    finally show ?thesis using False s u b by simp
  qed
qed

end
