(* ===== verification/Paths.thy ===== *)
theory Paths
  imports Prelude
begin

text \<open>
  Rust's \<open>std::path\<close> on Unix, as far as the code uses it.  A path is the string it was made
  from; \<open>comps\<close> is \<open>Path::components\<close>, by which paths are compared.  The operations below are
  those the program calls: \<open>join\<close>, \<open>parent\<close>, \<open>file_name\<close>, \<open>file_stem\<close>, \<open>extension\<close>,
  \<open>strip_prefix\<close>, \<open>starts_with\<close> and \<open>==\<close>.
\<close>

type_synonym path = string

datatype comp = RootDir | CurDir | ParentDir | Normal string

abbreviation slash :: char where "slash \<equiv> CHR ''/''"
abbreviation dot :: char where "dot \<equiv> CHR ''.''"

definition is_abs :: "path \<Rightarrow> bool" where
  "is_abs p = (p \<noteq> [] \<and> hd p = slash)"

text \<open>The pieces of a path between separators that \<open>components\<close> skips: empty ones and \<open>.\<close>.\<close>

definition triv :: "string \<Rightarrow> bool" where
  "triv s = (s = [] \<or> s = ''.'')"

definition comp_of :: "string \<Rightarrow> comp" where
  "comp_of s = (if s = ''..'' then ParentDir else Normal s)"

definition path_lead :: "path \<Rightarrow> comp list" where
  "path_lead p = (if is_abs p then [RootDir]
                  else if hd (split_on slash p) = ''.'' then [CurDir] else [])"

definition comps :: "path \<Rightarrow> comp list" where
  "comps p = path_lead p @ map comp_of (filter (\<lambda>s. \<not> triv s) (split_on slash p))"

text \<open>\<open>Path == Path\<close>, \<open>Path::starts_with\<close> and \<open>Path::strip_prefix\<close> compare components.\<close>

definition path_eq :: "path \<Rightarrow> path \<Rightarrow> bool" where
  "path_eq p q = (comps p = comps q)"

definition path_starts_with :: "path \<Rightarrow> path \<Rightarrow> bool" where
  "path_starts_with p base = prefix (comps base) (comps p)"

definition path_strip_prefix :: "path \<Rightarrow> path \<Rightarrow> comp list option" where
  "path_strip_prefix p base = strip_prefix (comps base) (comps p)"

text \<open>\<open>Path::join\<close>: an absolute second path replaces the first.\<close>

definition path_join :: "path \<Rightarrow> path \<Rightarrow> path" where
  "path_join p q =
     (if is_abs q then q
      else if p = [] \<or> last p = slash then p @ q
      else p @ slash # q)"

text \<open>
  \<open>Path::parent\<close> is the slice of the string before the last component, without the separators
  and \<open>.\<close> pieces around it; there is none for the root and the empty path.
\<close>

definition path_parent :: "path \<Rightarrow> path option" where
  "path_parent p =
     (let segs = split_on slash p;
          body = (if is_abs p then tl segs else segs);
          lead = (if \<not> is_abs p \<and> hd body = ''.'' then [''.''] else []);
          rest = trim_end_matches triv (drop (length lead) body);
          pre = (if is_abs p then [slash] else [])
      in if rest = [] then (if lead = [] then None else Some [])
         else Some (pre @ join_with slash (lead @ trim_end_matches triv (butlast rest))))"

definition path_file_name :: "path \<Rightarrow> string option" where
  "path_file_name p =
     (if comps p = [] then None
      else case last (comps p) of Normal s \<Rightarrow> Some s | _ \<Rightarrow> None)"

text \<open>
  \<open>file_stem\<close> and \<open>extension\<close> split the file name at its last dot, unless the name has no dot
  or only starts with one.
\<close>

definition file_at_dot :: "string \<Rightarrow> string \<times> string option" where
  "file_at_dot name =
     (case rsplit_once dot name of
        None \<Rightarrow> (name, None)
      | Some (before, after) \<Rightarrow> if before = [] then (name, None) else (before, Some after))"

definition path_file_stem :: "path \<Rightarrow> string option" where
  "path_file_stem p = map_option (\<lambda>n. fst (file_at_dot n)) (path_file_name p)"

definition path_extension :: "path \<Rightarrow> string option" where
  "path_extension p = Option.bind (path_file_name p) (\<lambda>n. snd (file_at_dot n))"

definition comp_str :: "comp \<Rightarrow> string" where
  "comp_str c = (case c of RootDir \<Rightarrow> [slash] | CurDir \<Rightarrow> ''.'' | ParentDir \<Rightarrow> ''..'' | Normal s \<Rightarrow> s)"

section \<open>Laws of the operations\<close>

text \<open>A plain name: what a directory entry or a file name can be.\<close>

definition plain_name :: "string \<Rightarrow> bool" where
  "plain_name s = (s \<noteq> [] \<and> s \<noteq> ''.'' \<and> s \<noteq> ''..'' \<and> slash \<notin> set s)"

lemma comps_Nil [simp]: "comps [] = []"
  by (simp add: comps_def path_lead_def is_abs_def triv_def)

lemma is_abs_append: "is_abs (p @ q) = (if p = [] then is_abs q else is_abs p)"
  by (simp add: is_abs_def)

lemma path_lead_append: "p \<noteq> [] \<Longrightarrow> path_lead (p @ slash # q) = path_lead p"
  by (auto simp: path_lead_def is_abs_append split_on_append hd_append)

lemma last_slash_snoc: "p \<noteq> [] \<Longrightarrow> last p = slash \<Longrightarrow> \<exists>p'. p = p' @ [slash]"
  by (metis append_butlast_last_id)

text \<open>Joining a relative path appends its components; a leading \<open>.\<close> of it is dropped.\<close>

lemma comps_join:
  assumes "\<not> is_abs q" and "p \<noteq> []"
  shows "comps (path_join p q) = comps p @ map comp_of (filter (\<lambda>s. \<not> triv s) (split_on slash q))"
proof (cases "last p = slash")
  case False
  with assms show ?thesis
    by (simp add: path_join_def comps_def split_on_append path_lead_append)
next
  case True
  with assms(2) obtain p' where p': "p = p' @ [slash]" by (auto dest: last_slash_snoc)
  have "path_lead (p' @ slash # q) = path_lead (p' @ [slash])"
    by (cases "p' = []") (auto simp: path_lead_append, simp add: path_lead_def is_abs_def)
  with assms True p' show ?thesis
    by (simp add: path_join_def comps_def split_on_append split_on_append[of _ _ "[]"] triv_def)
qed

lemma plain_name_not_abs: "plain_name s \<Longrightarrow> \<not> is_abs s"
  by (cases s) (auto simp: plain_name_def is_abs_def)

lemma plain_name_segs: "plain_name s \<Longrightarrow> filter (\<lambda>s. \<not> triv s) (split_on slash s) = [s]"
  by (simp add: plain_name_def triv_def)

lemma comp_of_plain [simp]: "plain_name s \<Longrightarrow> comp_of s = Normal s"
  by (simp add: plain_name_def comp_of_def)

lemma comps_join_name [path_simps]:
  "p \<noteq> [] \<Longrightarrow> plain_name s \<Longrightarrow> comps (path_join p s) = comps p @ [Normal s]"
  by (simp add: comps_join plain_name_not_abs plain_name_segs)

lemma file_name_join [path_simps]:
  "p \<noteq> [] \<Longrightarrow> plain_name s \<Longrightarrow> path_file_name (path_join p s) = Some s"
  by (simp add: path_file_name_def comps_join_name)

lemma path_join_not_Nil [simp]: "p \<noteq> [] \<Longrightarrow> path_join p q \<noteq> []"
  by (auto simp: path_join_def is_abs_def)

lemma path_join_empty: "p \<noteq> [] \<Longrightarrow> last p \<noteq> slash \<Longrightarrow> path_join p [] = p @ [slash]"
  by (simp add: path_join_def is_abs_def)

lemma triv_not_Normal: "s \<in> set (split_on slash p) \<Longrightarrow> \<not> triv s \<Longrightarrow> comp_of s = Normal t \<Longrightarrow> plain_name t"
  by (auto simp: comp_of_def triv_def plain_name_def dest: split_on_pieces split: if_splits)

lemma comps_Normal_plain: "Normal s \<in> set (comps p) \<Longrightarrow> plain_name s"
proof -
  assume "Normal s \<in> set (comps p)"
  then obtain t where "t \<in> set (split_on slash p)" "\<not> triv t" "comp_of t = Normal s"
    by (auto simp: comps_def path_lead_def split: if_splits)
  then show "plain_name s" by (rule triv_not_Normal)
qed

lemma path_file_name_plain: "path_file_name p = Some s \<Longrightarrow> plain_name s"
  by (auto simp: path_file_name_def split: if_splits comp.splits
      intro!: comps_Normal_plain[of s p] dest: last_in_set)

text \<open>The parent has all components but the last.\<close>

lemma path_abs_segs: "is_abs p \<Longrightarrow> split_on slash p = [] # tl (split_on slash p)"
  by (cases p) (auto simp: is_abs_def)

lemma filter_butlast_trim:
  assumes "trim_end_matches P xs \<noteq> []"
  shows "filter (\<lambda>x. \<not> P x) (butlast (trim_end_matches P xs)) = butlast (filter (\<lambda>x. \<not> P x) xs)"
proof -
  have "filter (\<lambda>x. \<not> P x) xs =
      filter (\<lambda>x. \<not> P x) (butlast (trim_end_matches P xs) @ [last (trim_end_matches P xs)])"
    by (simp only: append_butlast_last_id [OF assms] filter_trim_end)
  moreover have "\<not> P (last (trim_end_matches P xs))"
    using assms by (rule trim_end_matches_last)
  ultimately show ?thesis by simp
qed

lemma trim_end_Nil_iff: "trim_end_matches P xs = [] \<longleftrightarrow> filter (\<lambda>x. \<not> P x) xs = []"
proof (induction xs rule: rev_induct)
  case (snoc x xs)
  then show ?case by (simp add: trim_end_matches_snoc)
qed simp

text \<open>The body of a path: its pieces after the root separator or the leading \<open>.\<close>.\<close>

definition path_body :: "path \<Rightarrow> string list" where
  "path_body p = (let segs = split_on slash p
                  in if is_abs p \<or> hd segs = ''.'' then tl segs else segs)"

definition path_pre :: "path \<Rightarrow> string list" where
  "path_pre p = (if \<not> is_abs p \<and> hd (split_on slash p) = ''.'' then [''.''] else [])"

lemma split_on_body:
  "split_on slash p = (if is_abs p then [[]] else path_pre p) @ path_body p"
proof (cases "is_abs p")
  case True
  then show ?thesis using path_abs_segs[of p] by (simp add: path_body_def Let_def)
next
  case False
  then show ?thesis
    by (auto simp: path_body_def path_pre_def Let_def) (metis list.collapse split_on_not_Nil)
qed

lemma comps_body: "comps p = path_lead p @ map comp_of (filter (\<lambda>s. \<not> triv s) (path_body p))"
  unfolding comps_def by (subst split_on_body) (simp add: path_pre_def triv_def)

lemma parent_body:
  "path_parent p =
     (let rest = trim_end_matches triv (path_body p)
      in if rest = [] then (if path_pre p = [] then None else Some [])
         else Some ((if is_abs p then [slash] else []) @
                join_with slash (path_pre p @ trim_end_matches triv (butlast rest))))"
proof (cases "is_abs p")
  case True
  then show ?thesis by (simp add: path_parent_def path_body_def path_pre_def Let_def)
next
  case False
  then show ?thesis
    by (cases "split_on slash p") (auto simp: path_parent_def path_body_def path_pre_def Let_def)
qed

lemma body_no_slash: "s \<in> set (path_body p) \<Longrightarrow> slash \<notin> set s"
proof (rule split_on_pieces)
  show "s \<in> set (path_body p) \<Longrightarrow> s \<in> set (split_on slash p)"
    by (subst split_on_body) simp
qed

lemma rel_first_piece:
  assumes "\<not> is_abs p" and "p \<noteq> []"
  shows "hd (split_on slash p) \<noteq> []"
proof -
  obtain x xs where "p = x # xs" "x \<noteq> slash" using assms by (cases p) (auto simp: is_abs_def)
  then show ?thesis by (cases "split_on slash xs") auto
qed

lemma parent_pieces:
  assumes "path_parent p = Some q" and "trim_end_matches triv (path_body p) \<noteq> []"
  defines "ys \<equiv> path_pre p @ trim_end_matches triv (butlast (trim_end_matches triv (path_body p)))"
  shows "ys \<noteq> [] \<Longrightarrow> split_on slash q = (if is_abs p then [[]] else []) @ ys"
    and "ys = [] \<Longrightarrow> q = (if is_abs p then [slash] else [])"
proof -
  have q: "q = (if is_abs p then [slash] else []) @ join_with slash ys"
    using assms by (simp add: parent_body Let_def)
  have ns: "\<forall>s \<in> set ys. slash \<notin> set s"
  proof
    fix s assume "s \<in> set ys"
    then have "s = ''.'' \<or> s \<in> set (path_body p)"
      unfolding ys_def path_pre_def
      by (auto dest!: subsetD[OF set_trim_end] in_set_butlastD split: if_splits)
    then show "slash \<notin> set s" using body_no_slash by auto
  qed
  show "split_on slash q = (if is_abs p then [[]] else []) @ ys" if "ys \<noteq> []"
    using split_join_with[OF that ns] by (simp add: q)
  show "q = (if is_abs p then [slash] else [])" if "ys = []"
    using that by (simp add: q)
qed

lemma trim_end_prefix_hd: "trim_end_matches P xs \<noteq> [] \<Longrightarrow> hd (trim_end_matches P xs) = hd xs"
  by (metis hd_append2 trim_end_matches_prefix)

lemma hd_butlast: "butlast xs \<noteq> [] \<Longrightarrow> hd (butlast xs) = hd xs"
  by (cases xs) (auto split: if_splits)

theorem comps_parent:
  assumes "path_parent p = Some q"
  shows "comps q = butlast (comps p)"
proof (cases "trim_end_matches triv (path_body p) = []")
  case True
  with assms have "q = []" "path_pre p \<noteq> []" by (auto simp: parent_body Let_def split: if_splits)
  moreover from True have "filter (\<lambda>s. \<not> triv s) (path_body p) = []" by (simp add: trim_end_Nil_iff)
  ultimately show ?thesis
    by (simp add: comps_body[of p] path_lead_def path_pre_def split: if_splits)
next
  case False
  define r where "r = trim_end_matches triv (butlast (trim_end_matches triv (path_body p)))"
  have fr: "filter (\<lambda>s. \<not> triv s) r = butlast (filter (\<lambda>s. \<not> triv s) (path_body p))"
    using False by (simp add: r_def filter_butlast_trim)
  have ne: "filter (\<lambda>s. \<not> triv s) (path_body p) \<noteq> []" using False by (simp add: trim_end_Nil_iff)
  have bl: "butlast (comps p) = path_lead p @ map comp_of (filter (\<lambda>s. \<not> triv s) r)"
    using ne by (simp add: comps_body[of p] butlast_append map_butlast fr)
  show ?thesis
  proof (cases "path_pre p @ r = []")
    case True
    have "q = (if is_abs p then [slash] else [])"
      using parent_pieces(2)[OF assms False] True by (simp add: r_def)
    with True show ?thesis
      unfolding bl
      by (auto simp: comps_def[of "[slash]"] path_lead_def path_pre_def is_abs_def triv_def split: if_splits)
  next
    case nonempty: False
    have sq: "split_on slash q = (if is_abs p then [[]] else []) @ path_pre p @ r"
      using parent_pieces(1)[OF assms False] nonempty by (simp add: r_def)
    have "path_lead q = path_lead p"
    proof (cases "is_abs p")
      case True
      then have "is_abs q" using assms False by (auto simp: parent_body Let_def is_abs_def)
      with True show ?thesis by (simp add: path_lead_def)
    next
      case rel: False
      have "p \<noteq> []" using False by (auto simp: path_body_def is_abs_def triv_def trim_end_matches_def)
      then have h: "hd (split_on slash p) \<noteq> []" using rel by (rule rel_first_piece[rotated])
      have hq: "hd (split_on slash q) = hd (split_on slash p)"
      proof (cases "path_pre p = []")
        case True
        then have "hd r = hd (path_body p)" using nonempty
          by (metis append_Nil butlast.simps(1) hd_butlast r_def trim_end_matches_Nil trim_end_prefix_hd)
        moreover have "split_on slash p = path_body p"
          using True rel split_on_body[of p] by simp
        ultimately show ?thesis using True rel by (simp add: sq)
      next
        case pf: False
        then show ?thesis using rel by (simp add: sq) (simp add: path_pre_def split: if_splits)
      qed
      have "\<not> is_abs q" using hq h by (cases q) (auto simp: is_abs_def)
      with rel hq show ?thesis by (simp add: path_lead_def)
    qed
    then show ?thesis
      by (simp add: comps_def[of q] sq bl path_pre_def triv_def)
  qed
qed

lemma parent_comps_not_Nil: "path_parent p = Some q \<Longrightarrow> comps p \<noteq> []"
proof -
  assume a: "path_parent p = Some q"
  then have "path_pre p \<noteq> [] \<or> filter (\<lambda>s. \<not> triv s) (path_body p) \<noteq> []"
    by (auto simp: parent_body Let_def trim_end_Nil_iff split: if_splits)
  then show ?thesis
    by (auto simp: comps_body path_lead_def path_pre_def split: if_splits)
qed

lemma parent_shorter: "path_parent p = Some q \<Longrightarrow> length (comps q) < length (comps p)"
  using comps_parent parent_comps_not_Nil by fastforce

lemma parent_of_file_name:
  assumes "path_file_name p = Some n" and "comps p \<noteq> [Normal n]"
  shows "\<exists>q. path_parent p = Some q \<and> comps p = comps q @ [Normal n]"
proof -
  have l: "comps p \<noteq> []" "last (comps p) = Normal n"
    using assms(1) by (auto simp: path_file_name_def split: if_splits comp.splits)
  have "filter (\<lambda>s. \<not> triv s) (path_body p) \<noteq> []"
    using l by (auto simp: comps_body path_lead_def split: if_splits)
  then obtain q where q: "path_parent p = Some q"
    by (auto simp: parent_body Let_def trim_end_Nil_iff)
  then have "comps q = butlast (comps p)" by (rule comps_parent)
  with l q show ?thesis by (metis append_butlast_last_id)
qed

text \<open>The file name of a path is its stem and extension put together again.\<close>

lemma file_at_dot_join:
  "case file_at_dot n of (s, None) \<Rightarrow> s = n | (s, Some e) \<Rightarrow> n = s @ dot # e \<and> dot \<notin> set e \<and> s \<noteq> []"
  by (auto simp: file_at_dot_def rsplit_once_Some split: option.splits)

end
