(* ===== verification/File_Tree.thy ===== *)
theory File_Tree
  imports Prelude
begin

text \<open>
  The contents of a file system: a tree whose directories are lists of named entries in the
  order \<open>read_dir\<close> returns them (any order), whose leaves are regular files and symbolic links.
  A location in it is the list of entry names from the root (a canonical path).  The interface
  \<open>tree_store\<close> states the laws of lookup, replacement and deletion by the relation of the two
  locations; the system calls and their clients use only these.
\<close>

section \<open>Nodes\<close>

record fdata =
  fbytes :: bytes
  fmode :: u32
  fxattrs :: "(string \<times> string) list"

datatype node = File fdata | Symlink string | Dir "(string \<times> node) list"

type_synonym loc = "string list"

fun tget :: "node \<Rightarrow> loc \<Rightarrow> node option" where
  "tget n [] = Some n"
| "tget (Dir es) (x # xs) = (case map_of es x of None \<Rightarrow> None | Some n \<Rightarrow> tget n xs)"
| "tget (File d) (x # xs) = None"
| "tget (Symlink l) (x # xs) = None"

fun tput :: "node \<Rightarrow> loc \<Rightarrow> node \<Rightarrow> node" where
  "tput n [] m = m"
| "tput (Dir es) (x # xs) m =
     (case map_of es x of
        None \<Rightarrow> if xs = [] then Dir (AList.update x m es) else Dir es
      | Some n \<Rightarrow> Dir (AList.update x (tput n xs m) es))"
| "tput (File d) (x # xs) m = File d"
| "tput (Symlink l) (x # xs) m = Symlink l"

fun tdel :: "node \<Rightarrow> loc \<Rightarrow> node" where
  "tdel n [] = n"
| "tdel (Dir es) [x] = Dir (AList.delete x es)"
| "tdel (Dir es) (x # y # ys) =
     (case map_of es x of
        None \<Rightarrow> Dir es
      | Some n \<Rightarrow> Dir (AList.update x (tdel n (y # ys)) es))"
| "tdel (File d) (x # xs) = File d"
| "tdel (Symlink l) (x # xs) = Symlink l"

definition is_dirn :: "node option \<Rightarrow> bool" where
  "is_dirn n = (case n of Some (Dir es) \<Rightarrow> True | _ \<Rightarrow> False)"

definition is_filen :: "node option \<Rightarrow> bool" where
  "is_filen n = (case n of Some (File d) \<Rightarrow> True | _ \<Rightarrow> False)"

lemma is_dirn_iff: "is_dirn n \<longleftrightarrow> (\<exists>es. n = Some (Dir es))"
  by (auto simp: is_dirn_def split: option.splits node.splits)

lemma is_filen_iff: "is_filen n \<longleftrightarrow> (\<exists>d. n = Some (File d))"
  by (auto simp: is_filen_def split: option.splits node.splits)

lemma is_dirn_simps [simp]: "is_dirn (Some (Dir es))" "\<not> is_dirn (Some (File d))"
    "\<not> is_dirn (Some (Symlink l))" "\<not> is_dirn None"
    "is_filen (Some (File d))" "\<not> is_filen (Some (Dir es))" "\<not> is_filen (Some (Symlink l))" "\<not> is_filen None"
  by (simp_all add: is_dirn_def is_filen_def)

section \<open>The interface of a tree store\<close>

text \<open>
  \<open>present\<close> says where a node can be put or deleted: below an existing directory.
\<close>

locale tree_store =
  fixes get :: "'t \<Rightarrow> 'k list \<Rightarrow> 'n option"
    and put :: "'t \<Rightarrow> 'k list \<Rightarrow> 'n \<Rightarrow> 't"
    and del :: "'t \<Rightarrow> 'k list \<Rightarrow> 't"
    and isdir :: "'n option \<Rightarrow> bool"
  assumes get_put_same: "p \<noteq> [] \<Longrightarrow> isdir (get t (butlast p)) \<Longrightarrow> get (put t p n) p = Some n"
    and get_put_par: "p \<parallel> q \<Longrightarrow> get (put t p n) q = get t q"
    and dir_put_above: "strict_prefix q p \<Longrightarrow> isdir (get t (butlast p)) \<Longrightarrow> isdir (get (put t p n) q)"
    and get_del_same: "p \<noteq> [] \<Longrightarrow> get (del t p) p = None"
    and get_del_par: "p \<parallel> q \<Longrightarrow> get (del t p) q = get t q"
    and dir_del_above: "strict_prefix q p \<Longrightarrow> isdir (get (del t p) q) = isdir (get t q)"
    and get_below_None: "get t p = None \<Longrightarrow> get t (p @ q) = None"
begin

lemma get_del_below: "p \<noteq> [] \<Longrightarrow> get (del t p) (p @ q) = None"
  by (simp add: get_below_None get_del_same)

text \<open>Moving a node: what a rename onto a parallel location does to the store.\<close>

definition move :: "'t \<Rightarrow> 'k list \<Rightarrow> 'k list \<Rightarrow> 't" where
  "move t p q = (case get t p of None \<Rightarrow> t | Some n \<Rightarrow> put (del t p) q n)"

lemma parent_dir_del:
  assumes "p \<parallel> q" and "q \<noteq> []" and "isdir (get t (butlast q))"
  shows "isdir (get (del t p) (butlast q))"
proof (cases "p \<parallel> butlast q")
  case True
  then show ?thesis using assms(3) by (simp add: get_del_par)
next
  case False
  have "\<not> prefix p (butlast q)"
    using assms(1) by (meson parallelE prefix_order.trans prefixeq_butlast)
  with False have "strict_prefix (butlast q) p" by (auto simp: strict_prefix_def)
  then show ?thesis using assms(3) by (simp add: dir_del_above)
qed

lemma move_dest:
  assumes "get t p = Some n" and "p \<parallel> q" and "q \<noteq> []" and "isdir (get t (butlast q))"
  shows "get (move t p q) q = Some n"
  using assms parent_dir_del[OF assms(2,3,4)] by (simp add: move_def get_put_same)

lemma move_source:
  assumes "get t p = Some n" and "p \<parallel> q" and "p \<noteq> []"
  shows "get (move t p q) p = None"
  using assms by (simp add: move_def get_put_par parallel_commute get_del_same)

lemma move_other:
  assumes "p \<parallel> r" and "q \<parallel> r"
  shows "get (move t p q) r = get t r"
  using assms by (simp add: move_def get_put_par get_del_par split: option.splits)

end

section \<open>The tree provides it\<close>

lemma tget_append: "tget t (p @ q) = (case tget t p of None \<Rightarrow> None | Some n \<Rightarrow> tget n q)"
  by (induction t p rule: tget.induct) (auto split: option.splits)

lemma tget_tput_same:
  "p \<noteq> [] \<Longrightarrow> is_dirn (tget t (butlast p)) \<Longrightarrow> tget (tput t p n) p = Some n"
proof (induction t p n rule: tput.induct)
  case (2 es x xs m)
  show ?case
  proof (cases "map_of es x")
    case None
    with "2.prems" have "xs = []" by (auto split: if_splits)
    with None show ?thesis by (simp add: update_conv')
  next
    case (Some n)
    with 2 show ?thesis by (cases "xs = []") (simp_all add: update_conv')
  qed
qed (auto simp: is_dirn_def split: if_splits)

lemma parallel_ConsE:
  "(x # xs) \<parallel> (y # ys) \<longleftrightarrow> x \<noteq> y \<or> xs \<parallel> ys"
  by (auto simp: parallel_def)

lemma not_parallel_Nil [simp]: "\<not> [] \<parallel> q" "\<not> p \<parallel> []"
  by (auto simp: parallel_def)

lemma tget_tput_par: "p \<parallel> q \<Longrightarrow> tget (tput t p n) q = tget t q"
proof (induction t p n arbitrary: q rule: tput.induct)
  case (2 es x xs m)
  from "2.prems" obtain y ys where q: "q = y # ys" by (cases q) auto
  with 2 show ?case
    by (auto simp: update_conv' parallel_ConsE split: option.splits)
qed auto

lemma is_dirn_tput_above:
  "strict_prefix q p \<Longrightarrow> is_dirn (tget t (butlast p)) \<Longrightarrow> is_dirn (tget (tput t p n) q)"
proof (induction t p n arbitrary: q rule: tput.induct)
  case (2 es x xs m)
  show ?case
  proof (cases q)
    case Nil
    then show ?thesis by (auto split: option.splits)
  next
    case (Cons y ys)
    with "2.prems" have "y = x" "strict_prefix ys xs" by auto
    then have "xs \<noteq> []" by auto
    with "2.prems" obtain n' where n': "map_of es x = Some n'" "is_dirn (tget n' (butlast xs))"
      by (auto split: option.splits)
    with 2 Cons \<open>y = x\<close> \<open>strict_prefix ys xs\<close> show ?thesis by (simp add: update_conv')
  qed
qed (auto simp: is_dirn_def strict_prefix_def split: if_splits)

lemma tget_tdel_same: "p \<noteq> [] \<Longrightarrow> tget (tdel t p) p = None"
  by (induction t p rule: tdel.induct)
     (auto simp: update_conv' delete_conv' split: option.splits)

lemma tget_tdel_par: "p \<parallel> q \<Longrightarrow> tget (tdel t p) q = tget t q"
proof (induction t p arbitrary: q rule: tdel.induct)
  case (2 es x)
  then obtain y ys where q: "q = y # ys" by (cases q) auto
  with 2 show ?case by (auto simp: delete_conv' parallel_ConsE)
next
  case (3 es x y ys)
  then obtain z zs where q: "q = z # zs" by (cases q) auto
  with 3 show ?case by (auto simp: update_conv' parallel_ConsE split: option.splits)
qed auto

lemma is_dirn_tdel_above: "strict_prefix q p \<Longrightarrow> is_dirn (tget (tdel t p) q) = is_dirn (tget t q)"
proof (induction t p arbitrary: q rule: tdel.induct)
  case (2 es x)
  then have "q = []" by (cases q) auto
  then show ?case by simp
next
  case (3 es x y ys)
  show ?case
  proof (cases q)
    case Nil
    then show ?thesis by (auto split: option.splits)
  next
    case (Cons z zs)
    with 3 show ?thesis by (auto simp: update_conv' split: option.splits)
  qed
qed auto

interpretation nt: tree_store tget tput tdel is_dirn
proof unfold_locales
  show "p \<noteq> [] \<Longrightarrow> is_dirn (tget t (butlast p)) \<Longrightarrow> tget (tput t p n) p = Some n" for p t n
    by (rule tget_tput_same)
  show "p \<parallel> q \<Longrightarrow> tget (tput t p n) q = tget t q" for p q t n
    by (rule tget_tput_par)
  show "strict_prefix q p \<Longrightarrow> is_dirn (tget t (butlast p)) \<Longrightarrow> is_dirn (tget (tput t p n) q)" for q p t n
    by (rule is_dirn_tput_above)
  show "p \<noteq> [] \<Longrightarrow> tget (tdel t p) p = None" for p t
    by (rule tget_tdel_same)
  show "p \<parallel> q \<Longrightarrow> tget (tdel t p) q = tget t q" for p q t
    by (rule tget_tdel_par)
  show "strict_prefix q p \<Longrightarrow> is_dirn (tget (tdel t p) q) = is_dirn (tget t q)" for q p t
    by (rule is_dirn_tdel_above)
  show "tget t p = None \<Longrightarrow> tget t (p @ q) = None" for t p q
    by (simp add: tget_append)
qed

end
