(* ===== verification/Syscalls.thy ===== *)
theory Syscalls
  imports Paths File_Tree
begin

text \<open>
  The part of Rust's \<open>std::fs\<close> the program calls, on Linux, over an explicit world: the tree of
  the file system, the working directory, the file creation mask, and a script of the faults the
  environment raises.  Every system call first takes the next entry of the script: \<open>Fail e\<close>
  makes it fail with \<open>e\<close> and change nothing, \<open>ShortWrite k\<close> lets a write store only its first
  \<open>k\<close> bytes, \<open>NoFault\<close> and an exhausted script let it run.  A theorem for all worlds is
  therefore a theorem for every pattern of permission, capacity, device and I/O errors.

  A file is identified by its canonical location (there are no hard links), an open handle by
  the location it was opened at; a handle whose file was unlinked swallows its writes.
\<close>

section \<open>Errors, faults, the world\<close>

datatype errno = ENOENT | EACCES | EPERM | EEXIST | ENOTDIR | EISDIR | ENOTEMPTY | EXDEV
  | ELOOP | EINVAL | ENOSPC | EIO | EBUSY | EBADF | EROFS | ENAMETOOLONG

datatype io_error = Os errno | WriteZero | Uncategorized

datatype error_kind = NotFound | PermissionDenied | AlreadyExists | CrossesDevices | OtherKind

fun kind_of :: "io_error \<Rightarrow> error_kind" where
  "kind_of (Os ENOENT) = NotFound"
| "kind_of (Os EACCES) = PermissionDenied"
| "kind_of (Os EPERM) = PermissionDenied"
| "kind_of (Os EEXIST) = AlreadyExists"
| "kind_of (Os EXDEV) = CrossesDevices"
| "kind_of e = OtherKind"

datatype fault = NoFault | Fail errno | ShortWrite nat

record world =
  fs :: node
  cwd :: loc
  umask :: u32
  faults :: "fault list"

type_synonym 'a io = "world \<Rightarrow> (io_error + 'a) \<times> world"

text \<open>A system call: an action on the tree, unless the next fault makes it fail.\<close>

definition run_call :: "(world \<Rightarrow> (io_error + 'a) \<times> node) \<Rightarrow> 'a io" where
  "run_call f w = (case f w of (r, t) \<Rightarrow> (r, w\<lparr>fs := t\<rparr>))"

definition sys :: "(world \<Rightarrow> (io_error + 'a) \<times> node) \<Rightarrow> 'a io" where
  "sys f w =
     (case faults w of
        [] \<Rightarrow> run_call f w
      | Fail e # r \<Rightarrow> (Inl (Os e), w\<lparr>faults := r\<rparr>)
      | _ # r \<Rightarrow> run_call f (w\<lparr>faults := r\<rparr>))"

section \<open>Path resolution\<close>

text \<open>
  The kernel's walk: \<open>.\<close> and \<open>..\<close> are followed in the tree, a symbolic link in the middle of
  the path is expanded, and at its end only if \<open>follow\<close> holds; after 40 links it gives up.  The
  last component may be missing.
\<close>

definition segs :: "string \<Rightarrow> string list" where
  "segs p = filter (\<lambda>s. s \<noteq> []) (split_on slash p) @
            (if p \<noteq> [] \<and> last p = slash \<and> (\<exists>c \<in> set p. c \<noteq> slash) then [''.''] else [])"

fun walk :: "nat \<Rightarrow> node \<Rightarrow> loc \<Rightarrow> string list \<Rightarrow> bool \<Rightarrow> errno + loc" where
  "walk k t cur [] follow = Inr cur"
| "walk k t cur (s # rest) follow =
     (case tget t cur of
        Some (Dir es) \<Rightarrow>
          (if s = ''.'' then walk k t cur rest follow
           else if s = ''..'' then walk k t (butlast cur) rest follow
           else (case map_of es s of
                   None \<Rightarrow> if rest = [] then Inr (cur @ [s]) else Inl ENOENT
                 | Some (Symlink l) \<Rightarrow>
                     if rest = [] \<and> \<not> follow then Inr (cur @ [s])
                     else (case k of
                             0 \<Rightarrow> Inl ELOOP
                           | Suc k' \<Rightarrow> walk k' t (if is_abs l then [] else cur) (segs l @ rest) follow)
                 | Some _ \<Rightarrow> walk k t (cur @ [s]) rest follow))
      | Some _ \<Rightarrow> Inl ENOTDIR
      | None \<Rightarrow> Inl ENOENT)"

definition max_links :: nat where "max_links = 40"

definition resolve :: "bool \<Rightarrow> world \<Rightarrow> path \<Rightarrow> errno + loc" where
  "resolve follow w p =
     (if p = [] then Inl ENOENT
      else walk max_links (fs w) (if is_abs p then [] else cwd w) (segs p) follow)"

text \<open>
  Calls that create or remove the last component take it without following a link; with a
  trailing separator it must not be an existing non-directory.
\<close>

definition resolve_leaf :: "world \<Rightarrow> path \<Rightarrow> errno + loc" where
  "resolve_leaf w p =
     (let q = trim_end_matches (\<lambda>c. c = slash) p in
      if q = [] then resolve False w p
      else case resolve False w q of
             Inl e \<Rightarrow> Inl e
           | Inr l \<Rightarrow>
               if q \<noteq> p \<and> tget (fs w) l \<noteq> None \<and> \<not> is_dirn (tget (fs w) l)
               then Inl ENOTDIR else Inr l)"

definition ends_in_dots :: "path \<Rightarrow> bool" where
  "ends_in_dots p = (let ss = filter (\<lambda>s. s \<noteq> []) (split_on slash p)
                     in ss \<noteq> [] \<and> (last ss = ''.'' \<or> last ss = ''..''))"

section \<open>Queries\<close>

definition node_at :: "bool \<Rightarrow> world \<Rightarrow> path \<Rightarrow> io_error + node" where
  "node_at follow w p =
     (case resolve follow w p of
        Inl e \<Rightarrow> Inl (Os e)
      | Inr l \<Rightarrow> (case tget (fs w) l of None \<Rightarrow> Inl (Os ENOENT) | Some n \<Rightarrow> Inr n))"

definition metadata :: "path \<Rightarrow> node io" where
  "metadata p = sys (\<lambda>w. (node_at True w p, fs w))"

definition symlink_metadata :: "path \<Rightarrow> node io" where
  "symlink_metadata p = sys (\<lambda>w. (node_at False w p, fs w))"

text \<open>\<open>Metadata::len\<close>: what the tree knows of sizes; a directory's own size is not part of it.\<close>

definition node_len :: "node \<Rightarrow> nat" where
  "node_len n = (case n of File d \<Rightarrow> length (fbytes d) | Symlink l \<Rightarrow> length l | Dir es \<Rightarrow> 0)"

definition path_exists :: "path \<Rightarrow> world \<Rightarrow> bool \<times> world" where
  "path_exists p w = (case metadata p w of (r, w1) \<Rightarrow> (\<not> isl r, w1))"

definition path_is_dir :: "path \<Rightarrow> world \<Rightarrow> bool \<times> world" where
  "path_is_dir p w = (case metadata p w of (Inr (Dir es), w1) \<Rightarrow> (True, w1) | (_, w1) \<Rightarrow> (False, w1))"

definition path_is_file :: "path \<Rightarrow> world \<Rightarrow> bool \<times> world" where
  "path_is_file p w = (case metadata p w of (Inr (File d), w1) \<Rightarrow> (True, w1) | (_, w1) \<Rightarrow> (False, w1))"

definition path_is_symlink :: "path \<Rightarrow> world \<Rightarrow> bool \<times> world" where
  "path_is_symlink p w =
     (case symlink_metadata p w of (Inr (Symlink l), w1) \<Rightarrow> (True, w1) | (_, w1) \<Rightarrow> (False, w1))"

definition read_dir :: "path \<Rightarrow> (string \<times> node) list io" where
  "read_dir p = sys (\<lambda>w. (case node_at True w p of
       Inl e \<Rightarrow> Inl e
     | Inr (Dir es) \<Rightarrow> Inr es
     | Inr _ \<Rightarrow> Inl (Os ENOTDIR), fs w))"

text \<open>Taking the next entry from an open directory can fail on its own.\<close>

definition next_entry :: "(string \<times> node) \<Rightarrow> (string \<times> node) io" where
  "next_entry e = sys (\<lambda>w. (Inr e, fs w))"

definition canonicalize :: "path \<Rightarrow> path io" where
  "canonicalize p = sys (\<lambda>w. (case resolve True w p of
       Inl e \<Rightarrow> Inl (Os e)
     | Inr l \<Rightarrow> if tget (fs w) l = None then Inl (Os ENOENT)
                else Inr (slash # join_with slash l), fs w))"

section \<open>Directories and names\<close>

definition create_dir :: "path \<Rightarrow> unit io" where
  "create_dir p = sys (\<lambda>w. (case resolve_leaf w p of
       Inl e \<Rightarrow> (Inl (Os e), fs w)
     | Inr l \<Rightarrow> if tget (fs w) l \<noteq> None then (Inl (Os EEXIST), fs w)
                else (Inr (), tput (fs w) l (Dir []))))"

function create_dir_all :: "path \<Rightarrow> unit io" where
  "create_dir_all p w =
     (if comps p = [] then (Inr (), w)
      else case create_dir p w of
        (Inr u, w1) \<Rightarrow> (Inr (), w1)
      | (Inl e, w1) \<Rightarrow>
          (if kind_of e = NotFound
           then (case path_parent p of
                   None \<Rightarrow> (Inl Uncategorized, w1)
                 | Some q \<Rightarrow>
                     (case create_dir_all q w1 of
                        (Inl e2, w2) \<Rightarrow> (Inl e2, w2)
                      | (Inr u, w2) \<Rightarrow>
                          (case create_dir p w2 of
                             (Inr u, w3) \<Rightarrow> (Inr (), w3)
                           | (Inl e3, w3) \<Rightarrow>
                               (case path_is_dir p w3 of
                                  (True, w4) \<Rightarrow> (Inr (), w4)
                                | (False, w4) \<Rightarrow> (Inl e3, w4)))))
           else (case path_is_dir p w1 of
                   (True, w2) \<Rightarrow> (Inr (), w2)
                 | (False, w2) \<Rightarrow> (Inl e, w2))))"
  by pat_completeness auto
termination
  by (relation "measure (\<lambda>(p, w). length (comps p))") (auto dest: parent_shorter)

declare create_dir_all.simps [simp del]

definition remove_file :: "path \<Rightarrow> unit io" where
  "remove_file p = sys (\<lambda>w. (case resolve_leaf w p of
       Inl e \<Rightarrow> (Inl (Os e), fs w)
     | Inr l \<Rightarrow> (case tget (fs w) l of
                   None \<Rightarrow> (Inl (Os ENOENT), fs w)
                 | Some (Dir es) \<Rightarrow> (Inl (Os EISDIR), fs w)
                 | Some _ \<Rightarrow> (Inr (), tdel (fs w) l))))"

definition remove_dir :: "path \<Rightarrow> unit io" where
  "remove_dir p = sys (\<lambda>w. (if ends_in_dots p then (Inl (Os EINVAL), fs w)
     else case resolve_leaf w p of
       Inl e \<Rightarrow> (Inl (Os e), fs w)
     | Inr l \<Rightarrow> (case tget (fs w) l of
                   None \<Rightarrow> (Inl (Os ENOENT), fs w)
                 | Some (Dir es) \<Rightarrow>
                     if l = [] then (Inl (Os EBUSY), fs w)
                     else if es \<noteq> [] then (Inl (Os ENOTEMPTY), fs w)
                     else (Inr (), tdel (fs w) l)
                 | Some _ \<Rightarrow> (Inl (Os ENOTDIR), fs w))))"

text \<open>
  \<open>remove_dir_all\<close> removes what is below a directory, deepest first, and does not follow links;
  a fault part of the way leaves the rest in place.
\<close>

fun post_order :: "loc \<Rightarrow> node \<Rightarrow> loc list" where
  "post_order l (Dir es) = concat (map (\<lambda>(s, n). post_order (l @ [s]) n) es) @ [l]"
| "post_order l (File d) = [l]"
| "post_order l (Symlink q) = [l]"

fun del_each :: "loc list \<Rightarrow> unit io" where
  "del_each [] w = (Inr (), w)"
| "del_each (l # ls) w =
     (case sys (\<lambda>w. (Inr (), tdel (fs w) l)) w of
        (Inl e, w1) \<Rightarrow> (Inl e, w1)
      | (Inr u, w1) \<Rightarrow> del_each ls w1)"

definition remove_dir_all :: "path \<Rightarrow> unit io" where
  "remove_dir_all p w =
     (case sys (\<lambda>w. (case resolve_leaf w p of
                Inl e \<Rightarrow> Inl (Os e)
              | Inr l \<Rightarrow> (case tget (fs w) l of
                            None \<Rightarrow> Inl (Os ENOENT)
                          | Some n \<Rightarrow> Inr (l, n)), fs w)) w of
        (Inl e, w1) \<Rightarrow> (Inl e, w1)
      | (Inr (l, File d), w1) \<Rightarrow> (Inl (Os ENOTDIR), w1)
      | (Inr (l, Symlink q), w1) \<Rightarrow> del_each [l] w1
      | (Inr (l, Dir es), w1) \<Rightarrow>
          if l = [] \<or> ends_in_dots p then (Inl (Os EBUSY), w1)
          else del_each (post_order l (Dir es)) w1)"

definition rename_locs :: "node \<Rightarrow> loc \<Rightarrow> loc \<Rightarrow> (io_error + unit) \<times> node" where
  "rename_locs t a b =
     (case tget t a of
        None \<Rightarrow> (Inl (Os ENOENT), t)
      | Some n \<Rightarrow>
          if a = b then (Inr (), t)
          else if a = [] \<or> b = [] then (Inl (Os EBUSY), t)
          else if prefix a b then (Inl (Os EINVAL), t)
          else if prefix b a then (Inl (Os ENOTEMPTY), t)
          else (case (n, tget t b) of
                  (_, None) \<Rightarrow> (Inr (), tput (tdel t a) b n)
                | (Dir es, Some (Dir [])) \<Rightarrow> (Inr (), tput (tdel t a) b n)
                | (Dir es, Some (Dir (x # xs))) \<Rightarrow> (Inl (Os ENOTEMPTY), t)
                | (Dir es, Some _) \<Rightarrow> (Inl (Os ENOTDIR), t)
                | (_, Some (Dir es)) \<Rightarrow> (Inl (Os EISDIR), t)
                | (_, Some _) \<Rightarrow> (Inr (), tput (tdel t a) b n)))"

definition rename_path :: "path \<Rightarrow> path \<Rightarrow> unit io" where
  "rename_path p q = sys (\<lambda>w.
     (if ends_in_dots p \<or> ends_in_dots q then (Inl (Os EBUSY), fs w)
      else case resolve_leaf w p of
       Inl e \<Rightarrow> (Inl (Os e), fs w)
     | Inr a \<Rightarrow> (case resolve_leaf w q of
         Inl e \<Rightarrow> (Inl (Os e), fs w)
       | Inr b \<Rightarrow> rename_locs (fs w) a b)))"

section \<open>Files\<close>

definition new_file :: "u32 \<Rightarrow> fdata" where
  "new_file m = \<lparr>fbytes = [], fmode = m, fxattrs = []\<rparr>"

definition mask_mode :: "world \<Rightarrow> u32 \<Rightarrow> u32" where
  "mask_mode w m = and m (not (umask w))"

text \<open>\<open>File::open\<close> gives a handle on a directory too; only reading from it fails.\<close>

definition file_open :: "path \<Rightarrow> loc io" where
  "file_open p = sys (\<lambda>w. (case resolve True w p of
       Inl e \<Rightarrow> Inl (Os e)
     | Inr l \<Rightarrow> if tget (fs w) l = None then Inl (Os ENOENT) else Inr l, fs w))"

text \<open>
  \<open>File::create\<close>: follows links, truncates an existing file, keeps its mode; a path with a
  trailing separator names a directory and is refused.
\<close>

definition file_create :: "path \<Rightarrow> loc io" where
  "file_create p = sys (\<lambda>w.
     (if p \<noteq> [] \<and> last p = slash then
        (case resolve_leaf w p of Inl e \<Rightarrow> (Inl (Os e), fs w) | Inr l \<Rightarrow> (Inl (Os EISDIR), fs w))
      else case resolve True w p of
       Inl e \<Rightarrow> (Inl (Os e), fs w)
     | Inr l \<Rightarrow> (case tget (fs w) l of
         None \<Rightarrow> (Inr l, tput (fs w) l (File (new_file (mask_mode w 0x1B6))))
       | Some (File d) \<Rightarrow> (Inr l, tput (fs w) l (File (d\<lparr>fbytes := []\<rparr>)))
       | Some _ \<Rightarrow> (Inl (Os EISDIR), fs w))))"

text \<open>\<open>OpenOptions::create_new\<close> with a mode: the name must be free, a dangling link included.\<close>

definition file_create_new :: "path \<Rightarrow> u32 \<Rightarrow> loc io" where
  "file_create_new p m = sys (\<lambda>w.
     (case resolve False w p of
       Inl e \<Rightarrow> (Inl (Os e), fs w)
     | Inr l \<Rightarrow> if tget (fs w) l \<noteq> None then (Inl (Os EEXIST), fs w)
                else (Inr l, tput (fs w) l (File (new_file (mask_mode w m))))))"

definition map_file :: "(fdata \<Rightarrow> fdata) \<Rightarrow> loc \<Rightarrow> node \<Rightarrow> node" where
  "map_file f l t = (case tget t l of Some (File d) \<Rightarrow> tput t l (File (f d)) | _ \<Rightarrow> t)"

definition store_at :: "nat \<Rightarrow> bytes \<Rightarrow> bytes \<Rightarrow> bytes" where
  "store_at off data old =
     take off (old @ replicate (off - length old) 0) @ data @ drop (off + length data) old"

text \<open>One \<open>write\<close> call at an offset: the number of bytes it stored.\<close>

definition write_once :: "loc \<Rightarrow> nat \<Rightarrow> bytes \<Rightarrow> nat io" where
  "write_once l off data w =
     (case faults w of
        ShortWrite k # r \<Rightarrow>
          (Inr (min k (length data)),
           w\<lparr>fs := map_file (fbytes_update (store_at off (take k data))) l (fs w), faults := r\<rparr>)
      | _ \<Rightarrow> sys (\<lambda>w. (Inr (length data), map_file (fbytes_update (store_at off data)) l (fs w))) w)"

text \<open>\<open>Write::write_all\<close>: until nothing is left; a write of no bytes is an error.\<close>

function write_all :: "loc \<Rightarrow> nat \<Rightarrow> bytes \<Rightarrow> unit io" where
  "write_all l off data w =
     (if data = [] then (Inr (), w)
      else case write_once l off data w of
        (Inl e, w1) \<Rightarrow> (Inl e, w1)
      | (Inr n, w1) \<Rightarrow>
          if n = 0 then (Inl WriteZero, w1)
          else write_all l (off + n) (drop n data) w1)"
  by pat_completeness auto
termination
  by (relation "measure (\<lambda>(l, off, data, w). length data)") auto

declare write_all.simps [simp del]

text \<open>Where the handle's offset is after \<open>write_all\<close>, also when it failed part of the way.\<close>

function write_all_end :: "loc \<Rightarrow> nat \<Rightarrow> bytes \<Rightarrow> world \<Rightarrow> nat" where
  "write_all_end l off data w =
     (if data = [] then off
      else case write_once l off data w of
        (Inl e, w1) \<Rightarrow> off
      | (Inr n, w1) \<Rightarrow> if n = 0 then off else write_all_end l (off + n) (drop n data) w1)"
  by pat_completeness auto
termination
  by (relation "measure (\<lambda>(l, off, data, w). length data)") auto

declare write_all_end.simps [simp del]

definition read_at :: "loc \<Rightarrow> nat \<Rightarrow> nat \<Rightarrow> bytes io" where
  "read_at l off n = sys (\<lambda>w. (case tget (fs w) l of
       Some (File d) \<Rightarrow> Inr (take n (drop off (fbytes d)))
     | Some (Dir es) \<Rightarrow> Inl (Os EISDIR)
     | _ \<Rightarrow> Inr [], fs w))"

definition set_mode :: "loc \<Rightarrow> u32 \<Rightarrow> unit io" where
  "set_mode l m = sys (\<lambda>w. (Inr (), map_file (\<lambda>d. d\<lparr>fmode := m\<rparr>) l (fs w)))"

definition set_permissions :: "path \<Rightarrow> u32 \<Rightarrow> unit io" where
  "set_permissions p m = sys (\<lambda>w. (case resolve True w p of
       Inl e \<Rightarrow> (Inl (Os e), fs w)
     | Inr l \<Rightarrow> if tget (fs w) l = None then (Inl (Os ENOENT), fs w)
                else (Inr (), map_file (\<lambda>d. d\<lparr>fmode := m\<rparr>) l (fs w))))"

definition sync_data :: "loc \<Rightarrow> unit io" where
  "sync_data l = sys (\<lambda>w. (Inr (), fs w))"

definition set_xattr :: "path \<Rightarrow> string \<Rightarrow> string \<Rightarrow> unit io" where
  "set_xattr p name val = sys (\<lambda>w. (case resolve True w p of
       Inl e \<Rightarrow> (Inl (Os e), fs w)
     | Inr l \<Rightarrow> if tget (fs w) l = None then (Inl (Os ENOENT), fs w)
                else (Inr (), map_file (fxattrs_update (AList.update name val)) l (fs w))))"

end
