(* ===== verification/Syscall_Laws.thy ===== *)
theory Syscall_Laws
  imports Syscalls
begin

text \<open>
  What the clients of the system calls rely on: how a call ends (a fault that changes nothing, or
  its effect), what it leaves unchanged, where path resolution leads, and that resolution only
  depends on the directories and links of the tree, not on its regular files.
\<close>

section \<open>How a system call ends\<close>

lemma sys_no_fault [sys_simps]: "faults w = [] \<Longrightarrow> sys f w = run_call f w"
  by (simp add: sys_def)

lemma run_call_simps [sys_simps]: "run_call f w = (fst (f w), w\<lparr>fs := snd (f w)\<rparr>)"
  by (simp add: run_call_def split: prod.splits)

lemma sys_cases:
  assumes "sys f w = (r, w')"
  obtains (fault) e where "r = Inl (Os e)" "w' = w\<lparr>faults := tl (faults w)\<rparr>"
  | (run) t where "f (w\<lparr>faults := tl (faults w)\<rparr>) = (r, t)"
      "w' = w\<lparr>faults := tl (faults w), fs := t\<rparr>"
proof (cases "faults w")
  case Nil
  then have e: "w\<lparr>faults := []\<rparr> = w" by (cases w) simp
  with Nil assms show thesis
    by (intro run[of "fs w'"]) (auto simp: sys_def run_call_def e split: prod.splits)
next
  case (Cons a r')
  show thesis
  proof (cases a)
    case (Fail e)
    with Cons assms show thesis by (intro fault) (auto simp: sys_def)
  qed (use Cons assms in \<open>auto intro!: run[of "fs w'"] simp: sys_def run_call_def split: prod.splits\<close>)
qed

lemma sys_query:
  assumes "sys (\<lambda>w. (g w, fs w)) w = (r, w')"
  shows "fs w' = fs w \<and> cwd w' = cwd w \<and> umask w' = umask w"
  using assms by (cases rule: sys_cases) auto

lemma sys_env:
  assumes "sys f w = (r, w')"
  shows "cwd w' = cwd w \<and> umask w' = umask w"
  using assms by (cases rule: sys_cases) auto

section \<open>Resolution leads below an existing directory\<close>

lemma map_of_tget: "tget t cur = Some (Dir es) \<Longrightarrow> map_of es s = tget t (cur @ [s])"
  by (simp add: tget_append split: option.splits)

definition dir_above :: "node \<Rightarrow> loc \<Rightarrow> bool" where
  "dir_above t l \<longleftrightarrow> l \<noteq> [] \<longrightarrow> is_dirn (tget t (butlast l))"

lemma dir_above_snoc [simp]: "dir_above t (l @ [s]) \<longleftrightarrow> is_dirn (tget t l)"
  by (simp add: dir_above_def)

lemma tget_prefix_Some: "tget t (p @ q) = Some n \<Longrightarrow> \<exists>m. tget t p = Some m"
  by (auto simp: tget_append split: option.splits)

lemma tget_parent_dir: "tget t l = Some n \<Longrightarrow> dir_above t l"
proof (cases l rule: rev_cases)
  case (snoc ys y)
  assume "tget t l = Some n"
  with snoc obtain m where m: "tget t ys = Some m" "tget m [y] = Some n"
    by (auto simp: tget_append split: option.splits)
  then show ?thesis using snoc by (cases m) auto
qed (simp add: dir_above_def)

lemma walk_dir_above:
  "walk k t cur ss f = Inr l \<Longrightarrow> dir_above t cur \<Longrightarrow> dir_above t l"
proof (induction k t cur ss f rule: walk.induct)
  case (2 k t cur s rest f)
  from "2.prems"(1) obtain es where es: "tget t cur = Some (Dir es)"
    by (auto split: option.splits node.splits)
  have b: "dir_above t (butlast cur)"
  proof (cases "cur = []")
    case False
    then have "tget t (butlast cur @ [last cur]) = Some (Dir es)" using es by simp
    then obtain m where "tget t (butlast cur) = Some m" using tget_prefix_Some by blast
    then show ?thesis by (rule tget_parent_dir)
  qed (simp add: dir_above_def)
  have r: "dir_above t []" by (simp add: dir_above_def)
  from 2 es b r show ?case
    by (auto split: if_splits option.splits node.splits nat.splits)
qed simp

lemma root_is_dir: "tget t cur = Some (Dir es) \<Longrightarrow> is_dirn (Some t)"
  by (cases t; cases cur) auto

lemma walk_not_link:
  "walk k t cur ss True = Inr l \<Longrightarrow> \<not> (\<exists>q. tget t cur = Some (Symlink q)) \<Longrightarrow>
   \<not> (\<exists>q. tget t l = Some (Symlink q))"
proof (induction k t cur ss True rule: walk.induct)
  case (2 k t cur s rest)
  from "2.prems"(1) obtain es where es: "tget t cur = Some (Dir es)"
    by (auto split: option.splits node.splits)
  have b: "\<not> (\<exists>q. tget t (butlast cur) = Some (Symlink q))"
  proof (cases "cur = []")
    case False
    then have "tget t (butlast cur @ [last cur]) = Some (Dir es)" using es by simp
    then have "is_dirn (tget t (butlast cur))" using tget_parent_dir dir_above_snoc by blast
    then show ?thesis by auto
  qed (use "2.prems" in auto)
  have r: "\<not> (\<exists>q. t = Symlink q)"
    using root_is_dir[OF es] by auto
  show ?case
  proof (cases "s = ''.'' \<or> s = ''..''")
    case True
    with 2 es b show ?thesis by (auto split: if_splits)
  next
    case False
    show ?thesis
    proof (cases "map_of es s")
      case None
      with False 2 es show ?thesis by (auto simp: map_of_tget[OF es] split: if_splits)
    next
      case (Some n)
      show ?thesis
      proof (cases n)
        case (Symlink q)
        with Some False 2 es r show ?thesis
          by (cases k) (auto split: if_splits)
      qed (use Some False 2 es in \<open>auto simp: map_of_tget[OF es] split: if_splits\<close>)
    qed
  qed
qed auto

section \<open>Resolution depends on directories and links only\<close>

datatype skel = SLeaf | SDir | SLink string

definition skel_of :: "node option \<Rightarrow> skel" where
  "skel_of n = (case n of Some (Dir es) \<Rightarrow> SDir | Some (Symlink l) \<Rightarrow> SLink l | _ \<Rightarrow> SLeaf)"

definition skel_eq :: "node \<Rightarrow> node \<Rightarrow> bool" where
  "skel_eq t u = (\<forall>q. skel_of (tget t q) = skel_of (tget u q))"

lemma skel_eq_refl [simp]: "skel_eq t t"
  by (simp add: skel_eq_def)

lemma skel_eq_sym: "skel_eq t u \<Longrightarrow> skel_eq u t"
  by (simp add: skel_eq_def)

lemma skel_eq_trans [trans]: "skel_eq t u \<Longrightarrow> skel_eq u v \<Longrightarrow> skel_eq t v"
  by (simp add: skel_eq_def)

lemma skel_of_cases:
  "skel_of n = SDir \<longleftrightarrow> is_dirn n"
  "skel_of n = SLink l \<longleftrightarrow> n = Some (Symlink l)"
  "skel_of n = SLeaf \<longleftrightarrow> n = None \<or> is_filen n"
  by (auto simp: skel_of_def split: option.splits node.splits)

lemma skel_eq_dir: "skel_eq t u \<Longrightarrow> is_dirn (tget t q) = is_dirn (tget u q)"
  by (metis skel_eq_def skel_of_cases(1))

lemma skel_eq_link: "skel_eq t u \<Longrightarrow> tget t q = Some (Symlink l) \<longleftrightarrow> tget u q = Some (Symlink l)"
  by (metis skel_eq_def skel_of_cases(2))

lemma skel_eq_dir_above: "skel_eq t u \<Longrightarrow> dir_above t l = dir_above u l"
  by (simp add: dir_above_def skel_eq_dir)

lemma walk_leaf:
  assumes "tget t cur = Some (Dir es)" and "s \<noteq> ''.''" and "s \<noteq> ''..''"
    and "skel_of (tget t (cur @ [s])) = SLeaf"
  shows "walk k t cur (s # rest) f = Inr l \<longleftrightarrow> rest = [] \<and> l = cur @ [s]"
proof -
  have "tget t (cur @ [s]) = None \<or> (\<exists>d. tget t (cur @ [s]) = Some (File d))"
    using assms(4) by (simp add: skel_of_cases is_filen_iff)
  then show ?thesis
    using assms(1-3) by (cases rest) (auto simp: map_of_tget)
qed

lemma walk_skel:
  "skel_eq t u \<Longrightarrow> walk k t cur ss f = Inr l \<Longrightarrow> walk k u cur ss f = Inr l"
proof (induction k t cur ss f rule: walk.induct)
  case (2 k t cur s rest f)
  from "2.prems"(2) obtain es where es: "tget t cur = Some (Dir es)"
    by (auto split: option.splits node.splits)
  then obtain eu where eu: "tget u cur = Some (Dir eu)"
    using skel_eq_dir[OF "2.prems"(1), of cur] by (auto simp: is_dirn_iff)
  show ?case
  proof (cases "s = ''.'' \<or> s = ''..''")
    case True
    with 2 es eu show ?thesis by (auto split: if_splits)
  next
    case False
    have sk: "skel_of (tget u (cur @ [s])) = skel_of (tget t (cur @ [s]))"
      using "2.prems"(1) by (simp add: skel_eq_def)
    show ?thesis
    proof (cases "skel_of (tget t (cur @ [s]))")
      case SLeaf
      with False es eu sk "2.prems"(2) show ?thesis by (simp add: walk_leaf del: walk.simps)
    next
      case SDir
      with sk obtain et eu' where n: "tget t (cur @ [s]) = Some (Dir et)" "tget u (cur @ [s]) = Some (Dir eu')"
        by (auto simp: skel_of_cases is_dirn_iff)
      with False es eu 2 show ?thesis by (auto simp: map_of_tget)
    next
      case (SLink q)
      with sk have n: "tget t (cur @ [s]) = Some (Symlink q)" "tget u (cur @ [s]) = Some (Symlink q)"
        by (simp_all add: skel_of_cases)
      show ?thesis
      proof (cases "rest = [] \<and> \<not> f")
        case True
        with False es eu "2.prems"(2) n show ?thesis by (simp add: map_of_tget)
      next
        case fol: False
        with False es n "2.prems"(2) obtain k' where k: "k = Suc k'"
          and wk: "walk k' t (if is_abs q then [] else cur) (segs q @ rest) f = Inr l"
          by (cases k) (auto simp: map_of_tget)
        from "2.IH"(4)[OF es refl] False es n fol k wk "2.prems"(1)
        have "walk k' u (if is_abs q then [] else cur) (segs q @ rest) f = Inr l"
          by (simp add: map_of_tget)
        with False eu n k fol show ?thesis by (auto simp: map_of_tget)
      qed
    qed
  qed
qed simp

lemma resolve_skel:
  assumes "skel_eq (fs w) (fs v)" and "cwd v = cwd w" and "resolve f w p = Inr l"
  shows "resolve f v p = Inr l"
  using assms by (auto simp: resolve_def intro: walk_skel split: if_splits)

lemma resolve_faults [simp]: "resolve f (w\<lparr>faults := x\<rparr>) p = resolve f w p"
  by (simp add: resolve_def)

lemma resolve_leaf_faults [simp]: "resolve_leaf (w\<lparr>faults := x\<rparr>) p = resolve_leaf w p"
  by (auto simp: resolve_leaf_def Let_def split: sum.splits)

lemma node_at_faults [simp]: "node_at f (w\<lparr>faults := x\<rparr>) p = node_at f w p"
  by (auto simp: node_at_def split: sum.splits)

text \<open>The working directory is a directory; then every resolved location is below one.\<close>

definition env_ok :: "world \<Rightarrow> bool" where
  "env_ok w \<longleftrightarrow> is_dirn (Some (fs w)) \<and> is_dirn (tget (fs w) (cwd w))"

lemma resolve_dir_above:
  assumes "env_ok w" and "resolve f w p = Inr l"
  shows "dir_above (fs w) l"
proof (rule walk_dir_above)
  show "walk max_links (fs w) (if is_abs p then [] else cwd w) (segs p) f = Inr l"
    using assms(2) by (simp add: resolve_def split: if_splits)
  show "dir_above (fs w) (if is_abs p then [] else cwd w)"
    using assms(1) tget_parent_dir by (auto simp: env_ok_def is_dirn_iff dir_above_def)
qed

lemma resolve_not_link:
  assumes "env_ok w" and "resolve True w p = Inr l"
  shows "tget (fs w) l \<noteq> Some (Symlink q)"
proof -
  have "\<not> (\<exists>q. tget (fs w) (if is_abs p then [] else cwd w) = Some (Symlink q))"
    using assms(1) by (auto simp: env_ok_def is_dirn_iff)
  then show ?thesis
    using walk_not_link[of max_links "fs w" "if is_abs p then [] else cwd w" "segs p" l] assms(2)
    by (auto simp: resolve_def split: if_splits)
qed

lemma walk_follow:
  "walk k t cur ss False = Inr l \<Longrightarrow> \<not> (\<exists>q. tget t l = Some (Symlink q)) \<Longrightarrow> walk k t cur ss True = Inr l"
proof (induction k t cur ss False rule: walk.induct)
  case (2 k t cur s rest)
  from "2.prems"(1) obtain es where es: "tget t cur = Some (Dir es)"
    by (auto split: option.splits node.splits)
  show ?case
  proof (cases "s = ''.'' \<or> s = ''..'' \<or> map_of es s = None")
    case True
    with 2 es show ?thesis by (auto split: if_splits)
  next
    case False
    then obtain n where n: "map_of es s = Some n" by auto
    show ?thesis
    proof (cases n)
      case (Symlink q)
      have "rest \<noteq> []"
      proof
        assume "rest = []"
        with "2.prems" False es n Symlink show False
          using map_of_tget[OF es, of s] by auto
      qed
      with 2 False es n Symlink show ?thesis by (cases k) (auto split: if_splits)
    qed (use 2 False es n in \<open>auto split: if_splits\<close>)
  qed
qed auto

lemma resolve_follow:
  assumes "resolve False w p = Inr l" and "\<And>q. tget (fs w) l \<noteq> Some (Symlink q)"
  shows "resolve True w p = Inr l"
  using assms by (auto simp: resolve_def intro: walk_follow split: if_splits)

section \<open>Changing regular files keeps the skeleton\<close>

lemma loc_cases:
  obtains (eq) "q = l" | (par) "l \<parallel> q" | (above) "strict_prefix q l" | (below) r where "q = l @ r" "r \<noteq> []"
proof -
  consider "q = l" | "l \<parallel> q" | "strict_prefix q l" | "strict_prefix l q"
    by (auto simp: parallel_def strict_prefix_def)
  then show thesis
  proof cases
    case 4
    then obtain r where "q = l @ r" "r \<noteq> []" by (auto simp: strict_prefix_def prefix_def)
    then show thesis by (rule below)
  qed (use eq par above in blast)+
qed

lemma dir_above_prefix:
  assumes "dir_above t l" and "strict_prefix q l"
  shows "is_dirn (tget t q)"
proof -
  from assms(2) obtain r where r: "l = q @ r" "r \<noteq> []" by (auto simp: strict_prefix_def prefix_def)
  with assms(1) obtain es where es: "tget t (q @ butlast r) = Some (Dir es)"
    by (auto simp: dir_above_def butlast_append is_dirn_iff)
  then obtain m where m: "tget t q = Some m" "tget m (butlast r) = Some (Dir es)"
    by (auto simp: tget_append split: option.splits)
  then show ?thesis by (simp add: root_is_dir)
qed

lemma leaf_below: "skel_of (tget t l) = SLeaf \<Longrightarrow> r \<noteq> [] \<Longrightarrow> tget t (l @ r) = None"
  by (cases r) (auto simp: skel_of_cases is_filen_iff tget_append)

lemma skel_put_file:
  assumes "l \<noteq> []" and "dir_above t l" and "skel_of (tget t l) = SLeaf"
  shows "skel_eq (tput t l (File d)) t"
  unfolding skel_eq_def
proof
  fix q
  have same: "tget (tput t l (File d)) l = Some (File d)"
    using assms by (simp add: nt.get_put_same dir_above_def)
  show "skel_of (tget (tput t l (File d)) q) = skel_of (tget t q)"
  proof (cases q l rule: loc_cases)
    case eq
    then show ?thesis using assms same by (simp add: skel_of_def)
  next
    case par
    then show ?thesis by (simp add: nt.get_put_par)
  next
    case above
    then show ?thesis
      using assms nt.dir_put_above[OF above, of t] dir_above_prefix[OF assms(2) above]
      by (simp add: dir_above_def) (metis skel_of_cases(1))
  next
    case (below r)
    then have "tget t q = None" using assms leaf_below by simp
    moreover have "tget (tput t l (File d)) q = None"
      using below same by (cases r) (simp_all add: tget_append)
    ultimately show ?thesis by simp
  qed
qed

lemma skel_del_file:
  assumes "l \<noteq> []" and "dir_above t l" and "skel_of (tget t l) = SLeaf"
  shows "skel_eq (tdel t l) t"
  unfolding skel_eq_def
proof
  fix q
  show "skel_of (tget (tdel t l) q) = skel_of (tget t q)"
  proof (cases q l rule: loc_cases)
    case eq
    then show ?thesis using assms by (simp add: nt.get_del_same skel_of_def)
  next
    case par
    then show ?thesis by (simp add: nt.get_del_par)
  next
    case above
    have "is_dirn (tget (tdel t l) q) = is_dirn (tget t q)" by (rule nt.dir_del_above[OF above])
    with dir_above_prefix[OF assms(2) above] show ?thesis by (metis skel_of_cases(1))
  next
    case (below r)
    then show ?thesis using assms leaf_below by (simp add: nt.get_del_below)
  qed
qed

section \<open>The regular files of a tree\<close>

text \<open>
  With its skeleton, a tree is described by its regular files.  The file operations act on that
  map by function update, which is the abstract specification the clients reason with.
\<close>

definition files :: "node \<Rightarrow> loc \<rightharpoonup> fdata" where
  "files t q = (case tget t q of Some (File d) \<Rightarrow> Some d | _ \<Rightarrow> None)"

lemma files_Some: "files t q = Some d \<longleftrightarrow> tget t q = Some (File d)"
  by (auto simp: files_def split: option.splits node.splits)

lemma files_leaf: "files t q = Some d \<Longrightarrow> skel_of (tget t q) = SLeaf"
  by (simp add: files_Some skel_of_def)

lemma files_not_leaf: "skel_of (tget t q) \<noteq> SLeaf \<Longrightarrow> files t q = None"
  using files_leaf by (cases "files t q") blast+

lemma files_put_file:
  assumes "l \<noteq> []" and "dir_above t l" and "skel_of (tget t l) = SLeaf"
  shows "files (tput t l (File d)) = (files t)(l \<mapsto> d)"
proof
  fix q
  have same: "tget (tput t l (File d)) l = Some (File d)"
    using assms by (simp add: nt.get_put_same dir_above_def)
  show "files (tput t l (File d)) q = ((files t)(l \<mapsto> d)) q"
  proof (cases q l rule: loc_cases)
    case eq
    then show ?thesis using same by (simp add: files_def)
  next
    case par
    then have "q \<noteq> l" by (auto simp: parallel_def)
    with par show ?thesis by (simp add: files_def nt.get_put_par)
  next
    case above
    then have "is_dirn (tget t q)" "is_dirn (tget (tput t l (File d)) q)" "q \<noteq> l"
      using assms dir_above_prefix nt.dir_put_above[OF above, of t] by (auto simp: dir_above_def)
    then show ?thesis by (auto simp: files_def is_dirn_iff)
  next
    case (below r)
    then have "tget t q = None" "tget (tput t l (File d)) q = None" "q \<noteq> l"
      using assms leaf_below same by (cases r; simp add: tget_append)+
    then show ?thesis by (simp add: files_def)
  qed
qed

lemma files_del_file:
  assumes "l \<noteq> []" and "dir_above t l" and "skel_of (tget t l) = SLeaf"
  shows "files (tdel t l) = (files t)(l := None)"
proof
  fix q
  show "files (tdel t l) q = ((files t)(l := None)) q"
  proof (cases q l rule: loc_cases)
    case eq
    then show ?thesis using assms by (simp add: files_def nt.get_del_same)
  next
    case par
    then have "q \<noteq> l" by (auto simp: parallel_def)
    with par show ?thesis by (simp add: files_def nt.get_del_par)
  next
    case above
    then have "is_dirn (tget t q)" "is_dirn (tget (tdel t l) q)" "q \<noteq> l"
      using assms dir_above_prefix nt.dir_del_above[OF above, of t] by (auto simp: dir_above_def)
    then show ?thesis by (auto simp: files_def is_dirn_iff)
  next
    case (below r)
    then show ?thesis using assms leaf_below by (simp add: files_def nt.get_del_below)
  qed
qed

lemma map_file_files:
  assumes "env_ok w" and "fs w = t"
  shows "files (map_file f l t) = (files t)(l := map_option f (files t l))"
    and "skel_eq (map_file f l t) t"
proof -
  have "files (map_file f l t) = (files t)(l := map_option f (files t l)) \<and> skel_eq (map_file f l t) t"
  proof (cases "files t l")
    case None
    then have "map_file f l t = t"
      by (auto simp: map_file_def files_def split: option.splits node.splits)
    with None show ?thesis by (simp add: fun_upd_idem)
  next
    case (Some d)
    then have g: "tget t l = Some (File d)" by (simp add: files_Some)
    have "l \<noteq> []" using g assms by (auto simp: env_ok_def)
    moreover have "dir_above t l" using g by (rule tget_parent_dir)
    moreover have "map_file f l t = tput t l (File (f d))" by (simp add: map_file_def g)
    ultimately show ?thesis
      using Some by (simp add: files_put_file skel_put_file files_leaf)
  qed
  then show "files (map_file f l t) = (files t)(l := map_option f (files t l))"
    and "skel_eq (map_file f l t) t" by simp_all
qed

lemma rename_file_locs:
  assumes "files t a = Some d" and "a \<noteq> []" and "b \<noteq> []" and "a \<noteq> b"
    and "dir_above t b" and "skel_of (tget t b) = SLeaf"
  shows "rename_locs t a b = (Inr (), tput (tdel t a) b (File d))"
    and "files (tput (tdel t a) b (File d)) = (files t)(a := None, b \<mapsto> d)"
    and "skel_eq (tput (tdel t a) b (File d)) t"
proof -
  have g: "tget t a = Some (File d)" using assms(1) by (simp add: files_Some)
  have da: "dir_above t a" using g by (rule tget_parent_dir)
  have np: "\<not> prefix a b"
  proof
    assume "prefix a b"
    then have "strict_prefix a b" using assms(4) by (simp add: strict_prefix_def)
    then have "is_dirn (tget t a)" using assms(5) dir_above_prefix by blast
    with g show False by simp
  qed
  have nq: "\<not> prefix b a"
  proof
    assume "prefix b a"
    then have "strict_prefix b a" using assms(4) by (auto simp: strict_prefix_def)
    then have "is_dirn (tget t b)" using da dir_above_prefix by blast
    then show False using assms(6) by (auto simp: skel_of_cases is_dirn_iff is_filen_iff)
  qed
  have par: "a \<parallel> b" using np nq by (simp add: parallel_def)
  have leafb: "tget t b = None \<or> (\<exists>e. tget t b = Some (File e))"
    using assms(6) by (auto simp: skel_of_cases is_filen_iff)
  show "rename_locs t a b = (Inr (), tput (tdel t a) b (File d))"
    using leafb g assms(2-4) np nq by (auto simp: rename_locs_def)
  have sk: "skel_eq (tdel t a) t"
    using assms(1,2) da by (simp add: skel_del_file files_leaf)
  have db: "dir_above (tdel t a) b" using assms(5) sk by (simp add: skel_eq_dir_above)
  have lb: "skel_of (tget (tdel t a) b) = SLeaf" using sk assms(6) by (simp add: skel_eq_def)
  show "files (tput (tdel t a) b (File d)) = (files t)(a := None, b \<mapsto> d)"
    using assms(1-3) da db lb by (simp add: files_put_file files_del_file files_leaf)
  have "skel_eq (tput (tdel t a) b (File d)) (tdel t a)"
    using assms(3) db lb by (simp add: skel_put_file)
  then show "skel_eq (tput (tdel t a) b (File d)) t" using sk by (rule skel_eq_trans)
qed

end
