(* ===== verification/AutoFs.thy ===== *)
theory AutoFs
  imports Syscall_Laws
begin

text \<open>
  \<open>src/autofs.rs\<close>: the file system the WebDAV server serves.  \<open>AutoMkcolFs\<close> creates missing
  parents and turns an upload into an \<open>AtomicFile\<close>: a temporary file in the target's directory,
  written chunk by chunk, checked and renamed onto the target by \<open>commit\<close>, removed by \<open>drop\<close>
  if it was not committed.

  The crates the code calls are fields of \<open>libs\<close> (SHA-256, hexadecimal, base64, and the
  conversion of I/O errors in \<open>dav-server\<close>); the wrapped \<open>LocalFs\<close> and the paths of
  \<open>dav-server\<close> are arguments.
\<close>

section \<open>Errors, options, libraries\<close>

datatype fs_error = NotImplemented | GeneralFailure | Exists | FsNotFound | Forbidden
  | InsufficientStorage | LoopDetected | PathTooLong | TooLarge | IsRemote

record libs =
  lib_sha256 :: "bytes \<Rightarrow> bytes"
  lib_hex_encode :: "bytes \<Rightarrow> string"
  lib_hex_decode :: "string \<Rightarrow> bytes option"
  lib_base64_decode :: "string \<Rightarrow> bytes option"
  lib_fs_error :: "io_error \<Rightarrow> fs_error"

record open_options =
  oo_read :: bool
  oo_write :: bool
  oo_append :: bool
  oo_truncate :: bool
  oo_create :: bool
  oo_create_new :: bool
  oo_size :: "u64 option"
  oo_checksum :: "string option"

text \<open>What the code asks of a \<open>DavPath\<close>: its relative OS path, and its parent's.\<close>

record dav_path =
  rel_ospath :: path
  parent_rel_ospath :: path

record auto_fs =
  af_root :: path
  af_create_parents :: bool
  af_atomic_writes :: bool
  af_fsync :: bool

definition fspath :: "auto_fs \<Rightarrow> dav_path \<Rightarrow> path" where
  "fspath a p = path_join (af_root a) (rel_ospath p)"

definition ensure_parent :: "libs \<Rightarrow> auto_fs \<Rightarrow> dav_path \<Rightarrow> world \<Rightarrow> (fs_error + unit) \<times> world" where
  "ensure_parent L a p w =
     (if \<not> af_create_parents a then (Inr (), w)
      else let q = path_join (af_root a) (parent_rel_ospath p) in
        if path_eq q (af_root a) then (Inr (), w)
        else case create_dir_all q w of
               (Inl e, w1) \<Rightarrow> (Inl (lib_fs_error L e), w1)
             | (Inr u, w1) \<Rightarrow> (Inr (), w1))"

section \<open>Free space and the temporary file\<close>

record statvfs =
  f_frsize :: u64
  f_bsize :: u64
  f_bavail :: u64

text \<open>The \<open>statvfs\<close> call is an argument; the product is a \<open>u64\<close>, which wraps in a release build.\<close>

definition free_space :: "(path \<Rightarrow> io_error + statvfs) \<Rightarrow> path \<Rightarrow> io_error + u64" where
  "free_space sv dir =
     (if CHR 0x00 \<in> set dir then Inl (Os EINVAL)
      else case sv dir of
             Inl e \<Rightarrow> Inl e
           | Inr st \<Rightarrow>
               (let frsize = (if f_frsize st > 0 then f_frsize st else f_bsize st)
                in Inr (f_bavail st * frsize)))"

definition temp_suffix :: string where "temp_suffix = ''.uploading.nzk_webdavs''"

definition temp_name :: "string \<Rightarrow> nat \<Rightarrow> string" where
  "temp_name name i =
     (if i = 0 then name @ temp_suffix else name @ temp_suffix @ ''.'' @ show_nat i)"

fun try_temps :: "libs \<Rightarrow> nat list \<Rightarrow> path \<Rightarrow> string \<Rightarrow> world \<Rightarrow> (fs_error + (path \<times> loc)) \<times> world" where
  "try_temps L [] dir name w = (Inl Exists, w)"
| "try_temps L (i # is) dir name w =
     (let temp = path_join dir (temp_name name i) in
      case file_create_new temp 0x1A4 w of
        (Inr f, w1) \<Rightarrow> (Inr (temp, f), w1)
      | (Inl e, w1) \<Rightarrow>
          if kind_of e = AlreadyExists then try_temps L is dir name w1
          else (Inl (lib_fs_error L e), w1))"

definition create_temp :: "libs \<Rightarrow> path \<Rightarrow> path \<Rightarrow> world \<Rightarrow> (fs_error + (path \<times> loc)) \<times> world" where
  "create_temp L dir target w =
     (let name = (case path_file_name target of Some n \<Rightarrow> n | None \<Rightarrow> ''file'')
      in try_temps L [0..<16] dir name w)"

section \<open>Checksums\<close>

definition eq_ignore_ascii_case :: "string \<Rightarrow> string \<Rightarrow> bool" where
  "eq_ignore_ascii_case s t = (ascii_lowercase s = ascii_lowercase t)"

definition parse_sha256_checksum :: "libs \<Rightarrow> string \<Rightarrow> bytes option" where
  "parse_sha256_checksum L raw =
     (case split_once (CHR '':'') (trim raw) of
        None \<Rightarrow> None
      | Some (alg, val) \<Rightarrow>
          if \<not> eq_ignore_ascii_case alg ''sha256'' then None
          else case lib_hex_decode L (trim val) of
                 Some b \<Rightarrow> Some b
               | None \<Rightarrow> lib_base64_decode L (trim val))"

definition xattr_name :: string where "xattr_name = ''user.nzk_webdavs.sha256''"

text \<open>Best effort: the result of the call is ignored.\<close>

definition set_xattr_sha256 :: "path \<Rightarrow> string \<Rightarrow> world \<Rightarrow> world" where
  "set_xattr_sha256 p sha_hex w =
     (if CHR 0x00 \<in> set p \<or> CHR 0x00 \<in> set sha_hex then w
      else snd (set_xattr p xattr_name sha_hex w))"

section \<open>The atomic file\<close>

record handle =
  h_loc :: loc
  h_off :: nat

record atomic_file =
  a_file :: "handle option"
  a_temp :: path
  a_target :: path
  a_expected_size :: "u64 option"
  a_written :: u64
  a_committed :: bool
  a_fsync :: bool
  a_hashed :: bytes
  a_checksum :: "string option"

definition atomic_new :: "path \<Rightarrow> path \<Rightarrow> u64 option \<Rightarrow> string option \<Rightarrow> loc \<Rightarrow> bool \<Rightarrow> atomic_file" where
  "atomic_new temp target sz ck f fsync =
     \<lparr>a_file = Some \<lparr>h_loc = f, h_off = 0\<rparr>, a_temp = temp, a_target = target,
      a_expected_size = sz, a_written = 0, a_committed = False, a_fsync = fsync,
      a_hashed = [], a_checksum = ck\<rparr>"

type_synonym 'a af_result = "(fs_error + 'a) \<times> atomic_file \<times> world"

definition should_commit :: "atomic_file \<Rightarrow> bool" where
  "should_commit a = (case a_expected_size a of None \<Rightarrow> True | Some s \<Rightarrow> a_written a = s)"

definition checksum_mismatch :: "libs \<Rightarrow> atomic_file \<Rightarrow> bool" where
  "checksum_mismatch L a =
     (case a_checksum a of
        None \<Rightarrow> False
      | Some ck \<Rightarrow> (case parse_sha256_checksum L ck of
                     None \<Rightarrow> False
                   | Some expected \<Rightarrow> expected \<noteq> lib_sha256 L (a_hashed a)))"

text \<open>The blocking closure of \<open>commit\<close>: an optional sync, then the rename.\<close>

definition commit_io :: "atomic_file \<Rightarrow> unit io" where
  "commit_io a w =
     (case (case a_file a of
              Some h \<Rightarrow> if a_fsync a then sync_data (h_loc h) w else (Inr (), w)
            | None \<Rightarrow> (Inr (), w)) of
        (Inl e, w1) \<Rightarrow> (Inl e, w1)
      | (Inr u, w1) \<Rightarrow>
          if should_commit a then rename_path (a_temp a) (a_target a) w1 else (Inr (), w1))"

definition commit :: "libs \<Rightarrow> atomic_file \<Rightarrow> world \<Rightarrow> unit af_result" where
  "commit L a w =
     (if a_committed a then (Inr (), a, w)
      else if checksum_mismatch L a then (Inl GeneralFailure, a, w)
      else case commit_io a w of
             (Inl e, w1) \<Rightarrow> (Inl (lib_fs_error L e), a\<lparr>a_file := None\<rparr>, w1)
           | (Inr u, w1) \<Rightarrow>
               (Inr (), a\<lparr>a_file := None, a_committed := should_commit a\<rparr>,
                if should_commit a
                then set_xattr_sha256 (a_target a) (lib_hex_encode L (lib_sha256 L (a_hashed a))) w1
                else w1))"

definition write_bytes :: "libs \<Rightarrow> bytes \<Rightarrow> atomic_file \<Rightarrow> world \<Rightarrow> unit af_result" where
  "write_bytes L buf a w =
     (let a1 = a\<lparr>a_hashed := a_hashed a @ buf\<rparr> in
      case a_file a1 of
        None \<Rightarrow> (Inl GeneralFailure, a1, w)
      | Some h \<Rightarrow>
          (case write_all (h_loc h) (h_off h) buf w of
             (r, w1) \<Rightarrow>
               ((case r of Inl e \<Rightarrow> Inl (lib_fs_error L e) | Inr u \<Rightarrow> Inr ()),
                a1\<lparr>a_file := Some (h\<lparr>h_off := write_all_end (h_loc h) (h_off h) buf w\<rparr>),
                   a_written := a_written a + of_nat (length buf)\<rparr>, w1)))"

text \<open>
  The loop of \<open>write_buf\<close> over the chunks a \<open>Buf\<close> yields; it returns the offset and the bytes
  hashed so far, whether it ends well or not.
\<close>

function write_chunks :: "loc \<Rightarrow> nat \<Rightarrow> bytes \<Rightarrow> bytes list \<Rightarrow> world \<Rightarrow> (io_error + unit) \<times> nat \<times> bytes \<times> world" where
  "write_chunks l off hashed [] w = (Inr (), off, hashed, w)"
| "write_chunks l off hashed (c # cs) w =
     (if c = [] then write_chunks l off hashed cs w
      else case write_once l off c w of
        (Inl e, w1) \<Rightarrow> (Inl e, off, hashed, w1)
      | (Inr n, w1) \<Rightarrow>
          if n = 0 then (Inl WriteZero, off, hashed, w1)
          else write_chunks l (off + n) (hashed @ take n c) (drop n c # cs) w1)"
  by pat_completeness auto
termination
  by (relation "measure (\<lambda>(l, off, hashed, cs, w). length (concat cs) + length cs)") auto

definition write_buf :: "libs \<Rightarrow> bytes list \<Rightarrow> atomic_file \<Rightarrow> world \<Rightarrow> unit af_result" where
  "write_buf L chunks a w =
     (case a_file a of
        None \<Rightarrow> (Inl GeneralFailure, a, w)
      | Some h \<Rightarrow>
          (case write_chunks (h_loc h) (h_off h) (a_hashed a) chunks w of
             (r, off, hashed, w1) \<Rightarrow>
               ((case r of Inl e \<Rightarrow> Inl (lib_fs_error L e) | Inr u \<Rightarrow> Inr ()),
                a\<lparr>a_hashed := hashed, a_file := Some (h\<lparr>h_off := off\<rparr>),
                  a_written := a_written a + of_nat (length (concat chunks))\<rparr>, w1)))"

text \<open>The handle was opened for writing only, so the kernel refuses to read from it.\<close>

definition read_bytes :: "libs \<Rightarrow> nat \<Rightarrow> atomic_file \<Rightarrow> world \<Rightarrow> bytes af_result" where
  "read_bytes L count a w =
     (case a_file a of
        None \<Rightarrow> (Inl GeneralFailure, a, w)
      | Some h \<Rightarrow>
          (case sys (\<lambda>w. (Inl (Os EBADF) :: io_error + bytes, fs w)) w of
             (Inl e, w1) \<Rightarrow> (Inl (lib_fs_error L e), a, w1)
           | (Inr b, w1) \<Rightarrow> (Inr (take count b), a, w1)))"

text \<open>
  \<open>SeekFrom\<close>: an unsigned offset from the start, or signed ones from the end and the position.  The
  call takes a signed offset, so one from the start of \<open>2 ^ 63\<close> or more arrives as a negative number;
  a negative position and one above the largest signed offset are refused.
\<close>

type_synonym i64 = "64 word"

datatype seek_from = Start u64 | End i64 | Current i64

definition seek_target :: "seek_from \<Rightarrow> nat \<Rightarrow> nat \<Rightarrow> int" where
  "seek_target pos off len =
     (case pos of Start n \<Rightarrow> sint n | End d \<Rightarrow> int len + sint d | Current d \<Rightarrow> int off + sint d)"

definition seek :: "libs \<Rightarrow> seek_from \<Rightarrow> atomic_file \<Rightarrow> world \<Rightarrow> u64 af_result" where
  "seek L pos a w =
     (case a_file a of
        None \<Rightarrow> (Inl GeneralFailure, a, w)
      | Some h \<Rightarrow>
          (case sys (\<lambda>w. (let len = (case files (fs w) (h_loc h) of Some d \<Rightarrow> length (fbytes d) | None \<Rightarrow> 0);
                              t = seek_target pos (h_off h) len
                          in if t < 0 \<or> 2 ^ 63 \<le> t then Inl (Os EINVAL) else Inr (nat t), fs w)) w of
             (Inl e, w1) \<Rightarrow> (Inl (lib_fs_error L e), a, w1)
           | (Inr n, w1) \<Rightarrow> (Inr (of_nat n), a\<lparr>a_file := Some (h\<lparr>h_off := n\<rparr>)\<rparr>, w1)))"

definition flush :: "libs \<Rightarrow> atomic_file \<Rightarrow> world \<Rightarrow> unit af_result" where
  "flush L a w = commit L a w"

definition af_metadata :: "libs \<Rightarrow> atomic_file \<Rightarrow> world \<Rightarrow> node af_result" where
  "af_metadata L a w =
     (case commit L a w of
        (Inl e, a1, w1) \<Rightarrow> (Inl e, a1, w1)
      | (Inr u, a1, w1) \<Rightarrow>
          (case metadata (if a_committed a1 then a_target a1 else a_temp a1) w1 of
             (Inl e, w2) \<Rightarrow> (Inl (lib_fs_error L e), a1, w2)
           | (Inr n, w2) \<Rightarrow> (Inr n, a1, w2)))"

definition af_drop :: "atomic_file \<Rightarrow> world \<Rightarrow> world" where
  "af_drop a w = (if a_committed a then w else snd (remove_file (a_temp a) w))"

section \<open>Opening and creating\<close>

datatype 'h dav_file = Atomic atomic_file | Inner 'h

definition af_open ::
  "libs \<Rightarrow> (path \<Rightarrow> io_error + statvfs) \<Rightarrow>
   (dav_path \<Rightarrow> open_options \<Rightarrow> world \<Rightarrow> (fs_error + 'h) \<times> world) \<Rightarrow>
   auto_fs \<Rightarrow> dav_path \<Rightarrow> open_options \<Rightarrow> world \<Rightarrow> (fs_error + 'h dav_file) \<times> world" where
  "af_open L sv inner_open a p oo w =
     (case (if oo_write oo \<and> oo_create oo then ensure_parent L a p w else (Inr (), w)) of
        (Inl e, w1) \<Rightarrow> (Inl e, w1)
      | (Inr u, w1) \<Rightarrow>
          if af_atomic_writes a \<and> oo_write oo \<and> oo_create oo \<and> oo_truncate oo then
            (let target = fspath a p in
             case (if oo_create_new oo then path_exists target w1 else (False, w1)) of
               (True, w2) \<Rightarrow> (Inl Exists, w2)
             | (False, w2) \<Rightarrow>
                 (case path_is_dir target w2 of
                    (True, w3) \<Rightarrow> (Inl Forbidden, w3)
                  | (False, w3) \<Rightarrow>
                      (let dir = (case path_parent target of Some q \<Rightarrow> q | None \<Rightarrow> af_root a);
                           full = (case oo_size oo of
                                     None \<Rightarrow> False
                                   | Some sz \<Rightarrow> (case free_space sv dir of
                                                     Inl e \<Rightarrow> False
                                                   | Inr free \<Rightarrow> free < sz))
                       in if full then (Inl InsufficientStorage, w3)
                          else case create_temp L dir target w3 of
                                 (Inl e, w4) \<Rightarrow> (Inl e, w4)
                               | (Inr (temp, f), w4) \<Rightarrow>
                                   (Inr (Atomic (atomic_new temp target (oo_size oo)
                                                   (oo_checksum oo) f (af_fsync a))), w4))))
          else (case inner_open p oo w1 of
                  (Inl e, w2) \<Rightarrow> (Inl e, w2)
                | (Inr h, w2) \<Rightarrow> (Inr (Inner h), w2)))"

definition af_create_dir ::
  "libs \<Rightarrow> (dav_path \<Rightarrow> world \<Rightarrow> (fs_error + unit) \<times> world) \<Rightarrow> auto_fs \<Rightarrow> dav_path \<Rightarrow>
   world \<Rightarrow> (fs_error + unit) \<times> world" where
  "af_create_dir L inner_create_dir a p w =
     (case ensure_parent L a p w of
        (Inl e, w1) \<Rightarrow> (Inl e, w1)
      | (Inr u, w1) \<Rightarrow> inner_create_dir p w1)"

text \<open>The other operations of the trait are those of the wrapped file system.\<close>

definition af_remove_dir :: "(dav_path \<Rightarrow> world \<Rightarrow> 'r \<times> world) \<Rightarrow> dav_path \<Rightarrow> world \<Rightarrow> 'r \<times> world" where
  "af_remove_dir inner_remove_dir p w = inner_remove_dir p w"

definition af_remove_file :: "(dav_path \<Rightarrow> world \<Rightarrow> 'r \<times> world) \<Rightarrow> dav_path \<Rightarrow> world \<Rightarrow> 'r \<times> world" where
  "af_remove_file inner_remove_file p w = inner_remove_file p w"

definition af_rename ::
  "(dav_path \<Rightarrow> dav_path \<Rightarrow> world \<Rightarrow> 'r \<times> world) \<Rightarrow> dav_path \<Rightarrow> dav_path \<Rightarrow> world \<Rightarrow> 'r \<times> world" where
  "af_rename inner_rename from dest w = inner_rename from dest w"

definition af_copy ::
  "(dav_path \<Rightarrow> dav_path \<Rightarrow> world \<Rightarrow> 'r \<times> world) \<Rightarrow> dav_path \<Rightarrow> dav_path \<Rightarrow> world \<Rightarrow> 'r \<times> world" where
  "af_copy inner_copy from dest w = inner_copy from dest w"

definition af_read_dir :: "(dav_path \<Rightarrow> 'm \<Rightarrow> world \<Rightarrow> 'r \<times> world) \<Rightarrow> dav_path \<Rightarrow> 'm \<Rightarrow> world \<Rightarrow> 'r \<times> world" where
  "af_read_dir inner_read_dir p meta w = inner_read_dir p meta w"

definition af_metadata_of :: "(dav_path \<Rightarrow> world \<Rightarrow> 'r \<times> world) \<Rightarrow> dav_path \<Rightarrow> world \<Rightarrow> 'r \<times> world" where
  "af_metadata_of inner_metadata p w = inner_metadata p w"

definition af_symlink_metadata :: "(dav_path \<Rightarrow> world \<Rightarrow> 'r \<times> world) \<Rightarrow> dav_path \<Rightarrow> world \<Rightarrow> 'r \<times> world" where
  "af_symlink_metadata inner_symlink_metadata p w = inner_symlink_metadata p w"

text \<open>\<open>LocalMeta\<close>, the metadata of the temporary file, over the node it was read from.\<close>

definition lm_len :: "node \<Rightarrow> nat" where "lm_len n = node_len n"
definition lm_is_dir :: "node \<Rightarrow> bool" where "lm_is_dir n = is_dirn (Some n)"
definition lm_is_file :: "node \<Rightarrow> bool" where "lm_is_file n = is_filen (Some n)"
definition lm_is_symlink :: "node \<Rightarrow> bool" where
  "lm_is_symlink n = (case n of Symlink l \<Rightarrow> True | _ \<Rightarrow> False)"
definition lm_executable :: "node \<Rightarrow> fs_error + bool" where
  "lm_executable n = (case n of File d \<Rightarrow> Inr (and (fmode d) 0x40 > 0) | _ \<Rightarrow> Inl NotImplemented)"

text \<open>
  The time stamps come from the file system: each is an answer of the standard library or its error.
  The change time is a signed number of seconds that the code casts to unsigned; adding what is no
  longer representable to the epoch panics, which is \<open>None\<close>.
\<close>

record file_times =
  ft_modified :: "io_error + u64"
  ft_accessed :: "io_error + u64"
  ft_created :: "io_error + u64"
  ft_ctime :: "64 word"

definition fs_result :: "libs \<Rightarrow> io_error + 'a \<Rightarrow> fs_error + 'a" where
  "fs_result L r = (case r of Inl e \<Rightarrow> Inl (lib_fs_error L e) | Inr x \<Rightarrow> Inr x)"

definition lm_modified :: "libs \<Rightarrow> file_times \<Rightarrow> fs_error + u64" where
  "lm_modified L t = fs_result L (ft_modified t)"

definition lm_accessed :: "libs \<Rightarrow> file_times \<Rightarrow> fs_error + u64" where
  "lm_accessed L t = fs_result L (ft_accessed t)"

definition lm_created :: "libs \<Rightarrow> file_times \<Rightarrow> fs_error + u64" where
  "lm_created L t = fs_result L (ft_created t)"

definition lm_status_changed :: "file_times \<Rightarrow> (fs_error + u64) option" where
  "lm_status_changed t = (if unat (ft_ctime t) < 2 ^ 63 then Some (Inr (ft_ctime t)) else None)"

text \<open>It panics for exactly the files changed before the epoch.\<close>

lemma status_changed_panics: "lm_status_changed t = None \<longleftrightarrow> sint (ft_ctime t) < 0"
  by (simp add: lm_status_changed_def negative_word)

end
