(* ===== verification/File_Laws.thy ===== *)
theory File_Laws
  imports Syscall_Laws
begin

text \<open>
  Calls that touch regular files only: what they leave unchanged, and what a sequence of writes
  through a handle at the end of its file leaves in it, for every fault script.
\<close>

section \<open>Calls that touch one file\<close>

definition only_file :: "loc set \<Rightarrow> world \<Rightarrow> world \<Rightarrow> bool" where
  "only_file ls w v \<longleftrightarrow>
     cwd v = cwd w \<and> skel_eq (fs w) (fs v) \<and> (\<forall>q. q \<notin> ls \<longrightarrow> files (fs v) q = files (fs w) q)"

lemma only_file_refl [simp]: "only_file ls w w"
  by (simp add: only_file_def)

lemma only_file_trans [trans]: "only_file ls w v \<Longrightarrow> only_file ls v u \<Longrightarrow> only_file ls w u"
  by (auto simp: only_file_def intro: skel_eq_trans)

lemma only_file_mono: "only_file ls w v \<Longrightarrow> ls \<subseteq> ms \<Longrightarrow> only_file ms w v"
  by (auto simp: only_file_def)

lemma only_file_env: "only_file ls w v \<Longrightarrow> env_ok w \<Longrightarrow> env_ok v"
  using skel_eq_dir[of "fs w" "fs v" "[]"] skel_eq_dir[of "fs w" "fs v" "cwd w"]
  by (simp add: only_file_def env_ok_def)

lemma only_file_resolve: "only_file ls w v \<Longrightarrow> resolve f w p = Inr l \<Longrightarrow> resolve f v p = Inr l"
  by (auto simp: only_file_def intro: resolve_skel)

lemma only_file_leaf: "only_file ls w v \<Longrightarrow> skel_of (tget (fs v) q) = skel_of (tget (fs w) q)"
  by (simp add: only_file_def skel_eq_def)

lemma only_file_same: "fs v = fs w \<Longrightarrow> cwd v = cwd w \<Longrightarrow> only_file ls w v"
  by (simp add: only_file_def)

lemma only_file_map:
  assumes "env_ok w" and "fs v = map_file f l (fs w)" and "cwd v = cwd w"
  shows "only_file {l} w v" and "files (fs v) l = map_option f (files (fs w) l)"
  using map_file_files[OF assms(1) refl, of f l] assms(2,3)
  by (auto simp: only_file_def intro: skel_eq_sym)

definition plain_end :: "path \<Rightarrow> bool" where
  "plain_end p \<longleftrightarrow> p \<noteq> [] \<and> last p \<noteq> slash \<and> \<not> ends_in_dots p"

lemma resolve_leaf_plain: "plain_end p \<Longrightarrow> resolve_leaf w p = resolve False w p"
proof -
  assume "plain_end p"
  then have "p \<noteq> []" "last p \<noteq> slash" by (simp_all add: plain_end_def)
  then have "trim_end_matches (\<lambda>c. c = slash) p = p"
    by (cases p rule: rev_cases) (auto simp: trim_end_matches_snoc)
  then show ?thesis by (auto simp: resolve_leaf_def split: sum.splits)
qed

section \<open>Writing\<close>

lemma store_at_end: "off = length old \<Longrightarrow> store_at off data old = old @ data"
  by (simp add: store_at_def)

lemma write_once_outcome:
  assumes "write_once l off data w = (r, v)" and "env_ok w"
  shows "only_file {l} w v"
    and "case r of Inl e \<Rightarrow> files (fs v) = files (fs w)
         | Inr n \<Rightarrow> n \<le> length data \<and>
             files (fs v) l = map_option (fbytes_update (store_at off (take n data))) (files (fs w) l)"
proof -
  have g: "only_file {l} w v \<and> (case r of Inl e \<Rightarrow> files (fs v) = files (fs w)
         | Inr n \<Rightarrow> n \<le> length data \<and>
             files (fs v) l = map_option (fbytes_update (store_at off (take n data))) (files (fs w) l))"
  proof (cases "\<exists>k rest. faults w = ShortWrite k # rest")
    case True
    then obtain k rest where k: "faults w = ShortWrite k # rest" by blast
    then have "r = Inr (min k (length data))"
      and v: "fs v = map_file (fbytes_update (store_at off (take k data))) l (fs w)" "cwd v = cwd w"
      using assms(1) by (auto simp: write_once_def)
    then show ?thesis
      using only_file_map[OF assms(2) v] by (simp add: min_def)
  next
    case False
    then have "sys (\<lambda>w. (Inr (length data), map_file (fbytes_update (store_at off data)) l (fs w))) w = (r, v)"
      using assms(1) by (auto simp: write_once_def split: list.splits fault.splits)
    then show ?thesis
    proof (cases rule: sys_cases)
      case (fault e)
      then show ?thesis by (simp add: only_file_same)
    next
      case (run t)
      then have v: "fs v = map_file (fbytes_update (store_at off data)) l (fs w)" "cwd v = cwd w"
        by auto
      from run have "r = Inr (length data)" by simp
      then show ?thesis using only_file_map[OF assms(2) v] by simp
    qed
  qed
  then show "only_file {l} w v" by simp
  from g show "case r of Inl e \<Rightarrow> files (fs v) = files (fs w)
         | Inr n \<Rightarrow> n \<le> length data \<and>
             files (fs v) l = map_option (fbytes_update (store_at off (take n data))) (files (fs w) l)"
    by simp
qed

text \<open>The contents a handle at the end of its file has written so far.\<close>

definition holds :: "loc \<Rightarrow> bytes \<Rightarrow> world \<Rightarrow> bool" where
  "holds l bs w \<longleftrightarrow> (\<exists>d. files (fs w) l = Some d \<and> fbytes d = bs)"

lemma write_once_holds:
  assumes "write_once l off data w = (r, v)" and "env_ok w" and "holds l bs w" and "off = length bs"
  shows "case r of Inl e \<Rightarrow> holds l bs v | Inr n \<Rightarrow> n \<le> length data \<and> holds l (bs @ take n data) v"
  using write_once_outcome(2)[OF assms(1,2)] assms(3,4)
  by (auto simp: holds_def store_at_end split: sum.splits)

lemma write_all_outcome:
  assumes "write_all l off data w = (r, v)" and "env_ok w"
  shows "only_file {l} w v"
  using assms
proof (induction l off data w rule: write_all.induct)
  case (1 l off data w)
  show ?case
  proof (cases "data = []")
    case True
    with "1.prems" show ?thesis by (simp add: write_all.simps)
  next
    case False
    obtain r1 w1 where w1: "write_once l off data w = (r1, w1)" by fastforce
    have o: "only_file {l} w w1" using write_once_outcome(1)[OF w1 "1.prems"(2)] .
    show ?thesis
    proof (cases "\<exists>n. r1 = Inr n \<and> n \<noteq> 0")
      case True
      then obtain n where n: "r1 = Inr n" "n \<noteq> 0" by blast
      with False w1 "1.prems"(1) have "write_all l (off + n) (drop n data) w1 = (r, v)"
        by (subst (asm) write_all.simps) simp
      then have "only_file {l} w1 v"
        using "1.IH"[OF False w1[symmetric] n(1) n(2)] only_file_env[OF o "1.prems"(2)] by blast
      with o show ?thesis by (rule only_file_trans)
    next
      case stop: False
      with False w1 "1.prems"(1) have "v = w1"
        by (subst (asm) write_all.simps) (auto split: sum.splits if_splits)
      with o show ?thesis by simp
    qed
  qed
qed

lemma write_all_holds:
  assumes "write_all l off data w = (r, v)" and "env_ok w" and "holds l bs w" and "off = length bs"
  shows "\<exists>n \<le> length data. holds l (bs @ take n data) v \<and> (r = Inr () \<longrightarrow> n = length data)"
  using assms
proof (induction l off data w arbitrary: bs rule: write_all.induct)
  case (1 l off data w)
  show ?case
  proof (cases "data = []")
    case True
    with "1.prems" show ?thesis by (auto simp: write_all.simps)
  next
    case False
    obtain r1 w1 where w1: "write_once l off data w = (r1, w1)" by fastforce
    have h: "case r1 of Inl e \<Rightarrow> holds l bs w1 | Inr n \<Rightarrow> n \<le> length data \<and> holds l (bs @ take n data) w1"
      using write_once_holds[OF w1 "1.prems"(2-4)] .
    show ?thesis
    proof (cases "\<exists>n. r1 = Inr n \<and> n \<noteq> 0")
      case True
      then obtain n where n: "r1 = Inr n" "n \<noteq> 0" by blast
      with False w1 "1.prems"(1) have wa: "write_all l (off + n) (drop n data) w1 = (r, v)"
        by (subst (asm) write_all.simps) simp
      from h n have nl: "n \<le> length data" and hn: "holds l (bs @ take n data) w1" by auto
      have e: "env_ok w1" using only_file_env[OF write_once_outcome(1)[OF w1 "1.prems"(2)] "1.prems"(2)] .
      have "off + n = length (bs @ take n data)" using nl "1.prems"(4) by simp
      from "1.IH"[OF False w1[symmetric] n wa e hn this]
      obtain m where m: "m \<le> length (drop n data)" "holds l ((bs @ take n data) @ take m (drop n data)) v"
        "r = Inr () \<longrightarrow> m = length (drop n data)" by blast
      have "take n data @ take m (drop n data) = take (n + m) data" by (simp add: take_add)
      with m nl show ?thesis by (intro exI[of _ "n + m"]) auto
    next
      case stop: False
      with False w1 "1.prems"(1) have v: "v = w1" and r: "r \<noteq> Inr ()"
        by (subst (asm) write_all.simps, auto split: sum.splits if_splits)+
      from h stop v have "holds l (bs @ take 0 data) v" by (auto split: sum.splits)
      with r show ?thesis by (intro exI[of _ 0]) auto
    qed
  qed
qed

lemma write_all_end_Inr: "write_all l off data w = (Inr (), v) \<Longrightarrow> write_all_end l off data w = off + length data"
proof (induction l off data w rule: write_all.induct)
  case (1 l off data w)
  show ?case
  proof (cases "data = []")
    case False
    obtain n w1 where n: "write_once l off data w = (Inr n, w1)" "n \<noteq> 0" "write_all l (off + n) (drop n data) w1 = (Inr (), v)"
      using "1.prems" False by (subst (asm) write_all.simps) (auto split: sum.splits prod.splits if_splits)
    have "n \<le> length data"
      using n(1) by (auto simp: write_once_def sys_def run_call_def split: list.splits fault.splits)
    with False n "1.IH"[OF False n(1)[symmetric] refl n(2,3)] show ?thesis by (subst write_all_end.simps) simp
  qed (simp add: write_all_end.simps)
qed

section \<open>Reading\<close>

lemma read_at_cases:
  assumes "read_at l off n w = (Inr buf, v)"
  shows "fs v = fs w" and "cwd v = cwd w"
    and "buf = (case files (fs w) l of Some d \<Rightarrow> take n (drop off (fbytes d)) | None \<Rightarrow> [])"
  using assms unfolding read_at_def
  by (cases rule: sys_cases; auto simp: files_def split: option.splits node.splits)+

section \<open>A source and a destination\<close>

text \<open>
  \<open>two_paths a b p q w\<close>: the paths \<open>p\<close> and \<open>q\<close> lead to the different locations \<open>a\<close> and \<open>b\<close>, where
  there are regular files or nothing.
\<close>

definition two_paths :: "loc \<Rightarrow> loc \<Rightarrow> path \<Rightarrow> path \<Rightarrow> world \<Rightarrow> bool" where
  "two_paths a b p q w \<longleftrightarrow>
     env_ok w \<and> plain_end p \<and> plain_end q \<and> a \<noteq> [] \<and> b \<noteq> [] \<and> a \<noteq> b \<and>
     resolve False w p = Inr a \<and> resolve False w q = Inr b \<and>
     skel_of (tget (fs w) a) = SLeaf \<and> skel_of (tget (fs w) b) = SLeaf"

lemma two_paths_frame: "two_paths a b p q w \<Longrightarrow> only_file ls w v \<Longrightarrow> two_paths a b p q v"
  using only_file_env[of ls w v] only_file_resolve[of ls w v] only_file_leaf[of ls w v]
  by (simp add: two_paths_def)

lemma two_pathsD:
  assumes "two_paths a b p q w"
  shows "env_ok w" "a \<noteq> []" "b \<noteq> []" "a \<noteq> b" "resolve_leaf w p = Inr a" "resolve_leaf w q = Inr b"
    "\<not> ends_in_dots p" "\<not> ends_in_dots q"
    "skel_of (tget (fs w) a) = SLeaf" "skel_of (tget (fs w) b) = SLeaf"
    "dir_above (fs w) a" "dir_above (fs w) b"
  using assms resolve_dir_above[of w False]
  by (auto simp: two_paths_def resolve_leaf_plain) (auto simp: plain_end_def)

lemma rename_two:
  assumes "two_paths a b p q w" and "files (fs w) a = Some d" and "rename_path p q w = (r, v)"
  shows "cwd v = cwd w \<and> skel_eq (fs w) (fs v) \<and>
    (r = Inr () \<and> files (fs v) = (files (fs w))(a := None, b \<mapsto> d) \<or>
     (\<exists>e. r = Inl e) \<and> files (fs v) = files (fs w))"
  using assms(3) unfolding rename_path_def
proof (cases rule: sys_cases)
  case (fault e)
  then show ?thesis by simp
next
  case (run t)
  note u = two_pathsD[OF assms(1)]
  note rl = rename_file_locs[OF assms(2) u(2,3,4,12,10)]
  from run u have "rename_locs (fs w) a b = (r, t)"
    by (simp split: if_splits)
  with rl run show ?thesis by (auto intro: skel_eq_sym)
qed

lemma remove_file_only_file:
  assumes "resolve_leaf w p = Inr l" and "env_ok w" and "l \<noteq> []" and "skel_of (tget (fs w) l) = SLeaf"
  shows "only_file {l} w (snd (remove_file p w))"
    and "files (fs (snd (remove_file p w))) l \<in> {None, files (fs w) l}"
    and "faults w = [] \<Longrightarrow> files (fs (snd (remove_file p w))) l = None"
proof -
  obtain r v where r: "remove_file p w = (r, v)" by fastforce
  have leaf: "tget (fs w) l = None \<or> (\<exists>d. tget (fs w) l = Some (File d))"
    using assms(4) by (auto simp: skel_of_cases is_filen_iff)
  have "only_file {l} w v \<and> files (fs v) l \<in> {None, files (fs w) l} \<and>
      (faults w = [] \<longrightarrow> files (fs v) l = None)"
  proof (cases "tget (fs w) l")
    case None
    with assms(1) show ?thesis
      by (cases rule: sys_cases[OF r[unfolded remove_file_def]]) (auto simp: only_file_same files_def)
  next
    case (Some n)
    with leaf obtain d where g: "tget (fs w) l = Some (File d)" by auto
    have del: "files (tdel (fs w) l) = (files (fs w))(l := None)" "skel_eq (tdel (fs w) l) (fs w)"
      using assms(3,4) tget_parent_dir[OF g] by (simp_all add: files_del_file skel_del_file)
    have nf: "faults w = [] \<Longrightarrow> fs v = tdel (fs w) l"
      using assms(1) g r by (auto simp: remove_file_def sys_simps)
    show ?thesis
    proof (cases rule: sys_cases[OF r[unfolded remove_file_def]])
      case (1 e)
      with nf del show ?thesis by (auto simp: only_file_same) (metis fun_upd_same)
    next
      case (2 t)
      with assms(1) g have "fs v = tdel (fs w) l" "cwd v = cwd w" by auto
      with del show ?thesis by (auto simp: only_file_def intro: skel_eq_sym)
    qed
  qed
  then show "only_file {l} w (snd (remove_file p w))"
    "files (fs (snd (remove_file p w))) l \<in> {None, files (fs w) l}"
    "faults w = [] \<Longrightarrow> files (fs (snd (remove_file p w))) l = None"
    using r by simp_all
qed

lemma remove_file_result:
  assumes "resolve_leaf w p = Inr l" and "l \<noteq> []" and "skel_of (tget (fs w) l) = SLeaf"
    and "remove_file p w = (r, v)"
  shows "r = Inr () \<Longrightarrow> files (fs v) = (files (fs w))(l := None)"
    and "r \<noteq> Inr () \<Longrightarrow> files (fs v) = files (fs w)"
proof -
  have leaf: "tget (fs w) l = None \<or> (\<exists>d. tget (fs w) l = Some (File d))"
    using assms(3) by (auto simp: skel_of_cases is_filen_iff)
  have "(r = Inr () \<longrightarrow> files (fs v) = (files (fs w))(l := None)) \<and> (r \<noteq> Inr () \<longrightarrow> files (fs v) = files (fs w))"
  proof (cases rule: sys_cases[OF assms(4)[unfolded remove_file_def]])
    case (1 e)
    then show ?thesis by simp
  next
    case (2 t)
    show ?thesis
    proof (cases "tget (fs w) l")
      case None
      with 2 assms(1) show ?thesis by auto
    next
      case (Some n)
      with leaf obtain d where g: "tget (fs w) l = Some (File d)" by auto
      have "files (tdel (fs w) l) = (files (fs w))(l := None)"
        using assms(2,3) tget_parent_dir[OF g] by (simp add: files_del_file)
      with 2 assms(1) g show ?thesis by auto
    qed
  qed
  then show "r = Inr () \<Longrightarrow> files (fs v) = (files (fs w))(l := None)"
    and "r \<noteq> Inr () \<Longrightarrow> files (fs v) = files (fs w)" by simp_all
qed

end
