(* ===== verification/AutoFs_Laws.thy ===== *)
theory AutoFs_Laws
  imports AutoFs File_Laws
begin

text \<open>
  What each operation of an \<open>AtomicFile\<close> does to the files of the tree, for every fault script:
  writes touch the temporary file only, \<open>commit\<close> either changes nothing or moves the complete
  upload onto the target, \<open>drop\<close> touches the temporary file only.
\<close>

lemma write_chunks_outcome:
  assumes "write_chunks l off hashed cs w = (r, off', hashed', v)" and "env_ok w"
  shows "only_file {l} w v"
  using assms
proof (induction l off hashed cs w rule: write_chunks.induct)
  case (2 l off hashed c cs w)
  show ?case
  proof (cases "c = []")
    case True
    with 2 show ?thesis by simp
  next
    case False
    obtain r1 w1 where w1: "write_once l off c w = (r1, w1)" by fastforce
    have o: "only_file {l} w w1" using write_once_outcome(1)[OF w1 "2.prems"(2)] .
    show ?thesis
    proof (cases "\<exists>n. r1 = Inr n \<and> n \<noteq> 0")
      case True
      then obtain n where n: "r1 = Inr n" "n \<noteq> 0" by blast
      with False w1 "2.prems"(1)
      have "write_chunks l (off + n) (hashed @ take n c) (drop n c # cs) w1 = (r, off', hashed', v)" by simp
      then have "only_file {l} w1 v"
        using "2.IH"(2)[OF False w1[symmetric] n(1) n(2)] only_file_env[OF o "2.prems"(2)] by blast
      with o show ?thesis by (rule only_file_trans)
    next
      case stop: False
      with False w1 "2.prems"(1) have "v = w1" by (auto split: sum.splits if_splits)
      with o show ?thesis by simp
    qed
  qed
qed simp

lemma write_chunks_holds:
  assumes "write_chunks l off hashed cs w = (r, off', hashed', v)" and "env_ok w"
    and "holds l bs w" and "off = length bs"
  shows "\<exists>n \<le> length (concat cs). holds l (bs @ take n (concat cs)) v \<and>
           hashed' = hashed @ take n (concat cs) \<and> off' = off + n \<and>
           (r = Inr () \<longrightarrow> n = length (concat cs))"
  using assms
proof (induction l off hashed cs w arbitrary: bs rule: write_chunks.induct)
  case (2 l off hashed c cs w)
  show ?case
  proof (cases "c = []")
    case True
    with 2 show ?thesis by simp
  next
    case False
    obtain r1 w1 where w1: "write_once l off c w = (r1, w1)" by fastforce
    have h: "case r1 of Inl e \<Rightarrow> holds l bs w1 | Inr n \<Rightarrow> n \<le> length c \<and> holds l (bs @ take n c) w1"
      using write_once_holds[OF w1 "2.prems"(2-4)] .
    show ?thesis
    proof (cases "\<exists>n. r1 = Inr n \<and> n \<noteq> 0")
      case True
      then obtain n where n: "r1 = Inr n" "n \<noteq> 0" by blast
      with False w1 "2.prems"(1)
      have wa: "write_chunks l (off + n) (hashed @ take n c) (drop n c # cs) w1 = (r, off', hashed', v)"
        by simp
      from h n have nl: "n \<le> length c" and hn: "holds l (bs @ take n c) w1" by auto
      have e: "env_ok w1" using only_file_env[OF write_once_outcome(1)[OF w1 "2.prems"(2)] "2.prems"(2)] .
      have "off + n = length (bs @ take n c)" using nl "2.prems"(4) by simp
      from "2.IH"(2)[OF False w1[symmetric] n wa e hn this]
      obtain m where m: "m \<le> length (concat (drop n c # cs))"
        "holds l ((bs @ take n c) @ take m (concat (drop n c # cs))) v"
        "hashed' = (hashed @ take n c) @ take m (concat (drop n c # cs))"
        "off' = off + n + m"
        "r = Inr () \<longrightarrow> m = length (concat (drop n c # cs))" by blast
      have "take n c @ take m (concat (drop n c # cs)) = take (n + m) (concat (c # cs))"
        using nl take_add[of n m "c @ concat cs"] by simp
      with m nl show ?thesis by (intro exI[of _ "n + m"]) auto
    next
      case stop: False
      with False w1 "2.prems"(1) have v: "v = w1" "r \<noteq> Inr ()" "hashed' = hashed" "off' = off"
        by (auto split: sum.splits if_splits)
      from h stop v have "holds l (bs @ take 0 (concat (c # cs))) v" by (auto split: sum.splits)
      with v show ?thesis by (intro exI[of _ 0]) auto
    qed
  qed
qed auto

section \<open>An upload in progress\<close>

text \<open>
  \<open>uploading lt lg a bs w\<close>: the upload \<open>a\<close> has received the bytes \<open>bs\<close>, they are what its
  temporary file at \<open>lt\<close> holds, and its target resolves to \<open>lg\<close>, where there is a regular file
  or nothing.
\<close>

definition upload_paths :: "loc \<Rightarrow> loc \<Rightarrow> atomic_file \<Rightarrow> world \<Rightarrow> bool" where
  "upload_paths lt lg a w \<longleftrightarrow> two_paths lt lg (a_temp a) (a_target a) w"

definition uploading :: "loc \<Rightarrow> loc \<Rightarrow> atomic_file \<Rightarrow> bytes \<Rightarrow> world \<Rightarrow> bool" where
  "uploading lt lg a bs w \<longleftrightarrow>
     upload_paths lt lg a w \<and> \<not> a_committed a \<and> a_file a = Some \<lparr>h_loc = lt, h_off = length bs\<rparr> \<and>
     a_hashed a = bs \<and> a_written a = of_nat (length bs) \<and> holds lt bs w"

lemma upload_paths_frame:
  assumes "upload_paths lt lg a w" and "only_file ls w v" and "a_temp b = a_temp a" and "a_target b = a_target a"
  shows "upload_paths lt lg b v"
  using assms two_paths_frame by (simp add: upload_paths_def)

lemmas upload_pathsD = two_pathsD[OF upload_paths_def[THEN iffD1]]

lemma write_bytes_uploading:
  assumes "uploading lt lg a bs w" and "write_bytes L buf a w = (r, b, v)"
  shows "only_file {lt} w v" and "upload_paths lt lg b v" and "\<not> a_committed b"
    and "r = Inr () \<Longrightarrow> uploading lt lg b (bs @ buf) v"
proof -
  have u: "upload_paths lt lg a w" "env_ok w" "a_file a = Some \<lparr>h_loc = lt, h_off = length bs\<rparr>"
    "holds lt bs w"
    using assms(1) by (auto simp: uploading_def upload_paths_def two_paths_def)
  obtain r1 where wa: "write_all lt (length bs) buf w = (r1, v)"
    and r: "r = (case r1 of Inl e \<Rightarrow> Inl (lib_fs_error L e) | Inr u \<Rightarrow> Inr ())"
    and b: "b = a\<lparr>a_hashed := a_hashed a @ buf,
        a_file := Some \<lparr>h_loc = lt, h_off = write_all_end lt (length bs) buf w\<rparr>,
        a_written := a_written a + of_nat (length buf)\<rparr>"
    using assms(2) u(3) by (auto simp: write_bytes_def split: prod.splits)
  show o: "only_file {lt} w v" using write_all_outcome[OF wa u(2)] .
  show p: "upload_paths lt lg b v" using upload_paths_frame[OF u(1) o] b by simp
  show "\<not> a_committed b" using assms(1) b by (simp add: uploading_def)
  show "uploading lt lg b (bs @ buf) v" if "r = Inr ()"
  proof -
    from that r have "r1 = Inr ()" by (auto split: sum.splits)
    then have "holds lt (bs @ buf) v" "write_all_end lt (length bs) buf w = length bs + length buf"
      using write_all_holds[OF wa u(2,4) refl] write_all_end_Inr wa by auto
    with p assms(1) b show ?thesis by (simp add: uploading_def)
  qed
qed

lemma write_buf_uploading:
  assumes "uploading lt lg a bs w" and "write_buf L cs a w = (r, b, v)"
  shows "only_file {lt} w v" and "upload_paths lt lg b v" and "\<not> a_committed b"
    and "r = Inr () \<Longrightarrow> uploading lt lg b (bs @ concat cs) v"
proof -
  have u: "upload_paths lt lg a w" "env_ok w" "a_file a = Some \<lparr>h_loc = lt, h_off = length bs\<rparr>"
    "holds lt bs w" "a_hashed a = bs"
    using assms(1) by (auto simp: uploading_def upload_paths_def two_paths_def)
  obtain r1 off h where wa: "write_chunks lt (length bs) bs cs w = (r1, off, h, v)"
    and r: "r = (case r1 of Inl e \<Rightarrow> Inl (lib_fs_error L e) | Inr u \<Rightarrow> Inr ())"
    and b: "b = a\<lparr>a_hashed := h, a_file := Some \<lparr>h_loc = lt, h_off = off\<rparr>,
        a_written := a_written a + of_nat (length (concat cs))\<rparr>"
    using assms(2) u(3,5) by (auto simp: write_buf_def split: prod.splits)
  show o: "only_file {lt} w v" using write_chunks_outcome[OF wa u(2)] .
  show p: "upload_paths lt lg b v" using upload_paths_frame[OF u(1) o] b by simp
  show "\<not> a_committed b" using assms(1) b by (simp add: uploading_def)
  show "uploading lt lg b (bs @ concat cs) v" if "r = Inr ()"
  proof -
    from that r have "r1 = Inr ()" by (auto split: sum.splits)
    then have "holds lt (bs @ concat cs) v" "h = bs @ concat cs" "off = length bs + length (concat cs)"
      using write_chunks_holds[OF wa u(2,4) refl] by auto
    with p assms(1) b show ?thesis by (simp add: uploading_def)
  qed
qed

section \<open>Commit and drop\<close>

lemmas rename_upload = rename_two[OF upload_paths_def[THEN iffD1]]

lemma set_xattr_only_file:
  assumes "env_ok w" and "resolve True w p = Inr l"
  shows "only_file {l} w (set_xattr_sha256 p s w)"
    and "\<forall>d. files (fs w) l = Some d \<longrightarrow>
           (\<exists>d'. files (fs (set_xattr_sha256 p s w)) l = Some d' \<and> fbytes d' = fbytes d \<and> fmode d' = fmode d)"
proof -
  let ?v = "set_xattr_sha256 p s w"
  have "only_file {l} w ?v \<and> (files (fs ?v) l = files (fs w) l \<or>
      files (fs ?v) l = map_option (fxattrs_update (AList.update xattr_name s)) (files (fs w) l))"
  proof (cases "CHR 0x00 \<in> set p \<or> CHR 0x00 \<in> set s")
    case True
    then show ?thesis by (simp add: set_xattr_sha256_def)
  next
    case False
    then have v: "?v = snd (set_xattr p xattr_name s w)" by (simp add: set_xattr_sha256_def)
    obtain r where x: "set_xattr p xattr_name s w = (r, ?v)" using v by (metis prod.collapse)
    from x show ?thesis unfolding set_xattr_def
    proof (cases rule: sys_cases)
      case (fault e)
      then show ?thesis by (simp add: only_file_same)
    next
      case (run t)
      show ?thesis
      proof (cases "tget (fs w) l = None")
        case True
        with run assms(2) show ?thesis by (simp add: only_file_same)
      next
        case some: False
        with run assms(2) have "fs ?v = map_file (fxattrs_update (AList.update xattr_name s)) l (fs w)"
          "cwd ?v = cwd w" by auto
        from only_file_map[OF assms(1) this] show ?thesis by simp
      qed
    qed
  qed
  then show "only_file {l} w ?v"
    and "\<forall>d. files (fs w) l = Some d \<longrightarrow>
           (\<exists>d'. files (fs ?v) l = Some d' \<and> fbytes d' = fbytes d \<and> fmode d' = fmode d)"
    by auto
qed

lemma commit_uploading:
  assumes "uploading lt lg a bs w" and "commit L a w = (r, b, v)"
  shows "only_file {lt, lg} w v" and "a_temp b = a_temp a" and "a_target b = a_target a"
    and "a_committed b \<longleftrightarrow> r = Inr () \<and> should_commit a"
    and "\<not> a_committed b \<Longrightarrow> files (fs v) = files (fs w)"
    and "a_committed b \<Longrightarrow> \<not> checksum_mismatch L a \<and> holds lg bs v \<and> files (fs v) lt = None"
    and "a_file b = None \<or> b = a \<and> r \<noteq> Inr ()"
proof -
  have u: "upload_paths lt lg a w" "\<not> a_committed a" "a_file a = Some \<lparr>h_loc = lt, h_off = length bs\<rparr>"
    using assms(1) by (auto simp: uploading_def)
  note up = upload_pathsD[OF u(1)]
  obtain d where d: "files (fs w) lt = Some d" "fbytes d = bs"
    using assms(1) by (auto simp: uploading_def holds_def)
  have "only_file {lt, lg} w v \<and> a_temp b = a_temp a \<and> a_target b = a_target a \<and>
      (a_committed b \<longleftrightarrow> r = Inr () \<and> should_commit a) \<and>
      (\<not> a_committed b \<longrightarrow> files (fs v) = files (fs w)) \<and>
      (a_committed b \<longrightarrow> \<not> checksum_mismatch L a \<and> holds lg bs v \<and> files (fs v) lt = None) \<and>
      (a_file b = None \<or> b = a \<and> r \<noteq> Inr ())"
  proof (cases "checksum_mismatch L a")
    case True
    with assms(2) u(2) show ?thesis by (auto simp: commit_def)
  next
    case ok: False
    obtain rs w0 where w0: "(if a_fsync a then sync_data lt w else (Inr (), w)) = (rs, w0)"
      by fastforce
    have s0: "fs w0 = fs w" "cwd w0 = cwd w"
      using w0 sys_query[of "\<lambda>w. Inr ()" w rs w0] by (auto simp: sync_data_def split: if_splits)
    obtain rc w1 where w1: "commit_io a w = (rc, w1)" by fastforce
    have rcw: "(rc, w1) = (case rs of Inl e \<Rightarrow> (Inl e, w0)
        | Inr u \<Rightarrow> if should_commit a then rename_path (a_temp a) (a_target a) w0 else (Inr (), w0))"
      using w1 w0 u(3) by (cases "a_fsync a") (auto simp: commit_io_def split: sum.splits)
    have u0: "upload_paths lt lg a w0"
      using upload_paths_frame[OF u(1) only_file_same[OF s0]] by simp
    have rn: "cwd w1 = cwd w \<and> skel_eq (fs w) (fs w1) \<and>
        (rc = Inr () \<and> should_commit a \<and> files (fs w1) = (files (fs w))(lt := None, lg \<mapsto> d) \<or>
         (rc = Inr () \<and> \<not> should_commit a \<or> (\<exists>e. rc = Inl e)) \<and> files (fs w1) = files (fs w))"
    proof (cases "\<exists>u. rs = Inr u \<and> should_commit a")
      case True
      with rcw have "rename_path (a_temp a) (a_target a) w0 = (rc, w1)" by auto
      from rename_upload[OF u0 _ this] d(1) s0 True show ?thesis by auto
    next
      case False
      with rcw s0 show ?thesis by (auto split: sum.splits)
    qed
    show ?thesis
    proof (cases rc)
      case (Inl e)
      with assms(2) u(2) ok w1 rn show ?thesis by (auto simp: commit_def only_file_def)
    next
      case (Inr x)
      have o1: "only_file {lt, lg} w w1" using rn by (auto simp: only_file_def)
      show ?thesis
      proof (cases "should_commit a")
        case False
        with Inr assms(2) u(2) ok w1 rn show ?thesis by (auto simp: commit_def only_file_def)
      next
        case True
        with Inr rn have f1: "files (fs w1) = (files (fs w))(lt := None, lg \<mapsto> d)" by simp
        let ?s = "lib_hex_encode L (lib_sha256 L (a_hashed a))"
        have b: "b = a\<lparr>a_file := None, a_committed := True\<rparr>" "r = Inr ()"
          "v = set_xattr_sha256 (a_target a) ?s w1"
          using Inr True assms(2) u(2) ok w1 by (auto simp: commit_def)
        have e1: "env_ok w1" using only_file_env[OF o1 up(1)] .
        have "resolve False w1 (a_target a) = Inr lg"
          using u(1) only_file_resolve[OF o1] by (simp add: upload_paths_def two_paths_def)
        moreover have "tget (fs w1) lg = Some (File d)" using f1 by (simp add: files_Some[symmetric])
        ultimately have rt: "resolve True w1 (a_target a) = Inr lg"
          by (auto intro: resolve_follow)
        note x = set_xattr_only_file[OF e1 rt, of ?s]
        have "files (fs v) lt = None"
          using x(1) b(3) f1 up(4) by (auto simp: only_file_def)
        moreover have "holds lg bs v" using x(2) b(3) f1 d(2) by (auto simp: holds_def)
        moreover have "only_file {lt, lg} w v"
          using o1 only_file_mono[OF x(1)] b(3) by (blast intro: only_file_trans)
        ultimately show ?thesis using b ok True by simp
      qed
    qed
  qed
  then show "only_file {lt, lg} w v" "a_temp b = a_temp a" "a_target b = a_target a"
    "a_committed b \<longleftrightarrow> r = Inr () \<and> should_commit a"
    "\<not> a_committed b \<Longrightarrow> files (fs v) = files (fs w)"
    "a_committed b \<Longrightarrow> \<not> checksum_mismatch L a \<and> holds lg bs v \<and> files (fs v) lt = None"
    "a_file b = None \<or> b = a \<and> r \<noteq> Inr ()"
    by simp_all
qed


end
