(* ===== verification/Samples.thy ===== *)
theory Samples
  imports File_Laws
begin

text \<open>
  A small file system the witnesses are evaluated on: two files with contents, a nested directory,
  a symbolic link to a directory outside, no faults.
\<close>

definition plain_file :: "bytes \<Rightarrow> node" where
  "plain_file bs = File \<lparr>fbytes = bs, fmode = 0x1A4, fxattrs = []\<rparr>"

definition sample_tree :: node where
  "sample_tree = Dir [
     (''src'', Dir [(''a.txt'', plain_file [1, 2, 3]),
                    (''sub'', Dir [(''b.txt'', plain_file [4])])]),
     (''dst'', Dir []),
     (''ext'', Dir [(''keep.txt'', plain_file [7, 7])]),
     (''lnk'', Dir [(''out'', Symlink ''/ext'')])]"

definition sample_world :: world where
  "sample_world = \<lparr>fs = sample_tree, cwd = [], umask = 0x12, faults = []\<rparr>"

lemma sample_env_ok: "env_ok sample_world"
  by code_simp

text \<open>Two paths in it: a source file and a free place.\<close>

lemma sample_two_paths: "two_paths [''src'', ''a.txt''] [''dst'', ''c''] ''/src/a.txt'' ''/dst/c'' sample_world"
  by code_simp

lemma sample_holds: "holds [''src'', ''a.txt''] [1, 2, 3] sample_world"
  by (simp add: holds_def files_def sample_world_def sample_tree_def plain_file_def)

end
