(* ===== verification/Uploads.thy ===== *)
theory Uploads
  imports AutoFs_Laws Samples
begin

text \<open>
  A whole upload: the operations the server makes on the \<open>AtomicFile\<close> of one \<open>PUT\<close>, in any order
  and number, until the first error or the end, then the drop.  \<open>run_upload\<close> lists the worlds a
  reader can see between the operations; the theorems speak of every one of them, for every
  fault script.
\<close>

datatype upload_op = WriteBytes bytes | WriteBuf "bytes list" | Flush | Metadata

fun af_do :: "libs \<Rightarrow> upload_op \<Rightarrow> atomic_file \<Rightarrow> world \<Rightarrow> bool \<times> atomic_file \<times> world" where
  "af_do L (WriteBytes b) a w = (case write_bytes L b a w of (r, a1, w1) \<Rightarrow> (\<not> isl r, a1, w1))"
| "af_do L (WriteBuf cs) a w = (case write_buf L cs a w of (r, a1, w1) \<Rightarrow> (\<not> isl r, a1, w1))"
| "af_do L Flush a w = (case flush L a w of (r, a1, w1) \<Rightarrow> (\<not> isl r, a1, w1))"
| "af_do L Metadata a w = (case af_metadata L a w of (r, a1, w1) \<Rightarrow> (\<not> isl r, a1, w1))"

fun run_upload :: "libs \<Rightarrow> upload_op list \<Rightarrow> atomic_file \<Rightarrow> world \<Rightarrow> world list" where
  "run_upload L [] a w = [af_drop a w]"
| "run_upload L (x # xs) a w =
     (case af_do L x a w of (ok, a1, w1) \<Rightarrow>
        w1 # (if ok then run_upload L xs a1 w1 else [af_drop a1 w1]))"

text \<open>The body of the upload: what is written before the first flush.\<close>

fun upload_data :: "upload_op list \<Rightarrow> bytes" where
  "upload_data [] = []"
| "upload_data (WriteBytes b # xs) = b @ upload_data xs"
| "upload_data (WriteBuf cs # xs) = concat cs @ upload_data xs"
| "upload_data (Flush # xs) = []"
| "upload_data (Metadata # xs) = []"

text \<open>What a committed upload has been checked for.\<close>

definition verified :: "libs \<Rightarrow> u64 option \<Rightarrow> string option \<Rightarrow> bytes \<Rightarrow> bool" where
  "verified L sz ck data \<longleftrightarrow>
     (\<forall>s. sz = Some s \<longrightarrow> of_nat (length data) = s) \<and>
     (\<forall>c e. ck = Some c \<longrightarrow> parse_sha256_checksum L c = Some e \<longrightarrow> lib_sha256 L data = e)"

section \<open>One operation\<close>

lemma should_commit_fields [simp]:
  "should_commit (a\<lparr>a_file := x\<rparr>) = should_commit a"
  "should_commit (a\<lparr>a_committed := c\<rparr>) = should_commit a"
  "should_commit (a\<lparr>a_hashed := h\<rparr>) = should_commit a"
  by (simp_all add: should_commit_def split: option.splits)

lemma af_do_params:
  assumes "af_do L x a w = (ok, b, v)"
  shows "a_expected_size b = a_expected_size a \<and> a_checksum b = a_checksum a \<and>
         a_temp b = a_temp a \<and> a_target b = a_target a \<and> (a_committed a \<longrightarrow> a_committed b)"
  using assms
  by (cases x)
     (auto simp: write_bytes_def write_buf_def flush_def af_metadata_def commit_def Let_def
       split: option.splits prod.splits sum.splits if_splits)

lemma write_ok_uploading:
  assumes "uploading lt lg a bs w" and "af_do L x a w = (ok, b, v)"
    and "x = WriteBytes buf \<or> x = WriteBuf cs \<and> buf = concat cs"
  shows "only_file {lt} w v" and "upload_paths lt lg b v" and "\<not> a_committed b"
    and "ok \<Longrightarrow> uploading lt lg b (bs @ buf) v"
proof -
  have "only_file {lt} w v \<and> upload_paths lt lg b v \<and> \<not> a_committed b \<and> (ok \<longrightarrow> uploading lt lg b (bs @ buf) v)"
    using assms(3)
  proof
    assume "x = WriteBytes buf"
    with assms(2) obtain r where r: "write_bytes L buf a w = (r, b, v)" "ok = (\<not> isl r)"
      by (auto split: prod.splits)
    show ?thesis using write_bytes_uploading[OF assms(1) r(1)] r(2) by (cases r) auto
  next
    assume "x = WriteBuf cs \<and> buf = concat cs"
    with assms(2) obtain r where r: "write_buf L cs a w = (r, b, v)" "ok = (\<not> isl r)"
      by (auto split: prod.splits)
    show ?thesis using write_buf_uploading[OF assms(1) r(1)] r(2) \<open>x = WriteBuf cs \<and> buf = concat cs\<close>
      by (cases r) auto
  qed
  then show "only_file {lt} w v" "upload_paths lt lg b v" "\<not> a_committed b"
    "ok \<Longrightarrow> uploading lt lg b (bs @ buf) v" by simp_all
qed

lemma write_keeps_temp:
  assumes "uploading lt lg a bs w" and "af_do L x a w = (ok, b, v)"
    and "x = WriteBytes buf \<or> x = WriteBuf cs \<and> buf = concat cs"
  shows "files (fs v) lt \<noteq> None"
proof -
  have u: "env_ok w" "a_file a = Some \<lparr>h_loc = lt, h_off = length bs\<rparr>" "holds lt bs w" "a_hashed a = bs"
    using assms(1) by (auto simp: uploading_def upload_paths_def two_paths_def)
  from assms(3) show ?thesis
  proof
    assume "x = WriteBytes buf"
    then obtain r where "write_all lt (length bs) buf w = (r, v)"
      using assms(2) u(2) by (auto simp: write_bytes_def split: prod.splits)
    from write_all_holds[OF this u(1,3) refl] show ?thesis by (auto simp: holds_def)
  next
    assume "x = WriteBuf cs \<and> buf = concat cs"
    then obtain r o' h where "write_chunks lt (length bs) bs cs w = (r, o', h, v)"
      using assms(2) u(2,4) by (auto simp: write_buf_def split: prod.splits)
    from write_chunks_holds[OF this u(1,3) refl] show ?thesis by (auto simp: holds_def)
  qed
qed

text \<open>A finished upload: no handle left, and no commit to come.\<close>

definition closed :: "atomic_file \<Rightarrow> bool" where
  "closed a \<longleftrightarrow> a_file a = None \<and> (a_committed a \<or> \<not> should_commit a)"

lemma metadata_query: "metadata p w = (r, v) \<Longrightarrow> fs v = fs w \<and> cwd v = cwd w"
  using sys_query[of "\<lambda>w. node_at True w p" w r v] by (simp add: metadata_def)

lemma closed_commit:
  assumes "closed a" and "commit L a w = (r, b, v)"
  shows "fs v = fs w \<and> cwd v = cwd w \<and> closed b \<and> a_committed b = a_committed a"
  using assms by (auto simp: closed_def commit_def commit_io_def split: if_splits)

lemma closed_step:
  assumes "closed a" and "af_do L x a w = (ok, b, v)"
  shows "fs v = fs w \<and> cwd v = cwd w \<and> closed b \<and> a_committed b = a_committed a"
proof (cases x)
  case Metadata
  obtain r a1 w1 where c: "commit L a w = (r, a1, w1)" by (metis prod_cases3)
  note cc = closed_commit[OF assms(1) c]
  show ?thesis
  proof (cases r)
    case (Inl e)
    with Metadata assms(2) c cc show ?thesis by (auto simp: af_metadata_def)
  next
    case (Inr u)
    obtain r2 w2 where m: "metadata (if a_committed a1 then a_target a1 else a_temp a1) w1 = (r2, w2)"
      by fastforce
    with Inr Metadata assms(2) c have "b = a1" "v = w2"
      by (auto simp: af_metadata_def split: sum.splits)
    with cc metadata_query[OF m] show ?thesis by simp
  qed
next
  case Flush
  with assms closed_commit[OF assms(1)] show ?thesis by (auto simp: flush_def split: prod.splits)
qed (use assms in \<open>auto simp: closed_def write_bytes_def write_buf_def Let_def\<close>)

lemma commit_step:
  assumes "uploading lt lg a bs w" and "af_do L x a w = (ok, b, v)" and "x = Flush \<or> x = Metadata"
  obtains r w1 where "commit L a w = (r, b, w1)" and "fs v = fs w1" and "cwd v = cwd w1"
    and "ok \<Longrightarrow> r = Inr ()"
proof -
  obtain r a1 w1 where c: "commit L a w = (r, a1, w1)" by (metis prod_cases3)
  have "b = a1 \<and> fs v = fs w1 \<and> cwd v = cwd w1 \<and> (ok \<longrightarrow> r = Inr ())"
  proof (cases "x = Flush \<or> isl r")
    case True
    with assms(2,3) c show ?thesis
      by (cases r) (auto simp: flush_def af_metadata_def split: prod.splits)
  next
    case False
    then obtain u where r: "r = Inr u" by (cases r) auto
    obtain r2 w2 where m: "metadata (if a_committed a1 then a_target a1 else a_temp a1) w1 = (r2, w2)"
      by fastforce
    from False r assms(2,3) c m have "b = a1" "v = w2"
      by (auto simp: af_metadata_def split: sum.splits)
    with metadata_query[OF m] r show ?thesis by simp
  qed
  with c that show thesis by blast
qed

lemma drop_only_file:
  assumes "upload_paths lt lg a w" and "\<not> a_committed a"
  shows "only_file {lt} w (af_drop a w)"
  using remove_file_only_file[of w "a_temp a" lt] upload_pathsD[OF assms(1)] assms(2)
  by (auto simp: af_drop_def)

section \<open>Every world a reader can see\<close>

definition visible :: "libs \<Rightarrow> u64 option \<Rightarrow> string option \<Rightarrow> loc \<Rightarrow> loc \<Rightarrow> bytes \<Rightarrow> world \<Rightarrow> world \<Rightarrow> bool" where
  "visible L sz ck lt lg data w v \<longleftrightarrow>
     only_file {lt, lg} w v \<and>
     (files (fs v) lg = files (fs w) lg \<or> holds lg data v \<and> verified L sz ck data)"

lemma visible_trans:
  "only_file {lt} w v \<Longrightarrow> lt \<noteq> lg \<Longrightarrow> visible L sz ck lt lg data v u \<Longrightarrow> visible L sz ck lt lg data w u"
  by (auto simp: visible_def only_file_def intro: skel_eq_trans)

lemma only_file_visible: "only_file {lt} w v \<Longrightarrow> lt \<noteq> lg \<Longrightarrow> visible L sz ck lt lg data w v"
  by (auto simp: visible_def only_file_def)

lemma closed_run:
  assumes "closed a" and "upload_paths lt lg a w" and "v \<in> set (run_upload L xs a w)"
  shows "only_file {lt} w v" and "a_committed a \<Longrightarrow> files (fs v) = files (fs w)"
proof -
  have "only_file {lt} w v \<and> (a_committed a \<longrightarrow> files (fs v) = files (fs w))"
    using assms
  proof (induction xs arbitrary: a w)
    case Nil
    then show ?case
      using drop_only_file[of lt lg a w] by (cases "a_committed a") (auto simp: af_drop_def)
  next
    case (Cons x xs)
    obtain ok b w1 where d: "af_do L x a w = (ok, b, w1)" by (metis prod_cases3)
    note cs = closed_step[OF Cons.prems(1) d] and ps = af_do_params[OF d]
    have o: "only_file {lt} w w1" using cs by (simp add: only_file_same)
    have p: "upload_paths lt lg b w1" using upload_paths_frame[OF Cons.prems(2) o] ps by simp
    consider "v = w1" | "v \<in> set (run_upload L xs b w1)" | "v = af_drop b w1"
      using Cons.prems(3) d by (auto split: if_splits)
    then show ?case
    proof cases
      case 1
      with o cs show ?thesis by simp
    next
      case 2
      with Cons.IH[of b w1] cs p o show ?thesis by (auto intro: only_file_trans)
    next
      case 3
      with cs p o drop_only_file[OF p] show ?thesis
        by (cases "a_committed b") (auto simp: af_drop_def intro: only_file_trans)
    qed
  qed
  then show "only_file {lt} w v" "a_committed a \<Longrightarrow> files (fs v) = files (fs w)" by simp_all
qed

lemma verified_commit:
  assumes "uploading lt lg a bs w" and "should_commit a" and "\<not> checksum_mismatch L a"
  shows "verified L (a_expected_size a) (a_checksum a) bs"
  using assms
  by (auto simp: verified_def uploading_def should_commit_def checksum_mismatch_def)

lemma commit_visible:
  assumes "uploading lt lg a bs w" and "commit L a w = (r, b, v)" and "lt \<noteq> lg"
  shows "visible L (a_expected_size a) (a_checksum a) lt lg bs w v"
  using commit_uploading[OF assms(1,2)] verified_commit[OF assms(1), of L]
  by (cases "a_committed b") (auto simp: visible_def)

text \<open>After a flush, what is left of the run keeps the target as it is.\<close>

lemma flush_rest_visible:
  assumes "uploading lt lg a bs w" and "af_do L x a w = (ok, b, w1)" and "x = Flush \<or> x = Metadata"
    and "v = w1 \<or> v = af_drop b w1 \<or> ok \<and> v \<in> set (run_upload L xs b w1)"
  shows "visible L (a_expected_size a) (a_checksum a) lt lg bs w v"
proof -
  have ne: "lt \<noteq> lg" using assms(1) by (simp add: uploading_def upload_paths_def two_paths_def)
  obtain r w2 where c: "commit L a w = (r, b, w2)" and f: "fs w1 = fs w2" "cwd w1 = cwd w2"
    and ok: "ok \<Longrightarrow> r = Inr ()"
    using commit_step[OF assms(1-3)] by metis
  note cu = commit_uploading[OF assms(1) c]
  have vis: "visible L (a_expected_size a) (a_checksum a) lt lg bs w w1"
    using commit_visible[OF assms(1) c ne] f by (simp add: visible_def only_file_def holds_def)
  have p: "upload_paths lt lg b w1"
    using upload_paths_frame[of lt lg a w "{lt, lg}" w1 b] assms(1) cu(1-3) f
    by (simp add: uploading_def only_file_def)
  have step: "visible L (a_expected_size a) (a_checksum a) lt lg bs w v"
    if "only_file {lt} w1 v"
    using that vis ne by (auto simp: visible_def only_file_def holds_def intro: skel_eq_trans)
  from assms(4) show ?thesis
  proof (elim disjE conjE)
    assume "v = af_drop b w1"
    then show ?thesis
      using step vis drop_only_file[OF p] by (cases "a_committed b") (auto simp: af_drop_def)
  next
    assume "ok" "v \<in> set (run_upload L xs b w1)"
    moreover have "closed b"
      using c ok[OF \<open>ok\<close>] assms(1)
      by (auto simp: closed_def commit_def uploading_def split: if_splits prod.splits sum.splits)
    ultimately show ?thesis using step closed_run(1) p by blast
  qed (use vis in simp)
qed

text \<open>C1 Whoever looks at any moment of an upload, whatever writes, flushes and metadata calls the server makes
  on the file until the first one that fails, and whatever faults occur, finds at the target what was there before or the complete upload; in the
  latter case it has the announced length and the announced checksum.  No other file than the
  target and the temporary one is touched.\<close>

theorem run_upload_visible:
  assumes "uploading lt lg a bs w" and "v \<in> set (run_upload L xs a w)"
  shows "visible L (a_expected_size a) (a_checksum a) lt lg (bs @ upload_data xs) w v"
  using assms
proof (induction xs arbitrary: a bs w)
  case Nil
  then have "upload_paths lt lg a w" "\<not> a_committed a" "lt \<noteq> lg"
    by (auto simp: uploading_def upload_paths_def two_paths_def)
  with Nil show ?case by (auto intro: only_file_visible drop_only_file)
next
  case (Cons x xs)
  have ne: "lt \<noteq> lg" using Cons.prems(1) by (simp add: uploading_def upload_paths_def two_paths_def)
  obtain ok b w1 where d: "af_do L x a w = (ok, b, w1)" by (metis prod_cases3)
  have v: "v = w1 \<or> v = af_drop b w1 \<or> ok \<and> v \<in> set (run_upload L xs b w1)"
    using Cons.prems(2) d by (auto split: if_splits)
  show ?case
  proof (cases "x = Flush \<or> x = Metadata")
    case True
    then have "upload_data (x # xs) = []" by auto
    with flush_rest_visible[OF Cons.prems(1) d True v] show ?thesis by simp
  next
    case False
    then obtain buf cs where x: "x = WriteBytes buf \<or> x = WriteBuf cs \<and> buf = concat cs"
      by (cases x) auto
    note wr = write_ok_uploading[OF Cons.prems(1) d x]
    have dt: "upload_data (x # xs) = buf @ upload_data xs" using x by auto
    from v show ?thesis
    proof (elim disjE conjE)
      assume "v = w1"
      with wr(1) ne show ?thesis by (simp add: only_file_visible)
    next
      assume "v = af_drop b w1"
      with only_file_trans[OF wr(1) drop_only_file[OF wr(2,3)]] ne
      show ?thesis by (simp add: only_file_visible)
    next
      assume "ok" "v \<in> set (run_upload L xs b w1)"
      then have "visible L (a_expected_size b) (a_checksum b) lt lg ((bs @ buf) @ upload_data xs) w1 v"
        by (intro Cons.IH wr(4))
      with af_do_params[OF d] dt visible_trans[OF wr(1) ne] show ?thesis by simp
    qed
  qed
qed

section \<open>Without faults an upload succeeds\<close>

lemma sys_clean: "faults w = [] \<Longrightarrow> sys f w = (r, v) \<Longrightarrow> faults v = [] \<and> f w = (r, fs v)"
  by (auto simp: sys_simps)

lemma write_all_clean:
  assumes "faults w = []" and "write_all l off data w = (r, v)"
  shows "r = Inr () \<and> faults v = []"
  using assms
proof (induction l off data w rule: write_all.induct)
  case (1 l off data w)
  show ?case
  proof (cases "data = []")
    case True
    with "1.prems" show ?thesis by (simp add: write_all.simps)
  next
    case False
    obtain r1 w1 where w1: "write_once l off data w = (r1, w1)" by fastforce
    then have "r1 = Inr (length data)" "faults w1 = []"
      using "1.prems"(1) by (auto simp: write_once_def sys_simps)
    with False w1 "1.prems"(2) show ?thesis
      by (subst (asm) write_all.simps) (simp add: write_all.simps)
  qed
qed

lemma write_chunks_clean:
  assumes "faults w = []" and "write_chunks l off hashed cs w = (r, off', hashed', v)"
  shows "r = Inr () \<and> faults v = []"
  using assms
proof (induction l off hashed cs w rule: write_chunks.induct)
  case (2 l off hashed c cs w)
  show ?case
  proof (cases "c = []")
    case True
    with 2 show ?thesis by simp
  next
    case False
    obtain r1 w1 where w1: "write_once l off c w = (r1, w1)" by fastforce
    then have r1: "r1 = Inr (length c)" "faults w1 = []"
      using "2.prems"(1) by (auto simp: write_once_def sys_simps)
    have "length c \<noteq> 0" using False by simp
    from "2.IH"(2)[OF False w1[symmetric] r1(1) this r1(2)] False w1 r1 "2.prems"(2)
    show ?thesis by simp
  qed
qed simp

lemma write_ok_clean:
  assumes "uploading lt lg a bs w" and "faults w = []" and "x = WriteBytes buf \<or> x = WriteBuf cs"
    and "af_do L x a w = (ok, b, v)"
  shows "ok \<and> faults v = []"
proof -
  have f: "a_file a = Some \<lparr>h_loc = lt, h_off = length bs\<rparr>" "a_hashed a = bs"
    using assms(1) by (simp_all add: uploading_def)
  from assms(3) show ?thesis
  proof
    assume x: "x = WriteBytes buf"
    obtain r v' where wa: "write_all lt (length bs) buf w = (r, v')" by fastforce
    from write_all_clean[OF assms(2) wa] x assms(4) f wa show ?thesis
      by (auto simp: write_bytes_def)
  next
    assume x: "x = WriteBuf cs"
    obtain r o' h v' where wa: "write_chunks lt (length bs) bs cs w = (r, o', h, v')"
      by (metis prod_cases4)
    from write_chunks_clean[OF assms(2) wa] x assms(4) f wa show ?thesis
      by (auto simp: write_buf_def)
  qed
qed

definition recorded :: "loc \<Rightarrow> string \<Rightarrow> world \<Rightarrow> bool" where
  "recorded l s w \<longleftrightarrow> (\<exists>d. files (fs w) l = Some d \<and> map_of (fxattrs d) xattr_name = Some s)"

lemma commit_clean:
  assumes "uploading lt lg a bs w" and "faults w = []" and "should_commit a" and "\<not> checksum_mismatch L a"
    and "CHR 0x00 \<notin> set (a_target a)" and "CHR 0x00 \<notin> set (lib_hex_encode L (lib_sha256 L bs))"
  shows "\<exists>b v. commit L a w = (Inr (), b, v) \<and> a_committed b \<and>
           recorded lg (lib_hex_encode L (lib_sha256 L bs)) v"
proof -
  let ?s = "lib_hex_encode L (lib_sha256 L bs)"
  have u: "upload_paths lt lg a w" "\<not> a_committed a" "a_file a = Some \<lparr>h_loc = lt, h_off = length bs\<rparr>"
    "a_hashed a = bs"
    using assms(1) by (auto simp: uploading_def)
  note up = upload_pathsD[OF u(1)]
  obtain d where d: "files (fs w) lt = Some d" using assms(1) by (auto simp: uploading_def holds_def)
  note rl = rename_file_locs[OF d up(2,3,4,12,10)]
  let ?t = "tput (tdel (fs w) lt) lg (File d)"
  have c: "commit_io a w = (Inr (), w\<lparr>fs := ?t\<rparr>)"
    using u assms(2,3) up rl(1)
    by (cases "a_fsync a") (simp_all add: commit_io_def rename_path_def sync_data_def sys_simps)
  let ?w1 = "w\<lparr>fs := ?t\<rparr>"
  have o1: "only_file {lt, lg} w ?w1" using rl(2,3) by (auto simp: only_file_def intro: skel_eq_sym)
  have g: "tget ?t lg = Some (File d)" using rl(2) by (simp add: files_Some[symmetric])
  have e1: "env_ok ?w1" using only_file_env[OF o1 up(1)] .
  have "resolve False ?w1 (a_target a) = Inr lg"
    using u(1) only_file_resolve[OF o1] by (simp add: upload_paths_def two_paths_def)
  then have rt: "resolve True ?w1 (a_target a) = Inr lg" using g by (intro resolve_follow) auto
  have "fs (set_xattr_sha256 (a_target a) ?s ?w1) = map_file (fxattrs_update (AList.update xattr_name ?s)) lg ?t"
    using assms(2,5,6) rt g by (simp add: set_xattr_sha256_def set_xattr_def sys_simps)
  then have "files (fs (set_xattr_sha256 (a_target a) ?s ?w1)) lg = Some (fxattrs_update (AList.update xattr_name ?s) d)"
    using map_file_files(1)[OF e1 refl, of "fxattrs_update (AList.update xattr_name ?s)" lg] rl(2) by simp
  then have "recorded lg ?s (set_xattr_sha256 (a_target a) ?s ?w1)"
    by (simp add: recorded_def update_conv')
  with c u assms(3,4) show ?thesis by (auto simp: commit_def)
qed

lemma uploading_verified:
  assumes "uploading lt lg a bs w" and "verified L (a_expected_size a) (a_checksum a) bs"
  shows "should_commit a" and "\<not> checksum_mismatch L a"
  using assms
  by (auto simp: verified_def uploading_def should_commit_def checksum_mismatch_def split: option.splits)

fun is_write :: "upload_op \<Rightarrow> bool" where
  "is_write (WriteBytes b) = True"
| "is_write (WriteBuf cs) = True"
| "is_write _ = False"

text \<open>C16 Without faults, an upload whose data has the announced length and checksum ends, after its flush,
  with exactly its data at the target, no temporary file, and its SHA-256 recorded as an
  extended attribute.\<close>

theorem run_upload_succeeds:
  assumes "uploading lt lg a bs w" and "faults w = []" and "\<forall>x \<in> set xs. is_write x"
    and "verified L (a_expected_size a) (a_checksum a) (bs @ upload_data xs)"
    and "CHR 0x00 \<notin> set (a_target a)"
    and "CHR 0x00 \<notin> set (lib_hex_encode L (lib_sha256 L (bs @ upload_data xs)))"
  shows "let v = last (run_upload L (xs @ [Flush]) a w)
         in holds lg (bs @ upload_data xs) v \<and> files (fs v) lt = None \<and>
            recorded lg (lib_hex_encode L (lib_sha256 L (bs @ upload_data xs))) v"
  using assms
proof (induction xs arbitrary: a bs w)
  case Nil
  have v: "verified L (a_expected_size a) (a_checksum a) bs" using Nil by simp
  obtain b v where c: "commit L a w = (Inr (), b, v)" "a_committed b"
      "recorded lg (lib_hex_encode L (lib_sha256 L bs)) v"
    using commit_clean[OF Nil(1,2) uploading_verified[OF Nil(1) v] Nil(5)] Nil(6) by auto
  with commit_uploading(6)[OF Nil(1) c(1,2)] show ?case
    by (simp add: flush_def af_drop_def)
next
  case (Cons x xs)
  then obtain buf cs where x: "x = WriteBytes buf \<or> x = WriteBuf cs \<and> buf = concat cs"
    by (cases x) auto
  obtain ok b v where d: "af_do L x a w = (ok, b, v)" by (metis prod_cases3)
  have ok: "ok" "faults v = []"
    using write_ok_clean[OF Cons.prems(1,2) _ d] x by auto
  have up: "uploading lt lg b (bs @ buf) v" using write_ok_uploading(4)[OF Cons.prems(1) d x ok(1)] .
  have dt: "upload_data (x # xs) = buf @ upload_data xs" using x by auto
  have "run_upload L (xs @ [Flush]) b v \<noteq> []"
    by (cases "xs @ [Flush]") (auto split: prod.splits)
  with Cons.IH[OF up ok(2)] Cons.prems dt af_do_params[OF d] d ok(1) show ?case by simp
qed

text \<open>The world in which the upload is dropped: the last one before the end of the run.\<close>

definition at_drop :: "world \<Rightarrow> world list \<Rightarrow> world" where
  "at_drop w ws = last (w # butlast ws)"

fun fails_next :: "fault list \<Rightarrow> bool" where
  "fails_next (Fail e # fl) = True"
| "fails_next fl = False"

lemma run_upload_not_Nil [simp]: "run_upload L xs a w \<noteq> []"
  by (cases xs) (auto split: prod.splits)

lemma at_drop_Cons: "ws \<noteq> [] \<Longrightarrow> at_drop w (v # ws) = at_drop v ws"
  by (simp add: at_drop_def)

lemma at_drop_single [simp]: "at_drop w [v] = w"
  by (simp add: at_drop_def)

text \<open>
  How a run ends that started at \<open>w\<close>: the temporary file is gone, or the removal at the drop was
  made to fail and the target is as it was.
\<close>

definition dropped :: "loc \<Rightarrow> loc \<Rightarrow> world \<Rightarrow> world list \<Rightarrow> bool" where
  "dropped lt lg w ws \<longleftrightarrow>
     files (fs (last ws)) lt = None \<or>
     fails_next (faults (at_drop w ws)) \<and> files (fs (last ws)) lg = files (fs w) lg"

lemma dropped_step:
  assumes "dropped lt lg v ws" and "ws \<noteq> []" and "files (fs v) lg = files (fs w) lg"
  shows "dropped lt lg w (v # ws)"
  using assms by (simp add: dropped_def at_drop_Cons)

lemma sys_runs:
  "\<not> fails_next (faults w) \<Longrightarrow> sys f w = run_call f (w\<lparr>faults := tl (faults w)\<rparr>)"
  by (cases w; cases "faults w" rule: fails_next.cases) (simp_all add: sys_def)

lemma drop_removes:
  assumes "upload_paths lt lg a w" and "\<not> a_committed a"
  shows "dropped lt lg w [af_drop a w]"
proof -
  note up = upload_pathsD[OF assms(1)]
  obtain r where r: "remove_file (a_temp a) w = (r, af_drop a w)"
    using assms(2) by (cases "remove_file (a_temp a) w") (auto simp: af_drop_def)
  show ?thesis
  proof (cases "fails_next (faults w)")
    case True
    then obtain e fl where "faults w = Fail e # fl" by (cases "faults w" rule: fails_next.cases) auto
    then have "fs (snd (remove_file (a_temp a) w)) = fs w" by (simp add: remove_file_def sys_def)
    with r have "fs (af_drop a w) = fs w" by simp
    with True show ?thesis by (simp add: dropped_def)
  next
    case False
    have "tget (fs w) lt = None \<or> (\<exists>d. tget (fs w) lt = Some (File d))"
      using up(9) by (auto simp: skel_of_cases is_filen_iff)
    then have "files (fs (snd (remove_file (a_temp a) w))) lt = None"
      using up(2,5)
      by (auto simp: remove_file_def sys_runs[OF False] run_call_simps files_def nt.get_del_same)
    with r show ?thesis by (simp add: dropped_def)
  qed
qed

lemma drop_of_either:
  assumes "upload_paths lt lg a w" and "a_committed a \<longrightarrow> files (fs w) lt = None"
  shows "dropped lt lg w [af_drop a w]"
  using assms drop_removes by (cases "a_committed a") (auto simp: af_drop_def dropped_def)

lemma closed_run_no_temp:
  assumes "closed a" and "upload_paths lt lg a w" and "a_committed a \<longrightarrow> files (fs w) lt = None"
  shows "dropped lt lg w (run_upload L xs a w)"
  using assms
proof (induction xs arbitrary: a w)
  case Nil
  then show ?case using drop_of_either by simp
next
  case (Cons x xs)
  obtain ok b v where d: "af_do L x a w = (ok, b, v)" by (metis prod_cases3)
  note cs = closed_step[OF Cons.prems(1) d] and ps = af_do_params[OF d]
  have p: "upload_paths lt lg b v"
    using upload_paths_frame[OF Cons.prems(2) only_file_same] cs ps by simp
  have n: "a_committed b \<longrightarrow> files (fs v) lt = None" using cs Cons.prems(3) by simp
  show ?case
    using Cons.IH[OF _ p n] drop_of_either[OF p n] cs d
    by (auto intro!: dropped_step)
qed

text \<open>After a flush: a commit has taken the temporary file away, anything else has left the target alone.\<close>

lemma flush_rest_dropped:
  assumes "uploading lt lg a bs w" and "af_do L x a w = (ok, b, v)" and "x = Flush \<or> x = Metadata"
  shows "dropped lt lg w (v # (if ok then run_upload L xs b v else [af_drop b v]))"
proof -
  let ?rest = "if ok then run_upload L xs b v else [af_drop b v]"
  obtain r w2 where c: "commit L a w = (r, b, w2)" and e: "fs v = fs w2" "cwd v = cwd w2"
    and ok: "ok \<Longrightarrow> r = Inr ()"
    using commit_step[OF assms] by metis
  note cu = commit_uploading[OF assms(1) c]
  have p: "upload_paths lt lg b v"
    using upload_paths_frame[of lt lg a w "{lt, lg}" v b] assms(1) cu(1-3) e
    by (simp add: uploading_def only_file_def)
  have n: "a_committed b \<longrightarrow> files (fs v) lt = None" using cu(6) e by simp
  have cl: "closed b" if ok
    using that c ok assms(1)
    by (auto simp: closed_def commit_def uploading_def split: if_splits prod.splits sum.splits)
  have rest: "dropped lt lg v ?rest"
    using closed_run_no_temp[OF cl p n] drop_of_either[OF p n] by simp
  show ?thesis
  proof (cases "a_committed b")
    case False
    then have "files (fs v) lg = files (fs w) lg" using cu(5) e by simp
    with rest show ?thesis by (intro dropped_step) simp_all
  next
    case True
    have "files (fs (last ?rest)) lt = None"
      using closed_run(2)[OF cl p last_in_set[OF run_upload_not_Nil] True] n True
      by (simp add: af_drop_def)
    then show ?thesis by (simp add: dropped_def)
  qed
qed

text \<open>C19 However an upload ends, committed, refused by a failed write, check or rename, or abandoned after
  any number of operations, and whatever faults occur on the way, its temporary file is gone at the
  end; the one exception is that the call that removes it at the drop is itself made to fail, and
  then the target is what it was before the upload.\<close>

theorem run_upload_no_temp:
  assumes "uploading lt lg a bs w" and "ws = run_upload L xs a w"
  shows "files (fs (last ws)) lt = None \<or>
    fails_next (faults (at_drop w ws)) \<and> files (fs (last ws)) lg = files (fs w) lg"
proof -
  have "dropped lt lg w (run_upload L xs a w)"
    using assms(1)
  proof (induction xs arbitrary: a bs w)
    case Nil
    then have "upload_paths lt lg a w" "\<not> a_committed a" by (auto simp: uploading_def)
    with drop_removes show ?case by simp
  next
    case (Cons x xs)
    obtain ok b v where d: "af_do L x a w = (ok, b, v)" by (metis prod_cases3)
    have ne: "lt \<noteq> lg" using Cons.prems by (simp add: uploading_def upload_paths_def two_paths_def)
    show ?case
    proof (cases "x = Flush \<or> x = Metadata")
      case False
      then obtain buf cs where x: "x = WriteBytes buf \<or> x = WriteBuf cs \<and> buf = concat cs"
        by (cases x) auto
      note wr = write_ok_uploading[OF Cons.prems d x]
      have "files (fs v) lg = files (fs w) lg" using wr(1) ne by (auto simp: only_file_def)
      then show ?thesis
        using Cons.IH[OF wr(4)] drop_removes[OF wr(2,3)] d by (auto intro!: dropped_step)
    next
      case True
      then show ?thesis using flush_rest_dropped[OF Cons.prems d] d by simp
    qed
  qed
  then show ?thesis by (simp add: assms(2) dropped_def)
qed

section \<open>A concrete upload\<close>

definition sample_libs :: libs where
  "sample_libs = \<lparr>lib_sha256 = (\<lambda>b. rev b), lib_hex_encode = bytes_str, lib_hex_decode = (\<lambda>s. Some (str_bytes s)),
     lib_base64_decode = (\<lambda>s. None), lib_fs_error = (\<lambda>e. GeneralFailure)\<rparr>"

definition sample_upload_world :: world where
  "sample_upload_world = sample_world\<lparr>fs := tput sample_tree [''dst'', temp_name ''c'' 0] (plain_file [])\<rparr>"

definition sample_upload :: atomic_file where
  "sample_upload = atomic_new (path_join ''/dst'' (temp_name ''c'' 0)) ''/dst/c'' (Some 3) (Some ''SHA256:cba'')
     [''dst'', temp_name ''c'' 0] False"

definition sample_data :: bytes where
  "sample_data = str_bytes ''abc''"

lemma sample_uploading: "uploading [''dst'', temp_name ''c'' 0] [''dst'', ''c''] sample_upload [] sample_upload_world"
proof -
  have "upload_paths [''dst'', temp_name ''c'' 0] [''dst'', ''c''] sample_upload sample_upload_world" by code_simp
  moreover have "holds [''dst'', temp_name ''c'' 0] [] sample_upload_world"
    by (simp add: holds_def files_def sample_upload_world_def sample_tree_def plain_file_def update_conv')
  ultimately show ?thesis by (simp add: uploading_def sample_upload_def atomic_new_def)
qed

lemma sample_verified: "verified sample_libs (Some 3) (Some ''SHA256:cba'') sample_data"
proof -
  have "parse_sha256_checksum sample_libs ''SHA256:cba'' = Some (rev sample_data)" by code_simp
  then show ?thesis by (simp add: verified_def sample_data_def sample_libs_def str_bytes_def)
qed

lemma run_upload_visible_witness:
  "list_all (visible sample_libs (Some 3) (Some ''SHA256:cba'') [''dst'', temp_name ''c'' 0] [''dst'', ''c'']
       sample_data sample_upload_world)
     (run_upload sample_libs [WriteBuf [sample_data], Flush] sample_upload sample_upload_world)"
  using run_upload_visible[OF sample_uploading, of _ sample_libs "[WriteBuf [sample_data], Flush]"]
  by (simp add: sample_upload_def atomic_new_def list_all_iff del: run_upload.simps)

lemma run_upload_succeeds_witness:
  "holds [''dst'', ''c''] sample_data
     (last (run_upload sample_libs ([WriteBuf [sample_data]] @ [Flush]) sample_upload sample_upload_world))"
proof -
  have "let v = last (run_upload sample_libs ([WriteBuf [sample_data]] @ [Flush]) sample_upload sample_upload_world)
     in holds [''dst'', ''c''] ([] @ upload_data [WriteBuf [sample_data]]) v \<and>
        files (fs v) [''dst'', temp_name ''c'' 0] = None \<and>
        recorded [''dst'', ''c''] (lib_hex_encode sample_libs (lib_sha256 sample_libs ([] @ upload_data [WriteBuf [sample_data]]))) v"
  proof (rule run_upload_succeeds[OF sample_uploading])
    show "faults sample_upload_world = []" by (simp add: sample_upload_world_def sample_world_def)
    show "\<forall>x \<in> set [WriteBuf [sample_data]]. is_write x" by simp
    show "verified sample_libs (a_expected_size sample_upload) (a_checksum sample_upload)
        ([] @ upload_data [WriteBuf [sample_data]])"
      using sample_verified by (simp add: sample_upload_def atomic_new_def)
    show "CHR 0x00 \<notin> set (a_target sample_upload)" by (simp add: sample_upload_def atomic_new_def)
    show "CHR 0x00 \<notin> set (lib_hex_encode sample_libs (lib_sha256 sample_libs ([] @ upload_data [WriteBuf [sample_data]])))"
      by code_simp
  qed
  then show ?thesis by (simp add: Let_def del: run_upload.simps)
qed

text \<open>An abandoned upload whose write failed, with a script of faults that lets the removal run.\<close>

lemma sample_uploading_faults:
  "uploading [''dst'', temp_name ''c'' 0] [''dst'', ''c''] sample_upload [] (sample_upload_world\<lparr>faults := fl\<rparr>)"
proof -
  have "only_file {} sample_upload_world (sample_upload_world\<lparr>faults := fl\<rparr>)" by (simp add: only_file_same)
  from upload_paths_frame[OF _ this refl refl] sample_uploading show ?thesis by (simp add: uploading_def holds_def)
qed

lemma run_upload_no_temp_witness:
  "files (fs (last (run_upload sample_libs [WriteBytes [1]] sample_upload (sample_upload_world\<lparr>faults := [Fail ENOSPC]\<rparr>))))
     [''dst'', temp_name ''c'' 0] = None"
proof -
  let ?w = "sample_upload_world\<lparr>faults := [Fail ENOSPC]\<rparr>"
  have "\<not> fails_next (faults (at_drop ?w (run_upload sample_libs [WriteBytes [1]] sample_upload ?w)))"
    by code_simp
  then show ?thesis using run_upload_no_temp[OF sample_uploading_faults refl] by blast
qed

end
