(* ===== verification/Name_Laws.thy ===== *)
theory Name_Laws
  imports File_Laws
begin

text \<open>
  Paths made by joining a name to a directory's path: where they lead when the directory's path
  leads somewhere, and that two names joined to one path lead to neighbours.
\<close>

section \<open>Two names in one directory\<close>

definition base_segs :: "path \<Rightarrow> string list" where
  "base_segs p = filter (\<lambda>s. s \<noteq> []) (split_on slash p)"

lemma plain_last: "plain_name n \<Longrightarrow> last n \<noteq> slash"
  by (metis last_in_set plain_name_def)

lemma join_cases: "path_join d n = d @ n \<and> (d = [] \<or> last d = slash) \<or>
    path_join d n = d @ slash # n \<and> d \<noteq> []"
  if "plain_name n"
  using that plain_name_not_abs by (auto simp: path_join_def)

lemma base_segs_join: "plain_name n \<Longrightarrow> base_segs (path_join d n) = base_segs d @ [n]"
proof -
  assume n: "plain_name n"
  then have sn: "split_on slash n = [n]" "n \<noteq> []" by (auto simp: plain_name_def)
  from join_cases[OF n, of d] show ?thesis
  proof
    assume a: "path_join d n = d @ n \<and> (d = [] \<or> last d = slash)"
    show ?thesis
    proof (cases "d = []")
      case True
      with a sn show ?thesis by (simp add: base_segs_def)
    next
      case False
      with a obtain d' where "d = d' @ [slash]" by (metis last_slash_snoc)
      with a sn show ?thesis
        by (simp add: base_segs_def split_on_append split_on_append[of _ _ "[]"])
    qed
  qed (use sn in \<open>simp add: base_segs_def split_on_append\<close>)
qed

lemma segs_join: "plain_name n \<Longrightarrow> segs (path_join d n) = base_segs d @ [n]"
proof -
  assume n: "plain_name n"
  then have ne: "n \<noteq> []" by (simp add: plain_name_def)
  have "last (path_join d n) = last n" using join_cases[OF n, of d] ne by auto
  then show ?thesis
    using base_segs_join[OF n, of d] plain_last[OF n] by (simp add: segs_def base_segs_def)
qed

lemma is_abs_join: "plain_name n \<Longrightarrow> is_abs (path_join d n) = is_abs d"
proof -
  assume n: "plain_name n"
  from join_cases[OF n, of d] plain_name_not_abs[OF n] show ?thesis
    by (elim disjE conjE) (simp_all add: is_abs_append, simp_all add: is_abs_def)
qed

lemma plain_end_join: "plain_name n \<Longrightarrow> plain_end (path_join d n)"
proof -
  assume n: "plain_name n"
  then have ne: "n \<noteq> []" by (simp add: plain_name_def)
  have "last (path_join d n) = last n" "path_join d n \<noteq> []"
    using join_cases[OF n, of d] ne by auto
  moreover have "\<not> ends_in_dots (path_join d n)"
    using base_segs_join[OF n, of d] n by (simp add: ends_in_dots_def base_segs_def[symmetric] plain_name_def)
  ultimately show ?thesis using plain_last[OF n] by (simp add: plain_end_def)
qed

lemma walk_last:
  "walk k t cur ts False = Inr l \<Longrightarrow> ts = ss @ [s] \<Longrightarrow> plain_name s \<Longrightarrow> plain_name s' \<Longrightarrow>
   \<exists>c. l = c @ [s] \<and> walk k t cur (ss @ [s']) False = Inr (c @ [s'])"
proof (induction k t cur ts False arbitrary: ss rule: walk.induct)
  case (2 k t cur x rest)
  from "2.prems"(1) obtain es where es: "tget t cur = Some (Dir es)"
    by (auto split: option.splits node.splits)
  show ?case
  proof (cases ss)
    case Nil
    with "2.prems" es show ?thesis
      by (auto simp: plain_name_def split: option.splits node.splits)
  next
    case (Cons y ys)
    with "2.prems"(2) have xy: "x = y" "rest = ys @ [s]" by auto
    show ?thesis
    proof (cases "x = ''.'' \<or> x = ''..'' \<or> map_of es x = None")
      case True
      with 2 es Cons xy show ?thesis by (auto split: if_splits)
    next
      case False
      then obtain n where n: "map_of es x = Some n" by auto
      show ?thesis
      proof (cases n)
        case (Symlink q)
        with "2.prems" False es Cons xy n obtain k' where k: "k = Suc k'"
          and wk: "walk k' t (if is_abs q then [] else cur) (segs q @ rest) False = Inr l"
          by (cases k) auto
        have "\<not> (rest = [] \<and> \<not> False)" using xy by simp
        from "2.hyps"(4)[OF es refl _ _ n Symlink this k wk, of "segs q @ ys"] False xy "2.prems"(3,4)
        show ?thesis using es n Symlink k Cons by auto
      qed (use 2 False es Cons xy n in auto)
    qed
  qed
qed auto

lemma same_directory:
  assumes "resolve False w (path_join d n) = Inr l" and "plain_name n" and "plain_name m"
  shows "\<exists>c. l = c @ [n] \<and> resolve False w (path_join d m) = Inr (c @ [m])"
proof -
  have ne: "path_join d n \<noteq> []" "path_join d m \<noteq> []"
    using plain_end_join[OF assms(2)] plain_end_join[OF assms(3)] by (simp_all add: plain_end_def)
  then show ?thesis
    using assms walk_last[of max_links "fs w" "if is_abs d then [] else cwd w" "base_segs d @ [n]" l "base_segs d" n m]
    by (simp add: resolve_def segs_join is_abs_join)
qed

section \<open>A name in a known directory\<close>

text \<open>
  Walking on from where a path leads: one more name is looked up in the directory there.  A link
  at the end of the first path is followed, as \<open>True\<close> asks.
\<close>

lemma walk_enter:
  "walk k t cur ss True = Inr l \<Longrightarrow> tget t l = Some (Dir es) \<Longrightarrow> plain_name s \<Longrightarrow>
   (\<forall>x. tget t (l @ [s]) = Some (Symlink x) \<longrightarrow> \<not> f) \<Longrightarrow>
   walk k t cur (ss @ [s]) f = Inr (l @ [s])"
proof (induction k t cur ss True rule: walk.induct)
  case (1 k t cur)
  then show ?case
    by (auto simp: plain_name_def map_of_tget split: option.splits node.splits)
next
  case (2 k t cur x rest)
  from "2.prems"(1) obtain ec where es: "tget t cur = Some (Dir ec)"
    by (auto split: option.splits node.splits)
  show ?case
  proof (cases "x = ''.'' \<or> x = ''..''")
    case True
    with 2 es show ?thesis by (auto split: if_splits)
  next
    case False
    show ?thesis
    proof (cases "map_of ec x")
      case None
      with "2.prems"(1,2) False es show ?thesis
        by (auto simp: map_of_tget split: if_splits)
    next
      case (Some n)
      show ?thesis
      proof (cases n)
        case (Symlink q)
        with "2.prems"(1) False es Some obtain k' where k: "k = Suc k'"
          and wk: "walk k' t (if is_abs q then [] else cur) (segs q @ rest) True = Inr l"
          by (cases k) auto
        have "\<not> (rest = [] \<and> \<not> True)" by simp
        from "2.hyps"(4)[OF es refl _ _ Some Symlink this k wk "2.prems"(2-4)] False
        show ?thesis using es Some Symlink k by auto
      qed (use 2 False es Some in auto)
    qed
  qed
qed

lemma walk_dot: "walk k t cur (ss @ [''.'']) True = Inr l \<Longrightarrow> walk k t cur ss True = Inr l"
proof (induction k t cur ss True rule: walk.induct)
  case (1 k t cur)
  then show ?case by (auto split: option.splits node.splits)
next
  case (2 k t cur x rest)
  from "2.prems" obtain ec where es: "tget t cur = Some (Dir ec)"
    by (auto split: option.splits node.splits)
  show ?case
  proof (cases "x = ''.'' \<or> x = ''..''")
    case True
    with 2 es show ?thesis by (auto split: if_splits)
  next
    case False
    show ?thesis
    proof (cases "map_of ec x")
      case None
      with "2.prems" False es show ?thesis by auto
    next
      case (Some n)
      show ?thesis
      proof (cases n)
        case (Symlink q)
        with "2.prems" False es Some obtain k' where k: "k = Suc k'"
          and wk: "walk k' t (if is_abs q then [] else cur) ((segs q @ rest) @ [''.'']) True = Inr l"
          by (cases k) auto
        have "\<not> (rest = [] \<and> \<not> True)" by simp
        from "2.hyps"(4)[OF es refl _ _ Some Symlink this k wk] False
        show ?thesis using es Some Symlink k by auto
      qed (use 2 False es Some in auto)
    qed
  qed
qed

lemma resolve_base:
  assumes "resolve True w p = Inr l"
  shows "walk max_links (fs w) (if is_abs p then [] else cwd w) (base_segs p) True = Inr l"
proof -
  have "walk max_links (fs w) (if is_abs p then [] else cwd w) (segs p) True = Inr l"
    using assms by (simp add: resolve_def split: if_splits)
  then show ?thesis
    by (auto simp: segs_def base_segs_def[symmetric] split: if_splits intro: walk_dot)
qed

lemma resolve_name:
  assumes "resolve True w p = Inr l" and "tget (fs w) l = Some (Dir es)" and "plain_name n"
    and "\<And>x. tget (fs w) (l @ [n]) = Some (Symlink x) \<Longrightarrow> \<not> f"
  shows "resolve f w (path_join p n) = Inr (l @ [n])"
proof -
  have "path_join p n \<noteq> []" using plain_end_join[OF assms(3), of p] by (simp add: plain_end_def)
  moreover have "walk max_links (fs w) (if is_abs p then [] else cwd w) (base_segs p @ [n]) f = Inr (l @ [n])"
    using walk_enter[OF resolve_base[OF assms(1)] assms(2,3), of f] assms(4) by blast
  ultimately show ?thesis using assms(3) by (simp add: resolve_def segs_join is_abs_join)
qed

end
