(* ===== verification/Upload_Start.thy ===== *)
theory Upload_Start
  imports Uploads Name_Laws
begin

text \<open>
  How an upload starts: \<open>create_temp\<close> takes a name nobody has, in the directory of the target,
  and \<open>open\<close> leaves the world in a state from which the theorems on \<open>run_upload\<close> apply.
\<close>

section \<open>The temporary name\<close>

lemma temp_name_plain: "plain_name name \<Longrightarrow> plain_name (temp_name name i)"
  using show_nat_plain[of i]
  by (auto simp: plain_name_def temp_name_def temp_suffix_def append_eq_Cons_conv)

lemma temp_name_neq [simp]: "temp_name name i \<noteq> name"
  by (simp add: temp_name_def temp_suffix_def)

lemma temp_name_inj: "temp_name n i = temp_name n j \<Longrightarrow> i = j"
  by (auto simp: temp_name_def temp_suffix_def split: if_splits)

lemma temp_name_injective: "inj (temp_name n)"
  by (auto simp: inj_def dest: temp_name_inj)

section \<open>Taking a temporary name\<close>

lemma file_create_new_outcome:
  assumes "file_create_new p m w = (r, v)" and "env_ok w"
  shows "case r of
      Inl e \<Rightarrow> fs v = fs w \<and> cwd v = cwd w
    | Inr l \<Rightarrow> resolve False w p = Inr l \<and> l \<noteq> [] \<and> tget (fs w) l = None \<and> only_file {l} w v \<and> holds l [] v"
  using assms(1) unfolding file_create_new_def
proof (cases rule: sys_cases)
  case (fault e)
  then show ?thesis by simp
next
  case (run t)
  show ?thesis
  proof (cases "resolve False w p")
    case (Inl e)
    with run show ?thesis by auto
  next
    case (Inr l)
    show ?thesis
    proof (cases "tget (fs w) l = None")
      case False
      with run Inr show ?thesis by auto
    next
      case True
      then have l: "l \<noteq> []" "skel_of (tget (fs w) l) = SLeaf" by (auto simp: skel_of_def)
      have d: "dir_above (fs w) l" using resolve_dir_above[OF assms(2) Inr] .
      from run Inr True have r: "r = Inr l" and v: "cwd v = cwd w"
        and t: "fs v = tput (fs w) l (File (new_file (mask_mode w m)))"
        by (auto simp: mask_mode_def)
      from l d t v have "only_file {l} w v" "holds l [] v"
        by (auto simp: only_file_def holds_def files_put_file new_file_def skel_put_file intro: skel_eq_sym)
      with r Inr True l show ?thesis by simp
    qed
  qed
qed

lemma try_temps_outcome:
  assumes "try_temps L is dir name w = (r, v)" and "env_ok w"
  shows "case r of
      Inl e \<Rightarrow> fs v = fs w \<and> cwd v = cwd w
    | Inr (temp, l) \<Rightarrow>
        (\<exists>i \<in> set is. temp = path_join dir (temp_name name i)) \<and> resolve False w temp = Inr l \<and>
        l \<noteq> [] \<and> tget (fs w) l = None \<and> only_file {l} w v \<and> holds l [] v"
  using assms
proof (induction L "is" dir name w arbitrary: r v rule: try_temps.induct)
  case (2 L i "is" dir name w)
  let ?p = "path_join dir (temp_name name i)"
  obtain r1 w1 where w1: "file_create_new ?p 0x1A4 w = (r1, w1)" by fastforce
  note o = file_create_new_outcome[OF w1 "2.prems"(2)]
  show ?case
  proof (cases r1)
    case (Inr f)
    with w1 o "2.prems"(1) show ?thesis by auto
  next
    case (Inl e)
    with o have s: "fs w1 = fs w" "cwd w1 = cwd w" by auto
    show ?thesis
    proof (cases "kind_of e = AlreadyExists")
      case False
      with Inl w1 s "2.prems"(1) show ?thesis by auto
    next
      case True
      with Inl w1 "2.prems"(1) have t: "try_temps L is dir name w1 = (r, v)" by simp
      have e1: "env_ok w1" using s "2.prems"(2) by (simp add: env_ok_def)
      have rs: "resolve False w1 p = resolve False w p" for p using s by (simp add: resolve_def)
      from "2.IH"[OF refl w1[symmetric] Inl True t e1] s rs show ?thesis
        by (auto simp: only_file_def split: sum.splits prod.splits)
    qed
  qed
qed simp

text \<open>Without faults the loop gives up only when all its names are taken.\<close>

lemma try_temps_exhausted:
  assumes "faults w = []" and "\<forall>i \<in> set is. \<exists>l. resolve False w (path_join dir (temp_name name i)) = Inr l"
  shows "fst (try_temps L is dir name w) = Inl Exists \<longleftrightarrow>
    (\<forall>i \<in> set is. \<forall>l. resolve False w (path_join dir (temp_name name i)) = Inr l \<longrightarrow> tget (fs w) l \<noteq> None)"
  using assms(2)
proof (induction "is")
  case (Cons i "is")
  then obtain l where l: "resolve False w (path_join dir (temp_name name i)) = Inr l" by auto
  have w: "w\<lparr>fs := fs w\<rparr> = w" by simp
  show ?case
  proof (cases "tget (fs w) l = None")
    case True
    with l assms(1) show ?thesis by (auto simp: file_create_new_def sys_simps)
  next
    case False
    with l assms(1) have "try_temps L (i # is) dir name w = try_temps L is dir name w"
      by (simp add: file_create_new_def sys_simps Let_def)
    with Cons l False show ?thesis by auto
  qed
qed simp

section \<open>Opening an upload\<close>

lemma create_temp_uploading:
  assumes "create_temp L dir (path_join dir name) w = (Inr (temp, lt), v)" and "env_ok w"
    and "plain_name name" and "dir \<noteq> []"
    and "resolve False w (path_join dir name) = Inr lg" and "skel_of (tget (fs w) lg) = SLeaf"
  shows "uploading lt lg (atomic_new temp (path_join dir name) sz ck lt fsync) [] v"
    and "only_file {lt} w v" and "files (fs w) lt = None"
    and "\<exists>c i. i < 16 \<and> lg = c @ [name] \<and> lt = c @ [temp_name name i]"
proof -
  have t: "try_temps L [0..<16] dir name w = (Inr (temp, lt), v)"
    using assms(1,3,4) by (simp add: create_temp_def path_simps)
  obtain i where i: "i < 16" "temp = path_join dir (temp_name name i)"
    and o: "resolve False w temp = Inr lt" "lt \<noteq> []" "tget (fs w) lt = None" "only_file {lt} w v" "holds lt [] v"
    using try_temps_outcome[OF t assms(2)] by (auto simp: atLeast0LessThan)
  obtain c where c: "lg = c @ [name]" "lt = c @ [temp_name name i]"
    using same_directory[OF assms(5,3) temp_name_plain[OF assms(3)], of i] o(1) i by auto
  have "skel_of (tget (fs w) lt) = SLeaf" using o(3) by (simp add: skel_of_def)
  then have "upload_paths lt lg (atomic_new temp (path_join dir name) sz ck lt fsync) w"
    using assms o(1,2) i c temp_name_plain[OF assms(3), of i]
    by (auto simp: upload_paths_def two_paths_def atomic_new_def plain_end_join)
  then have "upload_paths lt lg (atomic_new temp (path_join dir name) sz ck lt fsync) v"
    using upload_paths_frame[OF _ o(4)] by simp
  then show "uploading lt lg (atomic_new temp (path_join dir name) sz ck lt fsync) [] v"
    using o(5) by (simp add: uploading_def atomic_new_def)
  show "only_file {lt} w v" using o(4) .
  show "files (fs w) lt = None" using o(3) by (simp add: files_def)
  show "\<exists>c i. i < 16 \<and> lg = c @ [name] \<and> lt = c @ [temp_name name i]" using i c by blast
qed

end
