(* ===== verification/Step_Systems.thy ===== *)
theory Step_Systems
  imports Main
begin

text \<open>
  Three interfaces for systems of several actors.  \<open>step_system\<close>: an invariant of the initial
  states that every step keeps holds in every reachable state.  \<open>refinement\<close>: its runs are runs of
  an abstract system.  \<open>interference\<close>: clients each
  with an assertion about a shared state, which survives every change outside its footprint.
\<close>

locale step_system =
  fixes init :: "'s \<Rightarrow> bool" and step :: "'s \<Rightarrow> 's \<Rightarrow> bool" and inv :: "'s \<Rightarrow> bool"
  assumes init_inv: "init s \<Longrightarrow> inv s"
    and step_inv: "inv s \<Longrightarrow> step s t \<Longrightarrow> inv t"
begin

lemma reach_inv:
  assumes "init s" and "step\<^sup>*\<^sup>* s t"
  shows "inv t"
  using assms(2)
proof (induction rule: rtranclp_induct)
  case base
  show ?case using assms(1) by (rule init_inv)
next
  case (step t u)
  then show ?case using step_inv by blast
qed

end

text \<open>An implementation of an abstract step relation, up to steps the abstraction does not see.\<close>

locale refinement = step_system init step inv
  for init :: "'s \<Rightarrow> bool" and step :: "'s \<Rightarrow> 's \<Rightarrow> bool" and inv :: "'s \<Rightarrow> bool" +
  fixes abs :: "'s \<Rightarrow> 'a" and astep :: "'a \<Rightarrow> 'a \<Rightarrow> bool"
  assumes simulates: "inv s \<Longrightarrow> step s t \<Longrightarrow> abs t = abs s \<or> astep (abs s) (abs t)"
begin

lemma run_refines:
  assumes "init s" and "step\<^sup>*\<^sup>* s t"
  shows "astep\<^sup>*\<^sup>* (abs s) (abs t)"
  using assms(2)
proof (induction rule: rtranclp_induct)
  case (step t u)
  have "inv t" using reach_inv[OF assms(1) step.hyps(1)] .
  from simulates[OF this step.hyps(2)] step.IH show ?case
    by (auto intro: rtranclp.rtrancl_into_rtrancl)
qed simp

end

locale interference =
  fixes own :: "'c \<Rightarrow> 's \<Rightarrow> bool" and foot :: "'c \<Rightarrow> 'l set" and changes :: "'l set \<Rightarrow> 's \<Rightarrow> 's \<Rightarrow> bool"
  assumes stable: "own c s \<Longrightarrow> changes ls s t \<Longrightarrow> ls \<inter> foot c = {} \<Longrightarrow> own c t"
begin

lemma others_keep:
  assumes "\<forall>j c. m j = Some c \<longrightarrow> own c s" and "changes ls s t"
    and "\<forall>j c. j \<noteq> i \<longrightarrow> m j = Some c \<longrightarrow> ls \<inter> foot c = {}"
  shows "\<forall>j c. j \<noteq> i \<longrightarrow> m j = Some c \<longrightarrow> own c t"
  using assms stable by blast

lemma all_update:
  assumes "\<forall>j c. m j = Some c \<longrightarrow> own c s" and "changes ls s t"
    and "\<forall>j c. j \<noteq> i \<longrightarrow> m j = Some c \<longrightarrow> ls \<inter> foot c = {}" and "own c' t"
  shows "\<forall>j c. (m(i \<mapsto> c')) j = Some c \<longrightarrow> own c t"
  using others_keep[OF assms(1-3)] assms(4) by auto

lemma all_remove:
  assumes "\<forall>j c. m j = Some c \<longrightarrow> own c s" and "changes ls s t"
    and "\<forall>j c. j \<noteq> i \<longrightarrow> m j = Some c \<longrightarrow> ls \<inter> foot c = {}"
  shows "\<forall>j c. (m(i := None)) j = Some c \<longrightarrow> own c t"
  using others_keep[OF assms] by auto

end

end
