(* ===== verification/Concurrent_Uploads.thy ===== *)
theory Concurrent_Uploads
  imports Upload_Start Step_Systems
begin

text \<open>
  Any number of uploads at once, interleaved operation by operation with each other and with an
  environment that changes which faults come next.  \<open>published\<close> records, as a history, every
  commit: the target, the bytes, and the length and checksum the client had announced.
\<close>

datatype phase = Live bytes | Failed | Done

record upload =
  u_temp :: loc
  u_goal :: loc
  u_file :: atomic_file
  u_phase :: phase

record site =
  sw :: world
  uploads :: "nat \<rightharpoonup> upload"
  published :: "(loc \<times> bytes \<times> u64 option \<times> string option) set"

fun next_phase :: "phase \<Rightarrow> upload_op \<Rightarrow> bool \<Rightarrow> phase" where
  "next_phase ph x False = Failed"
| "next_phase (Live bs) (WriteBytes b) True = Live (bs @ b)"
| "next_phase (Live bs) (WriteBuf cs) True = Live (bs @ concat cs)"
| "next_phase (Live bs) Flush True = Done"
| "next_phase (Live bs) Metadata True = Done"
| "next_phase ph x True = ph"

definition temp_like :: "string \<Rightarrow> bool" where
  "temp_like s \<longleftrightarrow> (\<exists>n i. s = temp_name n i)"

definition commits :: "upload \<Rightarrow> atomic_file \<Rightarrow> (loc \<times> bytes \<times> u64 option \<times> string option) set" where
  "commits u b =
     (if a_committed b \<and> \<not> a_committed (u_file u)
      then {(u_goal u, a_hashed (u_file u), a_expected_size b, a_checksum b)} else {})"

inductive site_step :: "libs \<Rightarrow> site \<Rightarrow> site \<Rightarrow> bool" for L where
  start: "uploads s i = None \<Longrightarrow> plain_name name \<Longrightarrow> \<not> temp_like name \<Longrightarrow> dir \<noteq> [] \<Longrightarrow>
     resolve False (sw s) (path_join dir name) = Inr lg \<Longrightarrow> skel_of (tget (fs (sw s)) lg) = SLeaf \<Longrightarrow>
     create_temp L dir (path_join dir name) (sw s) = (Inr (temp, lt), v) \<Longrightarrow>
     site_step L s (s\<lparr>sw := v, uploads := (uploads s)(i \<mapsto>
       \<lparr>u_temp = lt, u_goal = lg, u_file = atomic_new temp (path_join dir name) sz ck lt fsync,
        u_phase = Live []\<rparr>)\<rparr>)"
| operate: "uploads s i = Some u \<Longrightarrow> u_phase u \<noteq> Failed \<Longrightarrow>
     af_do L x (u_file u) (sw s) = (ok, b, v) \<Longrightarrow>
     site_step L s (s\<lparr>sw := v,
       uploads := (uploads s)(i \<mapsto> u\<lparr>u_file := b, u_phase := next_phase (u_phase u) x ok\<rparr>),
       published := published s \<union> commits u b\<rparr>)"
| finish: "uploads s i = Some u \<Longrightarrow>
     site_step L s (s\<lparr>sw := af_drop (u_file u) (sw s), uploads := (uploads s)(i := None)\<rparr>)"
| environment: "site_step L s (s\<lparr>sw := (sw s)\<lparr>faults := fl\<rparr>\<rparr>)"

inductive_cases site_stepE: "site_step L s t"

section \<open>The assertion of one upload\<close>

definition own_upload :: "upload \<Rightarrow> world \<Rightarrow> bool" where
  "own_upload u w \<longleftrightarrow>
     upload_paths (u_temp u) (u_goal u) (u_file u) w \<and>
     temp_like (last (u_temp u)) \<and> \<not> temp_like (last (u_goal u)) \<and>
     (\<not> a_committed (u_file u) \<longrightarrow> files (fs w) (u_temp u) \<noteq> None) \<and>
     (case u_phase u of
        Live bs \<Rightarrow> uploading (u_temp u) (u_goal u) (u_file u) bs w
      | Failed \<Rightarrow> True
      | Done \<Rightarrow> closed (u_file u))"

definition upload_foot :: "upload \<Rightarrow> loc set" where
  "upload_foot u = (if a_committed (u_file u) then {} else {u_temp u})"

interpretation up: interference own_upload upload_foot only_file
proof
  fix u w ls v
  assume o: "own_upload u w" and c: "only_file ls w v" and d: "ls \<inter> upload_foot u = {}"
  have "upload_paths (u_temp u) (u_goal u) (u_file u) w" using o by (simp add: own_upload_def)
  then have p: "upload_paths (u_temp u) (u_goal u) (u_file u) v"
    using c by (rule upload_paths_frame) simp_all
  have t: "\<not> a_committed (u_file u) \<Longrightarrow> files (fs v) (u_temp u) = files (fs w) (u_temp u)"
    using c d by (auto simp: only_file_def upload_foot_def)
  show "own_upload u v"
    using o p t by (auto simp: own_upload_def uploading_def holds_def split: phase.splits)
qed

text \<open>What one operation of an upload does, in terms of its assertion.\<close>

lemma own_operate:
  assumes "own_upload u w" and "u_phase u \<noteq> Failed" and "af_do L x (u_file u) w = (ok, b, v)"
  defines "u' \<equiv> u\<lparr>u_file := b, u_phase := next_phase (u_phase u) x ok\<rparr>"
  shows "own_upload u' v" and "only_file {u_temp u, u_goal u} w v"
    and "commits u b = {} \<Longrightarrow> only_file {u_temp u} w v"
    and "commits u b = {} \<or> (\<exists>bs. commits u b = {(u_goal u, bs, a_expected_size b, a_checksum b)} \<and>
           holds (u_goal u) bs v \<and> verified L (a_expected_size b) (a_checksum b) bs)"
    and "a_committed (u_file u) \<Longrightarrow> a_committed b \<and> files (fs v) = files (fs w)"
proof -
  note ps = af_do_params[OF assms(3)]
  have base: "temp_like (last (u_temp u))" "\<not> temp_like (last (u_goal u))"
    using assms(1) by (auto simp: own_upload_def)
  have "own_upload u' v \<and> only_file {u_temp u, u_goal u} w v \<and>
      (commits u b = {} \<longrightarrow> only_file {u_temp u} w v) \<and>
      (commits u b = {} \<or> (\<exists>bs. commits u b = {(u_goal u, bs, a_expected_size b, a_checksum b)} \<and>
           holds (u_goal u) bs v \<and> verified L (a_expected_size b) (a_checksum b) bs)) \<and>
      (a_committed (u_file u) \<longrightarrow> a_committed b \<and> files (fs v) = files (fs w))"
  proof (cases "u_phase u")
    case (Live bs)
    then have up: "uploading (u_temp u) (u_goal u) (u_file u) bs w"
      using assms(1) by (simp add: own_upload_def)
    then have nc: "\<not> a_committed (u_file u)" by (simp add: uploading_def)
    show ?thesis
    proof (cases "x = Flush \<or> x = Metadata")
      case False
      then obtain buf cs where xx: "x = WriteBytes buf \<or> x = WriteBuf cs \<and> buf = concat cs"
        by (cases x) auto
      note wr = write_ok_uploading[OF up assms(3) xx]
      have ph: "next_phase (u_phase u) x ok = (if ok then Live (bs @ buf) else Failed)"
        using xx Live by (cases ok) auto
      have "files (fs v) (u_temp u) \<noteq> None"
        using write_keeps_temp[OF up assms(3) xx] .
      with wr base ph nc show ?thesis
        by (auto simp: own_upload_def u'_def commits_def intro: only_file_mono)
    next
      case True
      obtain r w2 where c: "commit L (u_file u) w = (r, b, w2)" and e: "fs v = fs w2" "cwd v = cwd w2"
        and ok: "ok \<Longrightarrow> r = Inr ()"
        using commit_step[OF up assms(3) True] by metis
      note cu = commit_uploading[OF up c]
      have o: "only_file {u_temp u, u_goal u} w v" using cu(1) e by (simp add: only_file_def)
      have p: "upload_paths (u_temp u) (u_goal u) b v"
        using upload_paths_frame[OF _ o cu(2,3)] up by (simp add: uploading_def)
      have t: "\<not> a_committed b \<Longrightarrow> files (fs v) = files (fs w)" using cu(5) e by simp
      have cl: "ok \<Longrightarrow> closed b"
        using c ok nc by (auto simp: closed_def commit_def split: if_splits prod.splits sum.splits)
      have ph: "next_phase (u_phase u) x ok = (if ok then Done else Failed)"
        using True Live by (cases ok) auto
      have ex: "files (fs w) (u_temp u) \<noteq> None" using up by (auto simp: uploading_def holds_def)
      have own: "own_upload u' v"
        using p base t cl ph ex by (auto simp: own_upload_def u'_def)
      show ?thesis
      proof (cases "a_committed b")
        case cm: True
        then have "should_commit (u_file u)" "\<not> checksum_mismatch L (u_file u)" "holds (u_goal u) bs v"
          using cu(4,6) e by (auto simp: holds_def)
        moreover have "commits u b = {(u_goal u, bs, a_expected_size b, a_checksum b)}"
          using cm nc up by (simp add: commits_def uploading_def)
        ultimately show ?thesis
          using own o nc verified_commit[OF up] ps by auto
      next
        case False
        with own o nc t show ?thesis by (auto simp: commits_def only_file_def)
      qed
    qed
  next
    case Done
    then have cl: "closed (u_file u)" using assms(1) by (simp add: own_upload_def)
    note cs = closed_step[OF cl assms(3)]
    have o: "only_file ls w v" for ls using cs by (simp add: only_file_same)
    have "upload_paths (u_temp u) (u_goal u) (u_file u) w" using assms(1) by (simp add: own_upload_def)
    from upload_paths_frame[OF this o[of "{}"]]
    have p: "upload_paths (u_temp u) (u_goal u) b v" using ps by simp
    have ph: "next_phase (u_phase u) x ok = (if ok then Done else Failed)"
      using Done by (cases ok) auto
    have "own_upload u' v"
      using p base cs ph assms(1) by (cases ok) (auto simp: own_upload_def u'_def)
    moreover have "commits u b = {}" using cs by (simp add: commits_def)
    ultimately show ?thesis using o[of "{u_temp u, u_goal u}"] o[of "{u_temp u}"] cs ps by simp
  qed (use assms(2) in simp)
  then show "own_upload u' v" "only_file {u_temp u, u_goal u} w v"
    "commits u b = {} \<Longrightarrow> only_file {u_temp u} w v"
    "commits u b = {} \<or> (\<exists>bs. commits u b = {(u_goal u, bs, a_expected_size b, a_checksum b)} \<and>
           holds (u_goal u) bs v \<and> verified L (a_expected_size b) (a_checksum b) bs)"
    "a_committed (u_file u) \<Longrightarrow> a_committed b \<and> files (fs v) = files (fs w)" by simp_all
qed

section \<open>The invariant of the site\<close>

definition site_inv :: "libs \<Rightarrow> world \<Rightarrow> site \<Rightarrow> bool" where
  "site_inv L w0 s \<longleftrightarrow>
     env_ok (sw s) \<and>
     (\<forall>i u. uploads s i = Some u \<longrightarrow> own_upload u (sw s)) \<and>
     (\<forall>i j u v. i \<noteq> j \<longrightarrow> uploads s i = Some u \<longrightarrow> uploads s j = Some v \<longrightarrow>
        upload_foot u \<inter> upload_foot v = {}) \<and>
     (\<forall>q. \<not> temp_like (last q) \<longrightarrow>
        files (fs (sw s)) q = files (fs w0) q \<or>
        (\<exists>bs sz ck. (q, bs, sz, ck) \<in> published s \<and> holds q bs (sw s))) \<and>
     (\<forall>(q, bs, sz, ck) \<in> published s. verified L sz ck bs)"

lemma site_invD:
  assumes "site_inv L w0 s"
  shows "env_ok (sw s)" "\<And>i u. uploads s i = Some u \<Longrightarrow> own_upload u (sw s)"
    "\<And>i j u v. i \<noteq> j \<Longrightarrow> uploads s i = Some u \<Longrightarrow> uploads s j = Some v \<Longrightarrow> upload_foot u \<inter> upload_foot v = {}"
    "\<And>q. \<not> temp_like (last q) \<Longrightarrow> files (fs (sw s)) q = files (fs w0) q \<or>
        (\<exists>bs sz ck. (q, bs, sz, ck) \<in> published s \<and> holds q bs (sw s))"
    "\<And>q bs sz ck. (q, bs, sz, ck) \<in> published s \<Longrightarrow> verified L sz ck bs"
  using assms by (auto simp: site_inv_def)

text \<open>A target never is somebody's temporary file.\<close>

lemma foot_disjoint:
  assumes "site_inv L w0 s" and "uploads s i = Some u" and "j \<noteq> i" and "uploads s j = Some v"
  shows "u_goal u \<notin> upload_foot v" and "\<not> a_committed (u_file u) \<Longrightarrow> u_temp u \<notin> upload_foot v"
proof -
  show "u_goal u \<notin> upload_foot v"
    using site_invD(2)[OF assms(1,2)] site_invD(2)[OF assms(1,4)]
    by (auto simp: own_upload_def upload_foot_def)
  show "u_temp u \<notin> upload_foot v" if "\<not> a_committed (u_file u)"
    using site_invD(3)[OF assms(1,3,4,2)] that by (auto simp: upload_foot_def)
qed

lemma start_inv:
  assumes inv: "site_inv L w0 s" and free: "uploads s i = None" and name: "plain_name name" "\<not> temp_like name"
    and dir: "dir \<noteq> []" and res: "resolve False (sw s) (path_join dir name) = Inr lg"
    and leaf: "skel_of (tget (fs (sw s)) lg) = SLeaf"
    and ct: "create_temp L dir (path_join dir name) (sw s) = (Inr (temp, lt), v)"
    and u: "u = \<lparr>u_temp = lt, u_goal = lg, u_file = atomic_new temp (path_join dir name) sz ck lt fsync,
        u_phase = Live []\<rparr>"
  shows "site_inv L w0 (s\<lparr>sw := v, uploads := (uploads s)(i \<mapsto> u)\<rparr>)"
proof -
  note e = site_invD(1)[OF inv]
  note c = create_temp_uploading(2-4)[OF ct e name(1) dir res leaf]
  have c1: "uploading lt lg (u_file u) [] v"
    using create_temp_uploading(1)[OF ct e name(1) dir res leaf, of sz ck fsync] by (simp add: u)
  obtain c' k where l: "lg = c' @ [name]" "lt = c' @ [temp_name name k]" using c(3) by blast
  have tl: "temp_like (last lt)" "\<not> temp_like (last lg)" using l name by (auto simp: temp_like_def)
  have ex: "files (fs v) lt \<noteq> None" using c1 by (auto simp: uploading_def holds_def)
  have own: "own_upload u v"
    using c1 tl ex by (simp add: own_upload_def u uploading_def)
  have fresh: "lt \<notin> upload_foot v'" if "uploads s j = Some v'" for j v'
    using site_invD(2)[OF inv that] c(2) by (auto simp: own_upload_def upload_foot_def)
  have owns: "\<forall>j w. ((uploads s)(i \<mapsto> u)) j = Some w \<longrightarrow> own_upload w v"
    using fresh by (intro up.all_update[OF _ c(1)]) (use site_invD(2)[OF inv] own in auto)
  have foot: "upload_foot u = {lt}" by (simp add: upload_foot_def u atomic_new_def)
  have fl: "files (fs v) q = files (fs (sw s)) q" if "\<not> temp_like (last q)" for q
    using c(1) that tl by (auto simp: only_file_def)
  have "upload_foot x1 \<inter> upload_foot x2 = {}"
    if "j \<noteq> k" "((uploads s)(i \<mapsto> u)) j = Some x1" "((uploads s)(i \<mapsto> u)) k = Some x2" for j k x1 x2
    using that fresh foot site_invD(3)[OF inv, of j k] by (auto split: if_splits)
  then show ?thesis
    using owns only_file_env[OF c(1) e] site_invD(4,5)[OF inv] fl
    by (auto simp: site_inv_def holds_def)
qed

lemma operate_inv:
  assumes inv: "site_inv L w0 s" and u: "uploads s i = Some u" and ph: "u_phase u \<noteq> Failed"
    and d: "af_do L x (u_file u) (sw s) = (ok, b, v)"
  shows "site_inv L w0 (s\<lparr>sw := v,
       uploads := (uploads s)(i \<mapsto> u\<lparr>u_file := b, u_phase := next_phase (u_phase u) x ok\<rparr>),
       published := published s \<union> commits u b\<rparr>)"
    (is "site_inv L w0 ?s")
proof -
  let ?u = "u\<lparr>u_file := b, u_phase := next_phase (u_phase u) x ok\<rparr>"
  note o = own_operate[OF site_invD(2)[OF inv u] ph d]
  define ls where "ls = (if a_committed (u_file u) then {} else {u_temp u, u_goal u})"
  have ch: "only_file ls (sw s) v"
    using o(2,5) by (auto simp: ls_def only_file_def)
  have dis: "\<forall>j w. j \<noteq> i \<longrightarrow> uploads s j = Some w \<longrightarrow> ls \<inter> upload_foot w = {}"
    using foot_disjoint[OF inv u] by (auto simp: ls_def)
  have owns: "\<forall>j w. (uploads ?s) j = Some w \<longrightarrow> own_upload w v"
    using up.all_update[OF _ ch dis o(1)] site_invD(2)[OF inv] by simp
  have foot: "upload_foot ?u \<subseteq> upload_foot u"
    using o(5) by (auto simp: upload_foot_def)
  have tl: "temp_like (last (u_temp u))" using site_invD(2)[OF inv u] by (simp add: own_upload_def)
  have "files (fs v) q = files (fs w0) q \<or>
      (\<exists>bs sz ck. (q, bs, sz, ck) \<in> published s \<union> commits u b \<and> holds q bs v)"
    if q: "\<not> temp_like (last q)" for q
  proof (cases "q = u_goal u \<and> commits u b \<noteq> {}")
    case True
    with o(4) show ?thesis by blast
  next
    case False
    have nt: "q \<noteq> u_temp u" using q tl by auto
    have "files (fs v) q = files (fs (sw s)) q"
    proof (cases "commits u b = {}")
      case True
      from o(3)[OF this] nt show ?thesis by (simp add: only_file_def)
    next
      case ne: False
      with False have "q \<noteq> u_goal u" by simp
      with o(2) nt show ?thesis by (simp add: only_file_def)
    qed
    with site_invD(4)[OF inv q] show ?thesis by (auto simp: holds_def)
  qed
  moreover have "\<forall>(q, bs, sz, ck) \<in> published s \<union> commits u b. verified L sz ck bs"
    using site_invD(5)[OF inv] o(4) by auto
  moreover have "upload_foot x1 \<inter> upload_foot x2 = {}"
    if "j \<noteq> k" "uploads ?s j = Some x1" "uploads ?s k = Some x2" for j k x1 x2
    using that foot site_invD(3)[OF inv, of j k] u by (auto split: if_splits)
  ultimately show ?thesis
    using owns only_file_env[OF ch site_invD(1)[OF inv]] by (simp add: site_inv_def)
qed

lemma finish_inv:
  assumes inv: "site_inv L w0 s" and u: "uploads s i = Some u"
  shows "site_inv L w0 (s\<lparr>sw := af_drop (u_file u) (sw s), uploads := (uploads s)(i := None)\<rparr>)"
proof -
  let ?v = "af_drop (u_file u) (sw s)"
  have ow: "own_upload u (sw s)" using site_invD(2)[OF inv u] .
  have ch: "only_file (upload_foot u) (sw s) ?v"
    using ow drop_only_file[of "u_temp u" "u_goal u" "u_file u" "sw s"]
    by (auto simp: own_upload_def upload_foot_def af_drop_def)
  have "\<forall>j c. ((uploads s)(i := None)) j = Some c \<longrightarrow> own_upload c ?v"
  proof (rule up.all_remove[OF _ ch])
    show "\<forall>j c. uploads s j = Some c \<longrightarrow> own_upload c (sw s)" using site_invD(2)[OF inv] by simp
    show "\<forall>j c. j \<noteq> i \<longrightarrow> uploads s j = Some c \<longrightarrow> upload_foot u \<inter> upload_foot c = {}"
      using site_invD(3)[OF inv _ u] by metis
  qed
  moreover have "files (fs ?v) q = files (fs (sw s)) q" if q: "\<not> temp_like (last q)" for q
  proof -
    have "q \<notin> upload_foot u" using ow q by (auto simp: own_upload_def upload_foot_def)
    with ch show ?thesis by (simp add: only_file_def)
  qed
  ultimately show ?thesis
    using only_file_env[OF ch site_invD(1)[OF inv]] site_invD(3-5)[OF inv]
    by (auto simp: site_inv_def holds_def split: if_splits)
qed

lemma environment_inv:
  assumes "site_inv L w0 s"
  shows "site_inv L w0 (s\<lparr>sw := (sw s)\<lparr>faults := fl\<rparr>\<rparr>)"
proof -
  have c: "only_file {} (sw s) ((sw s)\<lparr>faults := fl\<rparr>)" by (simp add: only_file_same)
  have "own_upload u ((sw s)\<lparr>faults := fl\<rparr>)" if "uploads s i = Some u" for i u
    using up.stable[OF site_invD(2)[OF assms that] c] by simp
  with only_file_env[OF c site_invD(1)[OF assms]] site_invD(3-5)[OF assms]
  show ?thesis by (auto simp: site_inv_def holds_def)
qed

definition site_init :: "world \<Rightarrow> site \<Rightarrow> bool" where
  "site_init w0 s \<longleftrightarrow> env_ok w0 \<and> sw s = w0 \<and> uploads s = Map.empty \<and> published s = {}"

interpretation site: step_system "site_init w0" "site_step L" "site_inv L w0" for L w0
proof
  show "site_init w0 s \<Longrightarrow> site_inv L w0 s" for s
    by (simp add: site_init_def site_inv_def)
  show "site_inv L w0 s \<Longrightarrow> site_step L s t \<Longrightarrow> site_inv L w0 t" for s t
    by (erule site_stepE) (auto intro: start_inv operate_inv finish_inv environment_inv)
qed

section \<open>Properties\<close>















end
