(* ===== verification/Upload_Refinement.thy ===== *)
theory Upload_Refinement
  imports Concurrent_Uploads
begin

text \<open>
  The contract of the uploads as an abstract store: the contents a reader finds at each location,
  and the uploads in progress, each with its target, the length and the checksum its client has
  announced and the bytes received so far.  There are no temporary files, no handles, no hashes
  and no faults in it, and it is changed by four steps; only \<open>put\<close> changes what a reader sees.
\<close>

record pending =
  p_goal :: loc
  p_size :: "u64 option"
  p_sum :: "string option"
  p_bytes :: bytes



text \<open>The store a site implements: its files under other than temporary names, and its live uploads.\<close>

definition data_view :: "world \<Rightarrow> loc \<rightharpoonup> bytes" where
  "data_view w = (\<lambda>q. if temp_like (last q) then None else map_option fbytes (files (fs w) q))"

definition pending_view :: "upload \<Rightarrow> pending option" where
  "pending_view u =
     (case u_phase u of
        Live bs \<Rightarrow> Some \<lparr>p_goal = u_goal u, p_size = a_expected_size (u_file u),
                         p_sum = a_checksum (u_file u), p_bytes = bs\<rparr>
      | _ \<Rightarrow> None)"

definition pendings :: "(nat \<rightharpoonup> upload) \<Rightarrow> nat \<rightharpoonup> pending" where
  "pendings m = (\<lambda>i. Option.bind (m i) pending_view)"




lemma pendings_update [simp]:
  "pendings (m(i := None)) = (pendings m)(i := None)"
  "pendings (m(i \<mapsto> u)) = (pendings m)(i := pending_view u)"
  by (simp_all add: pendings_def fun_eq_iff)

lemma data_view_faults [simp]: "data_view (w\<lparr>faults := fl\<rparr>) = data_view w"
  by (auto simp: data_view_def fun_eq_iff)




section \<open>The simulation\<close>








end
