(* ===== verification/Dir_Laws.thy ===== *)
theory Dir_Laws
  imports File_Laws
begin

text \<open>
  Creating directories adds directories only: no file changes, every directory and link stays, so
  every path that led to something still leads there.
\<close>

definition grows :: "world \<Rightarrow> world \<Rightarrow> bool" where
  "grows w v \<longleftrightarrow>
     cwd v = cwd w \<and> files (fs v) = files (fs w) \<and>
     (\<forall>q. is_dirn (tget (fs w) q) \<longrightarrow> is_dirn (tget (fs v) q)) \<and>
     (\<forall>q l. tget (fs w) q = Some (Symlink l) \<longleftrightarrow> tget (fs v) q = Some (Symlink l))"

lemma grows_refl [simp]: "grows w w"
  by (simp add: grows_def)

lemma grows_trans [trans]: "grows w v \<Longrightarrow> grows v u \<Longrightarrow> grows w u"
  by (simp add: grows_def)

lemma grows_same: "fs v = fs w \<Longrightarrow> cwd v = cwd w \<Longrightarrow> grows w v"
  by (simp add: grows_def)

lemma grows_env: "grows w v \<Longrightarrow> env_ok w \<Longrightarrow> env_ok v"
  unfolding env_ok_def grows_def by (metis tget.simps(1))

lemma put_dir_node:
  assumes "tget t l = None" and "dir_above t l"
  shows "tget (tput t l (Dir [])) q = tget t q \<or>
    is_dirn (tget (tput t l (Dir [])) q) \<and> (tget t q = None \<or> is_dirn (tget t q))"
proof -
  have l: "l \<noteq> []" using assms(1) by (metis option.distinct(1) tget.simps(1))
  have same: "tget (tput t l (Dir [])) l = Some (Dir [])"
    using assms l by (simp add: nt.get_put_same dir_above_def)
  show ?thesis
  proof (cases q l rule: loc_cases)
    case eq
    with same assms(1) show ?thesis by simp
  next
    case par
    then show ?thesis by (simp add: nt.get_put_par)
  next
    case above
    then have "is_dirn (tget t q)" "is_dirn (tget (tput t l (Dir [])) q)"
      using assms l dir_above_prefix nt.dir_put_above[OF above, of t] by (auto simp: dir_above_def)
    then show ?thesis by simp
  next
    case (below r)
    then have "tget t q = None" using assms(1) by (simp add: nt.get_below_None)
    moreover have "tget (tput t l (Dir [])) q = None"
      using below same by (cases r) (simp_all add: tget_append)
    ultimately show ?thesis by simp
  qed
qed

lemma put_dir_grows:
  assumes "tget (fs w) l = None" and "dir_above (fs w) l" and "fs v = tput (fs w) l (Dir [])" and "cwd v = cwd w"
  shows "grows w v"
proof -
  have n: "tget (fs v) q = tget (fs w) q \<or> is_dirn (tget (fs v) q) \<and> (tget (fs w) q = None \<or> is_dirn (tget (fs w) q))" for q
    using put_dir_node[OF assms(1,2)] assms(3) by simp
  have "files (fs v) q = files (fs w) q" for q
    using n[of q] by (auto simp: files_def is_dirn_iff)
  moreover have "is_dirn (tget (fs w) q) \<longrightarrow> is_dirn (tget (fs v) q)" for q
    using n[of q] by auto
  moreover have "tget (fs w) q = Some (Symlink s) \<longleftrightarrow> tget (fs v) q = Some (Symlink s)" for q s
    using n[of q] by auto
  ultimately show ?thesis using assms(4) by (auto simp: grows_def)
qed

lemma resolve_leaf_cases:
  assumes "resolve_leaf w p = Inr l"
  shows "\<exists>q. resolve False w q = Inr l"
  using assms by (auto simp: resolve_leaf_def Let_def split: if_splits sum.splits)

lemma create_dir_grows:
  assumes "create_dir p w = (r, v)" and "env_ok w"
  shows "grows w v"
proof (cases rule: sys_cases[OF assms(1)[unfolded create_dir_def]])
  case (1 e)
  then show ?thesis by (simp add: grows_same)
next
  case (2 t)
  show ?thesis
  proof (cases "resolve_leaf w p")
    case (Inl e)
    with 2 show ?thesis by (auto simp: grows_same)
  next
    case (Inr l)
    obtain q where q: "resolve False w q = Inr l" using resolve_leaf_cases[OF Inr] by blast
    show ?thesis
    proof (cases "tget (fs w) l")
      case None
      with 2 Inr have "fs v = tput (fs w) l (Dir [])" "cwd v = cwd w" by auto
      then show ?thesis using put_dir_grows[OF None resolve_dir_above[OF assms(2) q]] by simp
    next
      case (Some n)
      with 2 Inr show ?thesis by (auto simp: grows_same)
    qed
  qed
qed

lemma path_is_dir_query: "path_is_dir p w = (b, v) \<Longrightarrow> fs v = fs w \<and> cwd v = cwd w"
  using sys_query[of "\<lambda>w. node_at True w p" w]
  by (auto simp: path_is_dir_def metadata_def split: prod.splits sum.splits node.splits)

lemma path_exists_query: "path_exists p w = (b, v) \<Longrightarrow> fs v = fs w \<and> cwd v = cwd w"
  using sys_query[of "\<lambda>w. node_at True w p" w]
  by (auto simp: path_exists_def metadata_def split: prod.splits)

text \<open>What every single call keeps, \<open>create_dir_all\<close> keeps.\<close>

lemma create_dir_all_invariant:
  assumes "create_dir_all p w = (r, v)" and "P w"
    and c: "\<And>q u x u'. P u \<Longrightarrow> create_dir q u = (x, u') \<Longrightarrow> P u'"
    and d: "\<And>q u b u'. P u \<Longrightarrow> path_is_dir q u = (b, u') \<Longrightarrow> P u'"
  shows "P v"
  using assms(1,2)
proof (induction p w arbitrary: r v rule: create_dir_all.induct)
  case (1 p w)
  have query: "P v" if "(case path_is_dir p u of (True, x) \<Rightarrow> (Inr (), x) | (False, x) \<Rightarrow> (Inl e, x)) = (r, v)" "P u" for u e
    using that d[OF that(2), of p] by (auto split: prod.splits bool.splits)
  obtain r1 w1 where cd: "create_dir p w = (r1, w1)" by fastforce
  show ?case
  proof (cases "comps p = []")
    case True
    with "1.prems" show ?thesis by (simp add: create_dir_all.simps)
  next
    case nonempty: False
    have p1: "P w1" using c[OF "1.prems"(2) cd] .
    consider (fine) u where "r1 = Inr u" | (other) e where "r1 = Inl e" "kind_of e \<noteq> NotFound"
      | (up) e where "r1 = Inl e" "kind_of e = NotFound" by (cases r1) auto
    then show ?thesis
    proof cases
      case fine
      with nonempty cd "1.prems"(1) p1 show ?thesis by (subst (asm) create_dir_all.simps) simp
    next
      case other
      have "(case path_is_dir p w1 of (True, x) \<Rightarrow> (Inr (), x) | (False, x) \<Rightarrow> (Inl e, x)) = (r, v)"
        using nonempty cd other "1.prems"(1) by (subst (asm) create_dir_all.simps) simp
      then show ?thesis using p1 by (rule query)
    next
      case up
      show ?thesis
      proof (cases "path_parent p")
        case None
        with nonempty cd up "1.prems"(1) p1 show ?thesis by (subst (asm) create_dir_all.simps) simp
      next
        case (Some q)
        obtain r2 w2 where r: "create_dir_all q w1 = (r2, w2)" by fastforce
        have p2: "P w2" using "1.IH"[OF nonempty cd[symmetric] up Some r p1] .
        obtain r3 w3 where c3: "create_dir p w2 = (r3, w3)" by fastforce
        have p3: "P w3" using c[OF p2 c3] .
        show ?thesis
        proof (cases r2)
          case Inl
          with nonempty cd up Some r "1.prems"(1) p2 show ?thesis by (subst (asm) create_dir_all.simps) simp
        next
          case Inr
          show ?thesis
          proof (cases r3)
            case (Inl e3)
            have "(case path_is_dir p w3 of (True, x) \<Rightarrow> (Inr (), x) | (False, x) \<Rightarrow> (Inl e3, x)) = (r, v)"
              using nonempty cd up Some r Inr c3 Inl "1.prems"(1) by (subst (asm) create_dir_all.simps) simp
            then show ?thesis using p3 by (rule query)
          next
            case (Inr u)
            with nonempty cd up Some r \<open>r2 = Inr _\<close> c3 "1.prems"(1) p3 show ?thesis
              by (subst (asm) create_dir_all.simps) simp
          qed
        qed
      qed
    qed
  qed
qed

lemma create_dir_all_grows:
  assumes "create_dir_all p w = (r, v)" and "env_ok w"
  shows "grows w v"
proof -
  have "grows w v \<and> env_ok v"
  proof (rule create_dir_all_invariant[OF assms(1)])
    fix q u x u' assume "grows w u \<and> env_ok u" "create_dir q u = (x, u')"
    then show "grows w u' \<and> env_ok u'" using create_dir_grows grows_trans grows_env by blast
  next
    fix q u b u' assume g: "grows w u \<and> env_ok u" "path_is_dir q u = (b, u')"
    then have "grows u u'" using path_is_dir_query[of q u b u'] grows_same by simp
    with g show "grows w u' \<and> env_ok u'" using grows_trans grows_env by blast
  qed (use assms(2) in simp)
  then show ?thesis ..
qed

section \<open>Resolution in a grown world\<close>

definition tree_grows :: "node \<Rightarrow> node \<Rightarrow> bool" where
  "tree_grows t u \<longleftrightarrow> (\<forall>q. case tget t q of
     None \<Rightarrow> True
   | Some (File d) \<Rightarrow> tget u q = Some (File d)
   | Some (Symlink s) \<Rightarrow> tget u q = Some (Symlink s)
   | Some (Dir es) \<Rightarrow> is_dirn (tget u q))"

lemma tree_growsD:
  assumes "tree_grows t u"
  shows "tget t q = Some (File d) \<Longrightarrow> tget u q = Some (File d)"
    and "tget t q = Some (Symlink s) \<Longrightarrow> tget u q = Some (Symlink s)"
    and "tget t q = Some (Dir es) \<Longrightarrow> \<exists>es'. tget u q = Some (Dir es')"
proof -
  have "case tget t q of None \<Rightarrow> True | Some (File d) \<Rightarrow> tget u q = Some (File d)
    | Some (Symlink s) \<Rightarrow> tget u q = Some (Symlink s) | Some (Dir es) \<Rightarrow> is_dirn (tget u q)"
    using assms unfolding tree_grows_def by blast
  then show "tget t q = Some (File d) \<Longrightarrow> tget u q = Some (File d)"
    "tget t q = Some (Symlink s) \<Longrightarrow> tget u q = Some (Symlink s)"
    "tget t q = Some (Dir es) \<Longrightarrow> \<exists>es'. tget u q = Some (Dir es')"
    by (auto simp: is_dirn_iff)
qed

lemma grows_tree: "grows w v \<Longrightarrow> tree_grows (fs w) (fs v)"
  unfolding tree_grows_def grows_def
  by (auto simp: is_dirn_iff split: option.splits node.splits) (metis files_Some)+

lemma walk_grows:
  "tree_grows t u \<Longrightarrow> walk k t cur ss f = Inr l \<Longrightarrow> tget t l \<noteq> None \<Longrightarrow> walk k u cur ss f = Inr l"
proof (induction k t cur ss f rule: walk.induct)
  case (2 k t cur s rest f)
  note g = tree_growsD[OF "2.prems"(1)]
  from "2.prems"(2) obtain es where es: "tget t cur = Some (Dir es)"
    by (auto split: option.splits node.splits)
  then obtain eu where eu: "tget u cur = Some (Dir eu)" using g(3) by blast
  show ?case
  proof (cases "s = ''.'' \<or> s = ''..''")
    case True
    with 2 es eu show ?thesis by (auto split: if_splits)
  next
    case False
    show ?thesis
    proof (cases "tget t (cur @ [s])")
      case None
      with False es "2.prems"(2,3) show ?thesis by (auto simp: map_of_tget split: if_splits)
    next
      case (Some n)
      show ?thesis
      proof (cases n)
        case (File d)
        then have n: "tget t (cur @ [s]) = Some (File d)" "tget u (cur @ [s]) = Some (File d)"
          using Some g(1) by auto
        with False es eu "2.prems" show ?thesis
          by (cases rest) (auto simp: map_of_tget)
      next
        case (Dir et)
        then obtain eu' where n: "tget t (cur @ [s]) = Some (Dir et)" "tget u (cur @ [s]) = Some (Dir eu')"
          using Some g(3) by blast
        with False es eu 2 show ?thesis by (auto simp: map_of_tget)
      next
        case (Symlink q)
        then have n: "tget t (cur @ [s]) = Some (Symlink q)" "tget u (cur @ [s]) = Some (Symlink q)"
          using Some g(2) by auto
        show ?thesis
        proof (cases "rest = [] \<and> \<not> f")
          case True
          with False es eu "2.prems"(2) n show ?thesis by (simp add: map_of_tget)
        next
          case fol: False
          with False es n "2.prems"(2) obtain k' where k: "k = Suc k'"
            and wk: "walk k' t (if is_abs q then [] else cur) (segs q @ rest) f = Inr l"
            by (cases k) (auto simp: map_of_tget)
          from "2.IH"(4)[OF es refl] False es n fol k wk "2.prems"(1,3)
          have "walk k' u (if is_abs q then [] else cur) (segs q @ rest) f = Inr l"
            by (simp add: map_of_tget)
          with False eu n k fol show ?thesis by (auto simp: map_of_tget)
        qed
      qed
    qed
  qed
qed simp

text \<open>The same for a path that leads to a free place, when no link is new.\<close>

lemma walk_grows_any:
  "tree_grows t u \<Longrightarrow> \<forall>q x. tget u q = Some (Symlink x) \<longrightarrow> tget t q = Some (Symlink x) \<Longrightarrow>
    walk k t cur ss f = Inr l \<Longrightarrow> walk k u cur ss f = Inr l"
proof (induction k t cur ss f rule: walk.induct)
  case (2 k t cur s rest f)
  note g = tree_growsD[OF "2.prems"(1)]
  from "2.prems"(3) obtain es where es: "tget t cur = Some (Dir es)"
    by (auto split: option.splits node.splits)
  then obtain eu where eu: "tget u cur = Some (Dir eu)" using g(3) by blast
  show ?case
  proof (cases "s = ''.'' \<or> s = ''..''")
    case True
    with 2 es eu show ?thesis by (auto split: if_splits)
  next
    case False
    show ?thesis
    proof (cases "tget t (cur @ [s])")
      case None
      then have "rest = []" "l = cur @ [s]" using False es "2.prems"(3) by (auto simp: map_of_tget split: if_splits)
      moreover have "tget u (cur @ [s]) \<noteq> Some (Symlink x)" for x using "2.prems"(2) None by auto
      ultimately show ?thesis using False eu by (auto simp: map_of_tget split: option.splits node.splits)
    next
      case (Some n)
      show ?thesis
      proof (cases n)
        case (File d)
        then have n: "tget t (cur @ [s]) = Some (File d)" "tget u (cur @ [s]) = Some (File d)"
          using Some g(1) by auto
        with False es eu "2.prems" show ?thesis
          by (cases rest) (auto simp: map_of_tget)
      next
        case (Dir et)
        then obtain eu' where n: "tget t (cur @ [s]) = Some (Dir et)" "tget u (cur @ [s]) = Some (Dir eu')"
          using Some g(3) by blast
        with False es eu 2 show ?thesis by (auto simp: map_of_tget)
      next
        case (Symlink q)
        then have n: "tget t (cur @ [s]) = Some (Symlink q)" "tget u (cur @ [s]) = Some (Symlink q)"
          using Some g(2) by auto
        show ?thesis
        proof (cases "rest = [] \<and> \<not> f")
          case True
          with False es eu "2.prems"(3) n show ?thesis by (simp add: map_of_tget)
        next
          case fol: False
          with False es n "2.prems"(3) obtain k' where k: "k = Suc k'"
            and wk: "walk k' t (if is_abs q then [] else cur) (segs q @ rest) f = Inr l"
            by (cases k) (auto simp: map_of_tget)
          from "2.IH"(4)[OF es refl] False es n fol k wk "2.prems"(1,2)
          have "walk k' u (if is_abs q then [] else cur) (segs q @ rest) f = Inr l"
            by (simp add: map_of_tget)
          with False eu n k fol show ?thesis by (auto simp: map_of_tget)
        qed
      qed
    qed
  qed
qed simp

lemma resolve_grows:
  assumes "grows w v" and "resolve f w p = Inr l" and "tget (fs w) l \<noteq> None"
  shows "resolve f v p = Inr l"
  using walk_grows[OF grows_tree[OF assms(1)]] assms by (auto simp: resolve_def grows_def split: if_splits)

lemma resolve_grows_any:
  assumes "grows w v" and "resolve f w p = Inr l"
  shows "resolve f v p = Inr l"
proof -
  have "\<forall>q x. tget (fs v) q = Some (Symlink x) \<longrightarrow> tget (fs w) q = Some (Symlink x)"
    using assms(1) by (simp add: grows_def)
  from walk_grows_any[OF grows_tree[OF assms(1)] this] assms show ?thesis
    by (auto simp: resolve_def grows_def split: if_splits)
qed

lemma files_tdel: "\<not> prefix l q \<Longrightarrow> files (tdel t l) q = files t q"
proof (induction t l arbitrary: q rule: tdel.induct)
  case (2 es x)
  then show ?case by (cases q) (auto simp: files_def delete_conv' split: option.splits)
next
  case (3 es x y ys)
  show ?case
  proof (cases q)
    case (Cons z zs)
    with 3 show ?thesis
      by (cases "map_of es x"; cases "z = x") (auto simp: files_def update_conv')
  qed (auto simp: files_def split: option.splits)
qed (auto simp: files_def)

section \<open>Worlds that only lose nodes\<close>

text \<open>\<open>shrinks w v\<close>: what is in \<open>v\<close> was in \<open>w\<close>; a path that still leads somewhere leads where it did.\<close>

definition shrinks :: "world \<Rightarrow> world \<Rightarrow> bool" where
  "shrinks w v \<longleftrightarrow> tree_grows (fs v) (fs w) \<and> cwd v = cwd w"

lemma tree_grows_refl [simp]: "tree_grows t t"
  by (auto simp: tree_grows_def is_dirn_iff split: option.splits node.splits)

lemma tree_grows_trans: "tree_grows t u \<Longrightarrow> tree_grows u x \<Longrightarrow> tree_grows t x"
  unfolding tree_grows_def[of t x]
  by (auto split: option.splits node.splits dest: tree_growsD) (metis is_dirn_iff tree_growsD(3))

lemma shrinks_same: "fs v = fs w \<Longrightarrow> cwd v = cwd w \<Longrightarrow> shrinks w v"
  by (simp add: shrinks_def)

lemma shrinks_trans [trans]: "shrinks w v \<Longrightarrow> shrinks v u \<Longrightarrow> shrinks w u"
  by (auto simp: shrinks_def intro: tree_grows_trans)

lemma tree_grows_None: "tree_grows t u \<Longrightarrow> tget u q = None \<Longrightarrow> tget t q = None"
  by (cases "tget t q"; cases "the (tget t q)") (auto dest: tree_growsD)

lemma shrinks_None: "shrinks w v \<Longrightarrow> tget (fs w) q = None \<Longrightarrow> tget (fs v) q = None"
  by (auto simp: shrinks_def dest: tree_grows_None)

lemma shrinks_resolve:
  "shrinks w v \<Longrightarrow> resolve f v p = Inr l \<Longrightarrow> tget (fs v) l \<noteq> None \<Longrightarrow> resolve f w p = Inr l"
  by (auto simp: shrinks_def resolve_def intro: walk_grows split: if_splits)

lemma tdel_shrinks:
  assumes "l \<noteq> []"
  shows "tree_grows (tdel t l) t"
  unfolding tree_grows_def
proof
  fix q
  consider "prefix l q" | "strict_prefix q l" | "l \<parallel> q" by (auto simp: parallel_def strict_prefix_def)
  then show "case tget (tdel t l) q of None \<Rightarrow> True | Some (File d) \<Rightarrow> tget t q = Some (File d)
    | Some (Symlink s) \<Rightarrow> tget t q = Some (Symlink s) | Some (Dir es) \<Rightarrow> is_dirn (tget t q)"
  proof cases
    case 1
    then show ?thesis using nt.get_del_below[OF assms, of t] by (auto simp: prefix_def)
  next
    case 2
    have "strict_prefix q l \<Longrightarrow> tget (tdel t l) q = Some n \<Longrightarrow> (\<exists>es. n = Dir es) \<or> tget t q = Some n" for n
    proof (induction t l arbitrary: q rule: tdel.induct)
      case (2 es x)
      then have "q = []" by (cases q) auto
      with 2 show ?case by auto
    next
      case (3 es x y ys)
      then show ?case by (cases q) (auto simp: update_conv' split: option.splits)
    qed (auto simp: strict_prefix_def split: list.splits)
    with 2 is_dirn_tdel_above[OF 2, of t] show ?thesis
      by (fastforce split: option.splits node.splits)
  next
    case 3
    then show ?thesis using tget_tdel_par[OF 3, of t]
      by (auto simp: is_dirn_iff split: option.splits node.splits)
  qed
qed

lemma only_file_shrinks:
  assumes "only_file L w v" and "\<And>q. files (fs v) q = None \<or> files (fs v) q = files (fs w) q"
  shows "shrinks w v"
proof -
  have sk: "skel_of (tget (fs v) q) = skel_of (tget (fs w) q)" for q
    using assms(1) by (rule only_file_leaf)
  show ?thesis
    unfolding shrinks_def tree_grows_def
  proof (intro conjI allI)
    fix q
    show "case tget (fs v) q of None \<Rightarrow> True | Some (File d) \<Rightarrow> tget (fs w) q = Some (File d)
      | Some (Symlink s) \<Rightarrow> tget (fs w) q = Some (Symlink s) | Some (Dir es) \<Rightarrow> is_dirn (tget (fs w) q)"
      using assms(2)[of q] sk[of q]
      by (cases "tget (fs v) q"; cases "the (tget (fs v) q)")
         (auto simp: skel_of_cases files_Some files_def skel_of_def split: option.splits node.splits)
  qed (use assms(1) in \<open>simp add: only_file_def\<close>)
qed

lemma remove_dir_shrinks:
  assumes "remove_dir p w = (r, v)"
  shows "shrinks w v" and "files (fs v) = files (fs w)"
    and "r = Inr () \<Longrightarrow> \<exists>l. resolve_leaf w p = Inr l \<and> tget (fs w) l \<noteq> None \<and> tget (fs v) l = None"
proof -
  have "shrinks w v \<and> files (fs v) = files (fs w) \<and>
      (r = Inr () \<longrightarrow> (\<exists>l. resolve_leaf w p = Inr l \<and> tget (fs w) l \<noteq> None \<and> tget (fs v) l = None))"
  proof (cases "\<exists>l. fs v = tdel (fs w) l \<and> l \<noteq> [] \<and> tget (fs w) l = Some (Dir []) \<and> resolve_leaf w p = Inr l")
    case True
    then obtain l where l: "fs v = tdel (fs w) l" "l \<noteq> []" "tget (fs w) l = Some (Dir [])" "resolve_leaf w p = Inr l" by blast
    have "cwd v = cwd w"
      by (cases rule: sys_cases[OF assms[unfolded remove_dir_def]]) auto
    then have "shrinks w v" using tdel_shrinks[OF l(2)] l(1) by (simp add: shrinks_def)
    moreover have "files (fs v) q = files (fs w) q" for q
    proof (cases "prefix l q")
      case True
      then obtain x where "q = l @ x" by (auto simp: prefix_def)
      then show ?thesis using l nt.get_del_below[OF l(2), of "fs w" x]
        by (cases x) (simp_all add: files_def tget_append)
    qed (simp add: l(1) files_tdel)
    moreover have "tget (fs v) l = None" using l by (simp add: tget_tdel_same)
    ultimately show ?thesis using l by auto
  next
    case False
    then have "fs v = fs w \<and> cwd v = cwd w \<and> r \<noteq> Inr ()"
      by (cases rule: sys_cases[OF assms[unfolded remove_dir_def]])
         (auto split: if_splits sum.splits option.splits node.splits)
    then show ?thesis by (simp add: shrinks_same)
  qed
  then show "shrinks w v" "files (fs v) = files (fs w)"
    "r = Inr () \<Longrightarrow> \<exists>l. resolve_leaf w p = Inr l \<and> tget (fs w) l \<noteq> None \<and> tget (fs v) l = None" by auto
qed

section \<open>What is at a location\<close>

text \<open>
  \<open>entry_in t q\<close> is all there is at \<open>q\<close> itself: nothing, a file with its data, mode and attributes,
  a link with its target, or a directory (its entries are at the locations below).
\<close>

definition entry_in :: "node \<Rightarrow> loc \<Rightarrow> node option" where
  "entry_in t q = (case tget t q of Some (Dir es) \<Rightarrow> Some (Dir []) | x \<Rightarrow> x)"

lemma entry_dir: "is_dirn (tget t q) \<Longrightarrow> entry_in t q = Some (Dir [])"
  by (auto simp: entry_in_def is_dirn_iff)

lemma entry_same: "tget t q = tget u q \<Longrightarrow> entry_in t q = entry_in u q"
  by (simp add: entry_in_def)

lemma entry_files: "entry_in t q = entry_in u q \<Longrightarrow> files t q = files u q"
  by (auto simp: entry_in_def files_def split: option.splits node.splits)

lemma entry_of_skel:
  assumes "skel_of (tget t q) = skel_of (tget u q)" and "files t q = files u q"
  shows "entry_in t q = entry_in u q"
  using assms by (auto simp: entry_in_def files_def skel_of_def split: option.splits node.splits)

lemma only_file_entry: "only_file ls w v \<Longrightarrow> q \<notin> ls \<Longrightarrow> entry_in (fs v) q = entry_in (fs w) q"
  using only_file_leaf by (fastforce simp: only_file_def intro: entry_of_skel)

lemma entry_simps [simp]:
  "entry_in (Dir es) [] = Some (Dir [])"
  "entry_in (Dir es) (x # xs) = (case map_of es x of None \<Rightarrow> None | Some n \<Rightarrow> entry_in n xs)"
  by (simp_all add: entry_in_def split: option.splits)

lemma entry_tdel: "\<not> prefix l q \<Longrightarrow> entry_in (tdel t l) q = entry_in t q"
proof (induction t l arbitrary: q rule: tdel.induct)
  case (2 es x)
  then show ?case by (cases q) (auto simp: delete_conv')
next
  case (3 es x y ys)
  show ?case
  proof (cases q)
    case Nil
    then show ?thesis by (simp split: option.splits)
  next
    case (Cons z zs)
    with 3 show ?thesis by (cases "map_of es x"; cases "z = x") (simp_all add: update_conv')
  qed
qed simp_all

lemma entry_tput:
  assumes "l \<noteq> []" and "is_dirn (tget t (butlast l))" and "\<not> prefix l q"
  shows "entry_in (tput t l n) q = entry_in t q"
proof (cases "l \<parallel> q")
  case True
  then show ?thesis by (intro entry_same nt.get_put_par)
next
  case False
  with assms(3) have above: "strict_prefix q l" by (auto simp: strict_prefix_def parallel_def)
  moreover have "dir_above t l" using assms(1,2) by (simp add: dir_above_def)
  ultimately show ?thesis
    using nt.dir_put_above[OF above assms(2)] dir_above_prefix by (simp add: entry_dir)
qed

lemma entry_tdels: "\<forall>m \<in> set ls. \<not> prefix m q \<Longrightarrow> entry_in (foldl tdel t ls) q = entry_in t q"
  by (induction ls arbitrary: t) (simp_all add: entry_tdel)

lemma entry_move:
  assumes "\<not> prefix l q" and "\<not> prefix L q" and "is_dirn (tget t (butlast L))" and "l \<parallel> L" and "L \<noteq> []"
  shows "entry_in (nt.move t l L) q = entry_in t q"
proof (cases "tget t l")
  case None
  then show ?thesis by (simp add: nt.move_def)
next
  case (Some n)
  have "is_dirn (tget (tdel t l) (butlast L))" by (rule nt.parent_dir_del[OF assms(4,5,3)])
  then show ?thesis using Some entry_tput[OF assms(5) _ assms(2)] entry_tdel[OF assms(1)] by (simp add: nt.move_def)
qed

end
