(* ===== verification/Upload_Open.thy ===== *)
theory Upload_Open
  imports Upload_Start Dir_Laws
begin

text \<open>
  \<open>open\<close> of \<open>AutoMkcolFs\<close> for an atomic \<open>PUT\<close>: when it returns a file, an upload has started (in
  the sense of \<open>Uploads\<close>), and nothing else has changed but directories that were added.
\<close>

lemma ensure_parent_grows:
  assumes "ensure_parent L a p w = (r, v)" and "env_ok w"
  shows "grows w v"
  using assms create_dir_all_grows[of "path_join (af_root a) (parent_rel_ospath p)" w]
  by (auto simp: ensure_parent_def Let_def split: if_splits prod.splits sum.splits)

definition atomic_put :: "auto_fs \<Rightarrow> open_options \<Rightarrow> bool" where
  "atomic_put a oo \<longleftrightarrow> af_atomic_writes a \<and> oo_write oo \<and> oo_create oo \<and> oo_truncate oo"

text \<open>What \<open>open\<close> did when it returned an atomic file.\<close>

lemma af_open_atomic:
  assumes "af_open L sv inner a p oo w = (Inr (Atomic f), v)" and "atomic_put a oo"
  obtains w1 w3 temp lt where
    "ensure_parent L a p w = (Inr (), w1)" "fs w3 = fs w1" "cwd w3 = cwd w1"
    "create_temp L (case path_parent (fspath a p) of Some q \<Rightarrow> q | None \<Rightarrow> af_root a) (fspath a p) w3 = (Inr (temp, lt), v)"
    "f = atomic_new temp (fspath a p) (oo_size oo) (oo_checksum oo) lt (af_fsync a)"
proof -
  have c: "af_atomic_writes a" "oo_write oo" "oo_create oo" "oo_truncate oo"
    using assms(2) by (auto simp: atomic_put_def)
  obtain r1 w1 where e: "ensure_parent L a p w = (r1, w1)" by fastforce
  with assms(1) c obtain u where r1: "r1 = Inr u" by (cases r1) (auto simp: af_open_def)
  obtain x w2 where ex: "(if oo_create_new oo then path_exists (fspath a p) w1 else (False, w1)) = (x, w2)" by fastforce
  have q2: "fs w2 = fs w1 \<and> cwd w2 = cwd w1"
    using ex path_exists_query[of "fspath a p" w1] by (auto split: if_splits)
  have x: "x = False" using assms(1) c e r1 ex by (cases x) (auto simp: af_open_def Let_def)
  obtain d w3 where dr: "path_is_dir (fspath a p) w2 = (d, w3)" by fastforce
  note q3 = path_is_dir_query[OF dr]
  have d: "d = False" using assms(1) c e r1 ex x dr by (cases d) (auto simp: af_open_def Let_def)
  obtain r4 w4 where ct: "create_temp L (case path_parent (fspath a p) of Some q \<Rightarrow> q | None \<Rightarrow> af_root a) (fspath a p) w3 = (r4, w4)"
    by fastforce
  obtain temp lt where r4: "r4 = Inr (temp, lt)" "v = w4"
    "f = atomic_new temp (fspath a p) (oo_size oo) (oo_checksum oo) lt (af_fsync a)"
    using assms(1) c e r1 ex x dr d ct
    by (cases r4) (auto simp: af_open_def Let_def split: if_splits prod.splits)
  show thesis
  proof (rule that)
    show "ensure_parent L a p w = (Inr (), w1)" using e r1 by simp
    show "fs w3 = fs w1" "cwd w3 = cwd w1" using q2 q3 by simp_all
  qed (use ct r4 in auto)
qed

text \<open>C17 When \<open>open\<close> answers an atomic PUT with a file, an upload to the requested path has begun: its
  temporary file is new, empty, next to the target, and is the only file that has changed; the
  announced length and checksum are those of the request.\<close>

theorem open_starts_upload:
  assumes "af_open L sv inner a p oo w = (Inr (Atomic f), v)" and "atomic_put a oo" and "env_ok w"
    and "fspath a p = path_join dir name" and "path_parent (fspath a p) = Some dir" and "dir \<noteq> []" and "plain_name name"
    and "resolve False (snd (ensure_parent L a p w)) (fspath a p) = Inr lg"
    and "skel_of (tget (fs (snd (ensure_parent L a p w))) lg) = SLeaf"
  shows "\<exists>lt c i. uploading lt lg f [] v \<and> lg = c @ [name] \<and> lt = c @ [temp_name name i] \<and> i < 16 \<and>
    files (fs w) lt = None \<and> (\<forall>q. q \<noteq> lt \<longrightarrow> files (fs v) q = files (fs w) q) \<and>
    a_expected_size f = oo_size oo \<and> a_checksum f = oo_checksum oo"
proof -
  obtain w1 w3 temp lt where o: "ensure_parent L a p w = (Inr (), w1)" "fs w3 = fs w1" "cwd w3 = cwd w1"
    "create_temp L (case path_parent (fspath a p) of Some q \<Rightarrow> q | None \<Rightarrow> af_root a) (fspath a p) w3 = (Inr (temp, lt), v)"
    "f = atomic_new temp (fspath a p) (oo_size oo) (oo_checksum oo) lt (af_fsync a)"
    using af_open_atomic[OF assms(1,2)] .
  have g: "grows w w1" using ensure_parent_grows[OF o(1) assms(3)] .
  then have e3: "env_ok w3" using grows_env[OF g assms(3)] o(2,3) by (simp add: env_ok_def)
  have r3: "resolve False w3 (path_join dir name) = Inr lg"
    using assms(4,8) o(1-3) by (auto simp: resolve_def split: if_splits)
  have l3: "skel_of (tget (fs w3) lg) = SLeaf" using assms(9) o(1,2) by simp
  have ct: "create_temp L dir (path_join dir name) w3 = (Inr (temp, lt), v)"
    using o(4) assms(4,5) by simp
  note c = create_temp_uploading[OF ct e3 assms(7,6) r3 l3]
  obtain c' k where l: "k < 16" "lg = c' @ [name]" "lt = c' @ [temp_name name k]" using c(4) by blast
  have w: "files (fs w3) = files (fs w)" using g o(2) by (simp add: grows_def)
  have "files (fs v) q = files (fs w) q" if "q \<noteq> lt" for q using c(2) that w by (simp add: only_file_def)
  moreover have "uploading lt lg f [] v" using c(1) o(5) assms(4) by simp
  ultimately show ?thesis using l c(3) w o(5) by (auto simp: atomic_new_def)
qed

text \<open>An instance: a PUT to a directory that does not exist yet.\<close>

definition sample_fs :: auto_fs where
  "sample_fs = \<lparr>af_root = ''/dst'', af_create_parents = True, af_atomic_writes = True, af_fsync = False\<rparr>"

definition sample_path :: dav_path where
  "sample_path = \<lparr>rel_ospath = ''new/f'', parent_rel_ospath = ''new''\<rparr>"

definition sample_options :: open_options where
  "sample_options = \<lparr>oo_read = False, oo_write = True, oo_append = False, oo_truncate = True, oo_create = True,
     oo_create_new = True, oo_size = Some 3, oo_checksum = None\<rparr>"

definition sample_open :: "(fs_error + unit dav_file) \<times> world" where
  "sample_open = af_open sample_libs (\<lambda>p. Inl (Os ENOENT)) (\<lambda>p oo w. (Inl Forbidden, w))
     sample_fs sample_path sample_options sample_world"

lemma open_starts_upload_witness:
  "\<exists>f v lt. sample_open = (Inr (Atomic f), v) \<and> uploading lt [''dst'', ''new'', ''f''] f [] v \<and> a_expected_size f = Some 3"
proof -
  have "case fst sample_open of Inr (Atomic f) \<Rightarrow> True | _ \<Rightarrow> False" by code_simp
  then obtain f where "fst sample_open = Inr (Atomic f)"
    by (auto split: sum.splits dav_file.splits)
  then obtain v where fv: "sample_open = (Inr (Atomic f), v)" by (metis prod.collapse)
  have h: "atomic_put sample_fs sample_options" "fspath sample_fs sample_path = path_join ''/dst/new'' ''f''"
    "path_parent (fspath sample_fs sample_path) = Some ''/dst/new''" "plain_name ''f''"
    "resolve False (snd (ensure_parent sample_libs sample_fs sample_path sample_world)) (fspath sample_fs sample_path)
       = Inr [''dst'', ''new'', ''f'']"
    "skel_of (tget (fs (snd (ensure_parent sample_libs sample_fs sample_path sample_world))) [''dst'', ''new'', ''f'']) = SLeaf"
    by code_simp+
  show ?thesis
    using open_starts_upload[OF fv[unfolded sample_open_def] h(1) sample_env_ok h(2,3) _ h(4-6)] fv
    by (auto simp: sample_options_def)
qed

section \<open>An upload that is refused\<close>

lemma file_create_new_error:
  assumes "file_create_new q m w = (Inl e, v)"
  shows "fs v = fs w \<and> cwd v = cwd w"
  using assms unfolding file_create_new_def
  by (cases rule: sys_cases) (auto split: sum.splits if_splits)

lemma try_temps_error: "try_temps L is dir name w = (Inl e, v) \<Longrightarrow> fs v = fs w \<and> cwd v = cwd w"
proof (induction "is" arbitrary: w)
  case (Cons i "is")
  obtain r w1 where c: "file_create_new (path_join dir (temp_name name i)) 0x1A4 w = (r, w1)" by fastforce
  with Cons.prems obtain x where x: "r = Inl x" by (cases r) (auto simp: Let_def)
  have q: "fs w1 = fs w \<and> cwd w1 = cwd w" using file_create_new_error c x by blast
  show ?case
  proof (cases "kind_of x = AlreadyExists")
    case True
    with Cons.prems c x have "try_temps L is dir name w1 = (Inl e, v)" by (simp add: Let_def)
    from Cons.IH[OF this] q show ?thesis by simp
  next
    case False
    with Cons.prems c x q show ?thesis by (simp add: Let_def)
  qed
qed simp

text \<open>C18 A refused upload leaves no trace: when \<open>open\<close> answers an atomic PUT with an error, whatever
  faults occurred, every file is as it was and at most missing parent directories have been made; and
  without faults a PUT that must create its target is refused with \<open>Exists\<close> when the target exists, one
  to a directory with \<open>Forbidden\<close>, and one larger than the free space with \<open>InsufficientStorage\<close>.\<close>

theorem open_refused:
  assumes "atomic_put a oo" and "env_ok w" and "ensure_parent L a p w = (r, w1)"
    and "af_open L sv inner a p oo w = (res, v)"
  shows "(\<forall>e. res = Inl e \<longrightarrow> grows w v) \<and>
    (faults w1 = [] \<and> r = Inr () \<longrightarrow>
      (let there = node_at True w1 (fspath a p);
           dir = (case path_parent (fspath a p) of Some q \<Rightarrow> q | None \<Rightarrow> af_root a)
       in if oo_create_new oo \<and> \<not> isl there then res = Inl Exists
          else if (\<exists>es. there = Inr (Dir es)) then res = Inl Forbidden
          else (\<exists>size free. oo_size oo = Some size \<and> free_space sv dir = Inr free \<and> free < size) \<longrightarrow>
            res = Inl InsufficientStorage))"
proof -
  have c: "af_atomic_writes a" "oo_write oo" "oo_create oo" "oo_truncate oo"
    using assms(1) by (auto simp: atomic_put_def)
  let ?t = "fspath a p"
  have g: "grows w w1" using ensure_parent_grows[OF assms(3,2)] .
  obtain x w2 where ex: "(if oo_create_new oo then path_exists ?t w1 else (False, w1)) = (x, w2)" by fastforce
  obtain d w3 where dr: "path_is_dir ?t w2 = (d, w3)" by fastforce
  have q: "fs w2 = fs w1 \<and> cwd w2 = cwd w1" "fs w3 = fs w2 \<and> cwd w3 = cwd w2"
    using ex path_exists_query[of ?t w1] path_is_dir_query[OF dr] by (auto split: if_splits)
  have "grows w v" if e: "res = Inl e" for e
  proof -
    have "v = w1 \<or> v = w2 \<or> v = w3 \<or> (\<exists>dir name. create_temp L dir name w3 = (Inl e, v))"
      using assms(3,4) c ex dr e by (cases r; cases x; cases d) (auto simp: af_open_def Let_def split: if_splits sum.splits prod.splits)
    then have "fs v = fs w1 \<and> cwd v = cwd w1"
      using q try_temps_error by (fastforce simp: create_temp_def)
    with g show ?thesis by (simp add: grows_def)
  qed
  moreover have "let there = node_at True w1 ?t; dir = (case path_parent ?t of Some q \<Rightarrow> q | None \<Rightarrow> af_root a)
       in if oo_create_new oo \<and> \<not> isl there then res = Inl Exists
          else if (\<exists>es. there = Inr (Dir es)) then res = Inl Forbidden
          else (\<exists>size free. oo_size oo = Some size \<and> free_space sv dir = Inr free \<and> free < size) \<longrightarrow>
            res = Inl InsufficientStorage" if n: "faults w1 = []" "r = Inr ()"
  proof -
    have e: "x = (oo_create_new oo \<and> \<not> isl (node_at True w1 ?t))" "w2 = w1"
      using ex n(1) by (auto simp: path_exists_def metadata_def sys_simps split: if_splits)
    have f: "d = (\<exists>es. node_at True w1 ?t = Inr (Dir es))" "w3 = w1"
      using dr n(1) e(2) by (auto simp: path_is_dir_def metadata_def sys_simps split: sum.splits node.splits)
    show ?thesis
      using assms(3,4) c ex dr n(2) e f
      by (cases x; cases d) (auto simp: af_open_def Let_def split: option.splits sum.splits)
  qed
  ultimately show ?thesis by blast
qed

text \<open>An instance: \<open>If-None-Match: *\<close> on a file that exists.\<close>

definition taken_path :: dav_path where
  "taken_path = \<lparr>rel_ospath = ''src/a.txt'', parent_rel_ospath = ''src''\<rparr>"

definition taken_fs :: auto_fs where
  "taken_fs = \<lparr>af_root = ''/'', af_create_parents = True, af_atomic_writes = True, af_fsync = False\<rparr>"

lemma open_refused_witness:
  "\<exists>v. af_open sample_libs (\<lambda>p. Inl (Os ENOENT)) (\<lambda>p oo w. (Inl Forbidden, w) :: (fs_error + unit) \<times> world)
     taken_fs taken_path sample_options sample_world = (Inl Exists, v) \<and> grows sample_world v"
proof -
  define r where "r = af_open sample_libs (\<lambda>p. Inl (Os ENOENT)) (\<lambda>p oo w. (Inl Forbidden, w) :: (fs_error + unit) \<times> world)
     taken_fs taken_path sample_options sample_world"
  obtain x w1 where e: "ensure_parent sample_libs taken_fs taken_path sample_world = (x, w1)" by fastforce
  have "fst (ensure_parent sample_libs taken_fs taken_path sample_world) = Inr ()"
    "faults (snd (ensure_parent sample_libs taken_fs taken_path sample_world)) = []"
    "\<not> isl (node_at True (snd (ensure_parent sample_libs taken_fs taken_path sample_world)) (fspath taken_fs taken_path))"
    by code_simp+
  then have h: "x = Inr ()" "faults w1 = []" "\<not> isl (node_at True w1 (fspath taken_fs taken_path))" using e by simp_all
  have a: "atomic_put taken_fs sample_options" "oo_create_new sample_options" by code_simp+
  obtain res v where v: "r = (res, v)" by fastforce
  from open_refused[OF a(1) sample_env_ok e v[unfolded r_def]] h a(2) have "res = Inl Exists" "grows sample_world v"
    by (simp_all add: Let_def)
  with v show ?thesis unfolding r_def by blast
qed

end
