(* ===== verification/Json.thy ===== *)
theory Json
  imports Prelude
begin

text \<open>
  \<open>serde_json::Value\<close> as the programs use it: built by \<open>json!\<close>, read by \<open>get\<close> and \<open>as_str\<close>.
  Parsing and printing are the crate's; they are parameters of the components that call them.
  An object is its list of members; the code looks at it through \<open>get\<close> only.
\<close>

datatype number = PosInt u64 | NegInt u64 | Float u64

datatype json = JNull | JBool bool | JNumber number | JString string | JArray "json list"
  | JObject "(string \<times> json) list"

abbreviation JU64 :: "u64 \<Rightarrow> json" where "JU64 n \<equiv> JNumber (PosInt n)"

definition json_get :: "string \<Rightarrow> json \<Rightarrow> json option" where
  "json_get k v = (case v of JObject ms \<Rightarrow> map_of ms k | _ \<Rightarrow> None)"

definition as_str :: "json \<Rightarrow> string option" where
  "as_str v = (case v of JString s \<Rightarrow> Some s | _ \<Rightarrow> None)"

text \<open>\<open>v[k]\<close>, which is null where there is no such member, and the handlers' \<open>v.get(k).and_then(as_str).unwrap_or("")\<close>.\<close>

definition json_index :: "json \<Rightarrow> string \<Rightarrow> json" where
  "json_index v k = (case json_get k v of None \<Rightarrow> JNull | Some x \<Rightarrow> x)"

definition str_field :: "string \<Rightarrow> json \<Rightarrow> string" where
  "str_field k v = (case Option.bind (json_get k v) as_str of None \<Rightarrow> [] | Some s \<Rightarrow> s)"

definition jopt :: "string option \<Rightarrow> json" where
  "jopt s = (case s of None \<Rightarrow> JNull | Some x \<Rightarrow> JString x)"

lemma json_get_simps [simp]: "json_get k (JObject ms) = map_of ms k" "as_str (JString s) = Some s"
  by (simp_all add: json_get_def as_str_def)

lemma str_field_object [simp]:
  "str_field k (JObject ms) = (case map_of ms k of Some (JString s) \<Rightarrow> s | _ \<Rightarrow> [])"
  by (simp add: str_field_def as_str_def split: option.splits json.splits)

end
