(* ===== verification/Mover_Paths.thy ===== *)
theory Mover_Paths
  imports Syscall_Laws Json "HOL-Library.List_Lexorder" "HOL-Library.Char_ord"
begin

text \<open>
  The path and listing helpers of \<open>src/bin/file-mover.rs\<close>: query strings, WebDAV URLs, directory
  listings, the choice of a destination, drives, and search queries.

  The crates and the environment the mover reads are the fields of \<open>mover_env\<close>: the text of an
  I/O error, Unicode lower case, percent decoding, JSON, modification times, the variables
  \<open>HOME\<close> and \<open>NZK_WEBDAVS_URL_A/B\<close>.  File names are UTF-8, so \<open>to_string_lossy\<close> is the identity.
\<close>

record mover_env =
  io_text :: "io_error \<Rightarrow> string"
  lowercase :: "string \<Rightarrow> string"
  pct_decode :: "string \<Rightarrow> string"
  json_text :: "json \<Rightarrow> string"
  json_parse :: "string \<Rightarrow> string + json"
  mtime_secs :: "path \<Rightarrow> u64"
  env_home :: "string option"
  env_url_a :: "string option"
  env_url_b :: "string option"

section \<open>Roots, queries and URLs\<close>

definition home :: "mover_env \<Rightarrow> path" where
  "home E = (case env_home E of Some h \<Rightarrow> h | None \<Rightarrow> ''/'')"

definition roots :: "mover_env \<Rightarrow> path \<times> path" where
  "roots E = (path_join (home E) ''webdav'', path_join (home E) ''webdav-local'')"

definition parse_pair :: "mover_env \<Rightarrow> string \<Rightarrow> string \<times> string" where
  "parse_pair E pair =
     (case split_once (CHR ''='') pair of
        None \<Rightarrow> (pct_decode E pair, pct_decode E [])
      | Some (k, v) \<Rightarrow> (pct_decode E k, pct_decode E v))"

definition parse_query :: "mover_env \<Rightarrow> string \<Rightarrow> string \<rightharpoonup> string" where
  "parse_query E q =
     foldl (\<lambda>m pair. if pair = [] then m else m(fst (parse_pair E pair) \<mapsto> snd (parse_pair E pair)))
       Map.empty (split_on (CHR ''&'') q)"

definition webdav_url_to_path :: "mover_env \<Rightarrow> string \<Rightarrow> path option" where
  "webdav_url_to_path E url =
     (case (case strip_prefix ''webdavs://'' url of
              Some r \<Rightarrow> Some r
            | None \<Rightarrow> strip_prefix ''webdav://'' url) of
        None \<Rightarrow> None
      | Some rest \<Rightarrow>
          (let after_at = last (split_on (CHR ''@'') rest);
               ap = (case split_once slash after_at of
                       Some (a, p) \<Rightarrow> (a, slash # p)
                     | None \<Rightarrow> (after_at, []));
               parts = split_on (CHR '':'') (fst ap);
               host = hd parts;
               port = (if 1 < length parts then parts ! 1 else []);
               hostport = host @ '':'' @ port;
               url_a = (case env_url_a E of Some u \<Rightarrow> u | None \<Rightarrow> ''192.0.2.1:51337'');
               url_b = (case env_url_b E of Some u \<Rightarrow> u | None \<Rightarrow> ''192.0.2.2:51337'');
               tail = dropWhile (\<lambda>c. c = slash) (snd ap)
           in if hostport = url_a then Some (path_join (fst (roots E)) tail)
              else if hostport = url_b then Some (path_join (snd (roots E)) tail)
              else None))"

definition resolve_path :: "mover_env \<Rightarrow> string \<Rightarrow> path" where
  "resolve_path E p =
     (if prefix ''webdav://'' p \<or> prefix ''webdavs://'' p
      then (case webdav_url_to_path E p of Some r \<Rightarrow> r | None \<Rightarrow> p)
      else p)"

section \<open>Listings\<close>

text \<open>\<open>read_dir(..)?.flatten()\<close>: an error from the stream of entries also ends it.\<close>

fun flat_entries :: "(string \<times> node) list \<Rightarrow> world \<Rightarrow> (string \<times> node) list \<times> world" where
  "flat_entries [] w = ([], w)"
| "flat_entries (e # es) w =
     (case next_entry e w of
        (Inl x, w1) \<Rightarrow> ([], w1)
      | (Inr e1, w1) \<Rightarrow> (case flat_entries es w1 of (r, w2) \<Rightarrow> (e1 # r, w2)))"

definition entry_json :: "string \<Rightarrow> node \<Rightarrow> u64 \<Rightarrow> json" where
  "entry_json name md mt =
     JObject [(''name'', JString name),
              (''is_dir'', JBool (is_dirn (Some md))),
              (''size'', JU64 (if is_dirn (Some md) then 0 else of_nat (node_len md))),
              (''mtime'', JU64 mt),
              (''link'', JBool (case md of Symlink l \<Rightarrow> True | _ \<Rightarrow> False))]"

fun entry_list :: "(path \<Rightarrow> u64) \<Rightarrow> path \<Rightarrow> string list \<Rightarrow> world \<Rightarrow> json list \<times> world" where
  "entry_list mt p [] w = ([], w)"
| "entry_list mt p (name # names) w =
     (case symlink_metadata (path_join p name) w of
        (Inl e, w1) \<Rightarrow> entry_list mt p names w1
      | (Inr md, w1) \<Rightarrow>
          (case entry_list mt p names w1 of
             (js, w2) \<Rightarrow> (entry_json name md (mt (path_join p name)) # js, w2)))"

definition list_entries :: "mover_env \<Rightarrow> path \<Rightarrow> json list io" where
  "list_entries E p w =
     (case read_dir p w of
        (Inl e, w1) \<Rightarrow> (Inl e, w1)
      | (Inr es, w1) \<Rightarrow>
          (case flat_entries es w1 of
             (es', w2) \<Rightarrow>
               (case entry_list (mtime_secs E) p (sort (map fst es')) w2 of
                  (js, w3) \<Rightarrow> (Inr js, w3))))"

section \<open>Destinations\<close>

definition dest_for :: "path \<Rightarrow> path \<Rightarrow> world \<Rightarrow> path \<times> world" where
  "dest_for src dst w =
     (case path_is_dir dst w of
        (True, w1) \<Rightarrow> (path_join dst (case path_file_name src of Some n \<Rightarrow> n | None \<Rightarrow> []), w1)
      | (False, w1) \<Rightarrow> (dst, w1))"

definition numbered :: "path \<Rightarrow> nat \<Rightarrow> path" where
  "numbered dst i =
     (let parent = (case path_parent dst of Some q \<Rightarrow> q | None \<Rightarrow> []);
          stem = (case path_file_stem dst of Some s \<Rightarrow> s | None \<Rightarrow> []);
          ext = (case path_extension dst of Some e \<Rightarrow> ''.'' @ e | None \<Rightarrow> [])
      in path_join parent (stem @ ''_'' @ show_nat i @ ext))"

fun free_from :: "nat list \<Rightarrow> path \<Rightarrow> world \<Rightarrow> path \<times> world" where
  "free_from [] dst w = (numbered dst 999, w)"
| "free_from (i # is) dst w =
     (case path_exists (numbered dst i) w of
        (True, w1) \<Rightarrow> free_from is dst w1
      | (False, w1) \<Rightarrow> (numbered dst i, w1))"

definition free_dst :: "path \<Rightarrow> world \<Rightarrow> path \<times> world" where
  "free_dst dst w =
     (case path_exists dst w of
        (False, w1) \<Rightarrow> (dst, w1)
      | (True, w1) \<Rightarrow> free_from [2..<1000] dst w1)"

definition target_path :: "path \<Rightarrow> path \<Rightarrow> path" where
  "target_path dst rel = (if rel = [] then dst else path_join dst rel)"

section \<open>Drives and search queries\<close>

fun path_drive :: "path list \<Rightarrow> path \<Rightarrow> comp option" where
  "path_drive [] p = None"
| "path_drive (m # ms) p =
     (case path_strip_prefix p m of
        Some rest \<Rightarrow> (case rest of [] \<Rightarrow> None | c # cs \<Rightarrow> Some c)
      | None \<Rightarrow> path_drive ms p)"

fun query_tokens :: "mover_env \<Rightarrow> string list \<Rightarrow> string list \<times> string list" where
  "query_tokens E [] = ([], [])"
| "query_tokens E (tok # toks) =
     (case query_tokens E toks of (subs, sfxs) \<Rightarrow>
        (let t = trim tok in
         if t = [] then (subs, sfxs)
         else case strip_prefix ''*.'' t of
                Some sfx \<Rightarrow> (subs, (''.'' @ lowercase E sfx) # sfxs)
              | None \<Rightarrow> (lowercase E t # subs, sfxs)))"

definition parse_search_query :: "mover_env \<Rightarrow> string \<Rightarrow> string \<times> string list" where
  "parse_search_query E q =
     (case query_tokens E (split_on (CHR '';'') q) of
        (subs, sfxs) \<Rightarrow> (join_with (CHR '' '') subs, sfxs))"

end
