(* ===== verification/Mover_Copy.thy ===== *)
theory Mover_Copy
  imports File_Laws Mover_Paths
begin

text \<open>
  \<open>copy_file\<close> of \<open>src/bin/file-mover.rs\<close> (and its copy in \<open>file-mover-sudo.rs\<close>): opening both
  files is \<open>copy_open\<close>, one turn of the loop is \<open>copy_chunk\<close>; the job workers interleave these
  steps, \<open>copy_file\<close> runs them in a row.
\<close>

section \<open>The two steps and the loop\<close>

record copier =
  c_src :: loc
  c_dst :: loc
  c_perm :: u32
  c_off :: nat

definition buf_len :: nat where "buf_len = 1024 * 1024"

text \<open>The metadata of an open handle; the permissions of anything but a regular file are not used.\<close>

definition handle_mode :: "loc \<Rightarrow> u32 io" where
  "handle_mode l = sys (\<lambda>w. (Inr (case files (fs w) l of Some d \<Rightarrow> fmode d | None \<Rightarrow> 0), fs w))"

definition copy_open :: "path \<Rightarrow> path \<Rightarrow> copier io" where
  "copy_open src dst w =
     (case file_open src w of
        (Inl e, w1) \<Rightarrow> (Inl e, w1)
      | (Inr r, w1) \<Rightarrow>
          (case file_create dst w1 of
             (Inl e, w2) \<Rightarrow> (Inl e, w2)
           | (Inr d, w2) \<Rightarrow>
               (case handle_mode r w2 of
                  (Inl e, w3) \<Rightarrow> (Inl e, w3)
                | (Inr perm, w3) \<Rightarrow> (Inr \<lparr>c_src = r, c_dst = d, c_perm = perm, c_off = 0\<rparr>, w3))))"

text \<open>
  Reading into the buffer.  The code equation is for evaluation: a short rest of a file is
  returned without counting to the length of the buffer.
\<close>

definition read_buf :: "loc \<Rightarrow> nat \<Rightarrow> bytes io" where
  "read_buf l off = read_at l off buf_len"

lemma take_buf: "take buf_len xs = (if drop 8 xs = [] then xs else take buf_len xs)"
  by (simp add: buf_len_def)

lemma read_buf_code [code]:
  "read_buf l off = sys (\<lambda>w. (case tget (fs w) l of
       Some (File d) \<Rightarrow> Inr (let r = drop off (fbytes d) in if drop 8 r = [] then r else take buf_len r)
     | Some (Dir es) \<Rightarrow> Inl (Os EISDIR)
     | _ \<Rightarrow> Inr [], fs w))"
  unfolding read_buf_def read_at_def Let_def by (subst take_buf) (rule refl)

text \<open>\<open>Inr None\<close>: the source is at its end, the permissions are set (or not), the copy is done.\<close>

definition copy_chunk :: "copier \<Rightarrow> copier option io" where
  "copy_chunk c w =
     (case read_buf (c_src c) (c_off c) w of
        (Inl e, w1) \<Rightarrow> (Inl e, w1)
      | (Inr buf, w1) \<Rightarrow>
          if buf = [] then (Inr None, snd (set_mode (c_dst c) (c_perm c) w1))
          else (case write_all (c_dst c) (c_off c) buf w1 of
                  (Inl e, w2) \<Rightarrow> (Inl e, w2)
                | (Inr u, w2) \<Rightarrow> (Inr (Some (c\<lparr>c_off := c_off c + length buf\<rparr>)), w2)))"

text \<open>
  The loop ends although source and destination may be one file: what is left to read is what
  the source has beyond the offset, and a chunk written at the offset it was read from does not
  make a file longer.
\<close>

definition left_to_read :: "copier \<Rightarrow> world \<Rightarrow> nat" where
  "left_to_read c w = (case files (fs w) (c_src c) of Some d \<Rightarrow> length (fbytes d) - c_off c | None \<Rightarrow> 0)"

lemma map_file_files_any: "files (map_file f l t) = (files t)(l := map_option f (files t l))"
proof (cases "files t l")
  case None
  then have "map_file f l t = t"
    by (auto simp: map_file_def files_def split: option.splits node.splits)
  with None show ?thesis by (simp add: fun_upd_idem)
next
  case (Some d)
  then have g: "tget t l = Some (File d)" by (simp add: files_Some)
  then have m: "map_file f l t = tput t l (File (f d))" by (simp add: map_file_def)
  show ?thesis
  proof (cases "l = []")
    case True
    with g have t: "t = File d" by simp
    show ?thesis
    proof
      fix q
      show "files (map_file f l t) q = ((files t)(l := map_option f (files t l))) q"
        using True t m by (cases q) (simp_all add: files_def)
    qed
  next
    case False
    with m Some tget_parent_dir[OF g] show ?thesis by (simp add: files_put_file files_leaf)
  qed
qed

lemma length_store_at: "length (store_at off data old) = max (length old) (off + length data)"
  by (simp add: store_at_def)

lemma write_once_files:
  assumes "write_once l off data w = (r, v)"
  shows "\<exists>k. files (fs v) = (files (fs w))(l := map_option (fbytes_update (store_at off (take k data))) (files (fs w) l))
     \<or> files (fs v) = files (fs w)"
proof (cases "\<exists>k rest. faults w = ShortWrite k # rest")
  case True
  then obtain k rest where "faults w = ShortWrite k # rest" by blast
  with assms have "files (fs v) = (files (fs w))(l := map_option (fbytes_update (store_at off (take k data))) (files (fs w) l))"
    by (auto simp: write_once_def map_file_files_any)
  then show ?thesis by blast
next
  case False
  then have "sys (\<lambda>w. (Inr (length data), map_file (fbytes_update (store_at off data)) l (fs w))) w = (r, v)"
    using assms by (auto simp: write_once_def split: list.splits fault.splits)
  then show ?thesis
  proof (cases rule: sys_cases)
    case (run t)
    then have "files (fs v) = (files (fs w))(l := map_option (fbytes_update (store_at off (take (length data) data))) (files (fs w) l))"
      by (auto simp: map_file_files_any)
    then show ?thesis by blast
  qed simp
qed

text \<open>Writing inside a file does not make it longer, and leaves the other files alone.\<close>

definition no_longer :: "loc \<Rightarrow> world \<Rightarrow> world \<Rightarrow> bool" where
  "no_longer s w v \<longleftrightarrow>
     (case files (fs w) s of
        None \<Rightarrow> files (fs v) s = None
      | Some d \<Rightarrow> \<exists>d'. files (fs v) s = Some d' \<and> length (fbytes d') = length (fbytes d))"

lemma no_longer_trans: "no_longer s w v \<Longrightarrow> no_longer s v u \<Longrightarrow> no_longer s w u"
  by (auto simp: no_longer_def split: option.splits)

definition fits :: "loc \<Rightarrow> nat \<Rightarrow> loc \<Rightarrow> world \<Rightarrow> bool" where
  "fits l n s w \<longleftrightarrow> (l = s \<longrightarrow> (\<forall>d. files (fs w) s = Some d \<longrightarrow> n \<le> length (fbytes d)))"

lemma write_once_no_longer:
  assumes "write_once l off data w = (r, v)" and "fits l (off + length data) s w"
  shows "no_longer s w v"
  using write_once_files[OF assms(1)] assms(2)
  by (cases "l = s") (auto simp: no_longer_def fits_def length_store_at max_def split: option.splits)

lemma write_once_count: "write_once l off data w = (Inr n, v) \<Longrightarrow> n \<le> length data"
  by (auto simp: write_once_def sys_def run_call_def split: list.splits fault.splits)

lemma write_all_no_longer:
  assumes "write_all l off data w = (r, v)" and "fits l (off + length data) s w"
  shows "no_longer s w v"
  using assms
proof (induction l off data w rule: write_all.induct)
  case (1 l off data w)
  show ?case
  proof (cases "data = []")
    case True
    with "1.prems" show ?thesis by (auto simp: write_all.simps no_longer_def split: option.splits)
  next
    case False
    obtain r1 w1 where w1: "write_once l off data w = (r1, w1)" by fastforce
    note n1 = write_once_no_longer[OF w1 "1.prems"(2)]
    show ?thesis
    proof (cases "\<exists>n. r1 = Inr n \<and> n \<noteq> 0")
      case True
      then obtain n where n: "r1 = Inr n" "n \<noteq> 0" by blast
      with False w1 "1.prems"(1) have wa: "write_all l (off + n) (drop n data) w1 = (r, v)"
        by (subst (asm) write_all.simps) simp
      have "fits l (off + n + length (drop n data)) s w1"
        using "1.prems"(2) n1 write_once_count[of l off data w n w1] w1 n(1)
        by (auto simp: fits_def no_longer_def split: option.splits)
      from "1.IH"[OF False w1[symmetric] n wa this] n1 show ?thesis by (blast intro: no_longer_trans)
    next
      case stop: False
      with False w1 "1.prems"(1) have "v = w1"
        by (subst (asm) write_all.simps) (auto split: sum.splits if_splits)
      with n1 show ?thesis by simp
    qed
  qed
qed

lemma copy_chunk_progress:
  assumes "copy_chunk c w = (Inr (Some c'), v)"
  shows "left_to_read c' v < left_to_read c w"
proof -
  obtain buf w1 where r: "read_at (c_src c) (c_off c) buf_len w = (Inr buf, w1)" "buf \<noteq> []"
    and wa: "write_all (c_dst c) (c_off c) buf w1 = (Inr (), v)"
    and c': "c' = c\<lparr>c_off := c_off c + length buf\<rparr>"
    using assms by (auto simp: copy_chunk_def read_buf_def split: prod.splits sum.splits if_splits)
  note ra = read_at_cases[OF r(1)]
  obtain d where d: "files (fs w) (c_src c) = Some d" "buf = take buf_len (drop (c_off c) (fbytes d))"
    using ra(3) r(2) by (auto split: option.splits)
  have len: "c_off c + length buf \<le> length (fbytes d)" "0 < length buf"
    using d(2) r(2) by auto
  have "fits (c_dst c) (c_off c + length buf) (c_src c) w1"
    using d len ra by (simp add: fits_def)
  from write_all_no_longer[OF wa this] ra(1) d(1)
  obtain d' where "files (fs v) (c_src c) = Some d'" "length (fbytes d') = length (fbytes d)"
    by (auto simp: no_longer_def)
  with d(1) len(1) c' show ?thesis using len(2) by (simp add: left_to_read_def del: length_greater_0_conv)
qed

function copy_loop :: "copier \<Rightarrow> u64 io" where
  "copy_loop c w =
     (case copy_chunk c w of
        (Inl e, w1) \<Rightarrow> (Inl e, w1)
      | (Inr None, w1) \<Rightarrow> (Inr (of_nat (c_off c)), w1)
      | (Inr (Some c1), w1) \<Rightarrow> copy_loop c1 w1)"
  by pat_completeness auto
termination
  by (relation "measure (\<lambda>(c, w). left_to_read c w)") (auto intro: copy_chunk_progress)

declare copy_loop.simps [simp del]

definition copy_file :: "path \<Rightarrow> path \<Rightarrow> u64 io" where
  "copy_file src dst w =
     (case copy_open src dst w of
        (Inl e, w1) \<Rightarrow> (Inl e, w1)
      | (Inr c, w1) \<Rightarrow> copy_loop c w1)"

end
