(* ===== verification/Work_Pool.thy ===== *)
theory Work_Pool
  imports Main
begin

text \<open>
  The worker threads of \<open>run_job\<close> and \<open>run_delete_job\<close>: each takes the next index from a shared
  counter (\<open>fetch_add\<close>), works on that item in several steps, and stops when the counter has
  passed the end of the list.  A schedule says which worker moves next; it is arbitrary.

  \<open>work_pool\<close> is the rely-guarantee rule for such a pool: a client gives an assertion for an
  item before, during and after its processing, shows that the steps of one item establish them
  and that the steps of another item keep them, and gets the assertion of every item after the
  pool has stopped, for every schedule.
\<close>

datatype 'a worker = Fetch | Busy nat 'a | Exited

record ('a, 's) pool =
  p_next :: nat
  p_workers :: "'a worker list"
  p_state :: 's

definition worker_step ::
  "'a \<Rightarrow> (nat \<Rightarrow> 'a \<Rightarrow> 's \<Rightarrow> 'a option \<times> 's) \<Rightarrow> nat \<Rightarrow> nat \<Rightarrow> ('a, 's) pool \<Rightarrow> ('a, 's) pool" where
  "worker_step start step n k p =
     (if k < length (p_workers p) then
        (case p_workers p ! k of
           Fetch \<Rightarrow>
             p\<lparr>p_next := p_next p + 1,
               p_workers := (p_workers p)[k := if n \<le> p_next p then Exited else Busy (p_next p) start]\<rparr>
         | Busy i a \<Rightarrow>
             (case step i a (p_state p) of
                (Some b, s) \<Rightarrow> p\<lparr>p_workers := (p_workers p)[k := Busy i b], p_state := s\<rparr>
              | (None, s) \<Rightarrow> p\<lparr>p_workers := (p_workers p)[k := Fetch], p_state := s\<rparr>)
         | Exited \<Rightarrow> p)
      else p)"

definition run_pool ::
  "'a \<Rightarrow> (nat \<Rightarrow> 'a \<Rightarrow> 's \<Rightarrow> 'a option \<times> 's) \<Rightarrow> nat \<Rightarrow> nat list \<Rightarrow> ('a, 's) pool \<Rightarrow> ('a, 's) pool" where
  "run_pool start step n sched p = foldl (\<lambda>p k. worker_step start step n k p) p sched"

definition new_pool :: "nat \<Rightarrow> 's \<Rightarrow> ('a, 's) pool" where
  "new_pool m s = \<lparr>p_next = 0, p_workers = replicate m Fetch, p_state = s\<rparr>"

definition all_exited :: "('a, 's) pool \<Rightarrow> bool" where
  "all_exited p \<longleftrightarrow> (\<forall>x \<in> set (p_workers p). case x of Exited \<Rightarrow> True | _ \<Rightarrow> False)"

text \<open>\<open>available_parallelism().unwrap_or(4).clamp(1, 8)\<close>.\<close>

definition nthreads :: "nat option \<Rightarrow> nat" where
  "nthreads cpus = max 1 (min 8 (case cpus of Some n \<Rightarrow> n | None \<Rightarrow> 4))"

lemma nthreads_bounds: "1 \<le> nthreads c" "nthreads c \<le> 8"
  by (simp_all add: nthreads_def)

section \<open>Every index is taken once\<close>

definition busy :: "('a, 's) pool \<Rightarrow> nat \<Rightarrow> bool" where
  "busy p i \<longleftrightarrow> (\<exists>k < length (p_workers p). \<exists>a. p_workers p ! k = Busy i a)"

definition finished :: "nat \<Rightarrow> ('a, 's) pool \<Rightarrow> nat set" where
  "finished n p = {i. i < n \<and> i < p_next p \<and> \<not> busy p i}"

definition taken_once :: "nat \<Rightarrow> ('a, 's) pool \<Rightarrow> bool" where
  "taken_once n p \<longleftrightarrow>
     (\<forall>k i a. k < length (p_workers p) \<longrightarrow> p_workers p ! k = Busy i a \<longrightarrow> i < n \<and> i < p_next p) \<and>
     (\<forall>k l i a b. k < length (p_workers p) \<longrightarrow> l < length (p_workers p) \<longrightarrow>
        p_workers p ! k = Busy i a \<longrightarrow> p_workers p ! l = Busy i b \<longrightarrow> k = l) \<and>
     (\<forall>k. k < length (p_workers p) \<longrightarrow> p_workers p ! k = Exited \<longrightarrow> n \<le> p_next p)"

lemma taken_onceD:
  assumes "taken_once n p" and "k < length (p_workers p)"
  shows "p_workers p ! k = Busy i a \<Longrightarrow> i < n" and "p_workers p ! k = Busy i a \<Longrightarrow> i < p_next p"
    and "l < length (p_workers p) \<Longrightarrow> p_workers p ! k = Busy i a \<Longrightarrow> p_workers p ! l = Busy i b \<Longrightarrow> k = l"
    and "p_workers p ! k = Exited \<Longrightarrow> n \<le> p_next p"
  using assms unfolding taken_once_def by blast+

text \<open>The three moves of a worker.\<close>

lemma worker_step_cases:
  assumes "worker_step start step n k p = q"
  obtains (stay) "q = p"
  | (exit) "k < length (p_workers p)" "p_workers p ! k = Fetch" "n \<le> p_next p"
      "q = p\<lparr>p_next := p_next p + 1, p_workers := (p_workers p)[k := Exited]\<rparr>"
  | (take) "k < length (p_workers p)" "p_workers p ! k = Fetch" "p_next p < n"
      "q = p\<lparr>p_next := p_next p + 1, p_workers := (p_workers p)[k := Busy (p_next p) start]\<rparr>"
  | (go) i a b s where "k < length (p_workers p)" "p_workers p ! k = Busy i a"
      "step i a (p_state p) = (Some b, s)"
      "q = p\<lparr>p_workers := (p_workers p)[k := Busy i b], p_state := s\<rparr>"
  | (stop) i a s where "k < length (p_workers p)" "p_workers p ! k = Busy i a"
      "step i a (p_state p) = (None, s)"
      "q = p\<lparr>p_workers := (p_workers p)[k := Fetch], p_state := s\<rparr>"
proof (cases "k < length (p_workers p)")
  case True
  show thesis
  proof (cases "p_workers p ! k")
    case Fetch
    with True assms show thesis
      by (cases "n \<le> p_next p") (auto simp: worker_step_def intro: exit take)
  next
    case (Busy i a)
    with True assms show thesis
      by (cases "step i a (p_state p)"; cases "fst (step i a (p_state p))")
         (auto simp: worker_step_def intro: go stop)
  next
    case Exited
    with True assms show thesis by (intro stay) (simp add: worker_step_def)
  qed
qed (use assms stay in \<open>simp add: worker_step_def\<close>)

lemma new_pool_taken [simp]: "taken_once n (new_pool m s)"
  by (simp add: taken_once_def new_pool_def)

lemma new_pool_finished [simp]: "finished n (new_pool m s) = {}"
  by (simp add: finished_def new_pool_def)

lemma taken_once_update:
  assumes t: "taken_once n p" and k: "k < length (p_workers p)"
    and m: "p_next p \<le> m"
    and x: "case x of Fetch \<Rightarrow> True
            | Busy i a \<Rightarrow> i < n \<and> i < m \<and> (i = p_next p \<or> (\<exists>b. p_workers p ! k = Busy i b))
            | Exited \<Rightarrow> n \<le> m"
  shows "taken_once n (p\<lparr>p_next := m, p_workers := (p_workers p)[k := x], p_state := s\<rparr>)"
proof -
  have old: "i < n" "i < p_next p" if "l < length (p_workers p)" "p_workers p ! l = Busy i a" for l i a
    using taken_onceD(1,2)[OF t that(1)] that(2) by blast+
  have uniq: "l = k" if "l < length (p_workers p)" "p_workers p ! l = Busy i a" "x = Busy i b" for l i a b
  proof -
    have "i < p_next p" using old(2)[OF that(1,2)] .
    with x that(3) obtain b' where "p_workers p ! k = Busy i b'" by auto
    with taken_onceD(3)[OF t that(1) k that(2)] show ?thesis by blast
  qed
  have a: "i < n \<and> i < m" if "l < length (p_workers p)" "((p_workers p)[k := x]) ! l = Busy i a" for l i a
    using that x old[of l i a] m k by (cases "l = k") auto
  have b: "l = l'" if "l < length (p_workers p)" "l' < length (p_workers p)"
    "((p_workers p)[k := x]) ! l = Busy i c" "((p_workers p)[k := x]) ! l' = Busy i c'" for l l' i c c'
  proof (cases "l = k \<or> l' = k")
    case True
    then show ?thesis using that uniq k by (metis nth_list_update)
  next
    case False
    then show ?thesis using that taken_onceD(3)[OF t that(1,2)] by simp
  qed
  have c: "n \<le> m" if "l < length (p_workers p)" "((p_workers p)[k := x]) ! l = Exited" for l
    using that x k m taken_onceD(4)[OF t that(1)] by (cases "l = k") auto
  show ?thesis unfolding taken_once_def using a b c by simp
qed

lemma step_taken_once:
  assumes "taken_once n p" and "worker_step start step n k p = q"
  shows "taken_once n q"
  using assms(2)
proof (cases rule: worker_step_cases)
  case stay then show ?thesis using assms(1) by simp
next
  case exit
  then show ?thesis
    using taken_once_update[OF assms(1), of k "p_next p + 1" Exited "p_state p"] by simp
next
  case take
  then show ?thesis
    using taken_once_update[OF assms(1), of k "p_next p + 1" "Busy (p_next p) start" "p_state p"] by simp
next
  case (go i a b s)
  then show ?thesis
    using taken_once_update[OF assms(1), of k "p_next p" "Busy i b" s] taken_onceD(1,2)[OF assms(1), of k i a]
    by simp
next
  case (stop i a s)
  then show ?thesis using taken_once_update[OF assms(1), of k "p_next p" Fetch s] by simp
qed

lemma step_workers: "length (p_workers (worker_step start step n k p)) = length (p_workers p)"
  by (simp add: worker_step_def split: worker.splits prod.splits option.splits)

lemma run_workers: "length (p_workers (run_pool start step n sched p)) = length (p_workers p)"
  unfolding run_pool_def by (induction sched arbitrary: p) (auto simp: step_workers)

text \<open>How the set of finished items changes.\<close>

lemma busy_update:
  assumes "k < length (p_workers p)" and "p_workers q = (p_workers p)[k := x]"
  shows "busy q i \<longleftrightarrow>
    (\<exists>a. x = Busy i a) \<or> (\<exists>l < length (p_workers p). l \<noteq> k \<and> (\<exists>a. p_workers p ! l = Busy i a))"
  using assms by (auto simp: busy_def nth_list_update split: if_splits)

lemma busy_other:
  assumes "p_workers p ! k = Fetch"
  shows "(\<exists>l < length (p_workers p). l \<noteq> k \<and> (\<exists>a. p_workers p ! l = Busy j a)) \<longleftrightarrow> busy p j"
  using assms unfolding busy_def by (metis worker.distinct(1))

lemma finished_go:
  assumes "k < length (p_workers p)" and "p_workers p ! k = Busy i a"
  shows "finished n (p\<lparr>p_workers := (p_workers p)[k := Busy i b], p_state := s\<rparr>) = finished n p" (is "finished n ?q = _")
proof -
  have "p_workers ?q = (p_workers p)[k := Busy i b]" by simp
  from busy_update[OF assms(1) this] have "busy ?q j = busy p j" for j
    using assms by (auto simp: busy_def)
  then show ?thesis by (simp add: finished_def)
qed

lemma finished_take:
  assumes "taken_once n p" and "k < length (p_workers p)" and "p_workers p ! k = Fetch"
  shows "finished n (p\<lparr>p_next := p_next p + 1, p_workers := (p_workers p)[k := Busy (p_next p) c]\<rparr>) = finished n p"
    (is "finished n ?q = _")
proof -
  have "p_workers ?q = (p_workers p)[k := Busy (p_next p) c]" by simp
  from busy_update[OF assms(2) this] busy_other[OF assms(3)]
  have "busy ?q j \<longleftrightarrow> (\<exists>a. Busy (p_next p) c = Busy j a) \<or> busy p j" for j by simp
  then have "busy ?q j \<longleftrightarrow> p_next p = j \<or> busy p j" for j by simp
  moreover have "p_next ?q = p_next p + 1" by simp
  ultimately show ?thesis unfolding finished_def by (intro Collect_cong) (simp only: less_Suc_eq Suc_eq_plus1[symmetric], blast)
qed

lemma finished_exit:
  assumes "k < length (p_workers p)" and "p_workers p ! k = Fetch" and "n \<le> p_next p"
  shows "finished n (p\<lparr>p_next := p_next p + 1, p_workers := (p_workers p)[k := Exited]\<rparr>) = finished n p"
    (is "finished n ?q = _")
proof -
  have "p_workers ?q = (p_workers p)[k := Exited]" by simp
  from busy_update[OF assms(1) this] busy_other[OF assms(2)]
  have "busy ?q j \<longleftrightarrow> busy p j" for j by simp
  with assms(3) show ?thesis by (auto simp: finished_def)
qed

lemma finished_stop:
  assumes "taken_once n p" and "k < length (p_workers p)" and "p_workers p ! k = Busy i a"
  shows "finished n (p\<lparr>p_workers := (p_workers p)[k := Fetch], p_state := s\<rparr>) = insert i (finished n p)"
      (is "finished n ?q = _")
    and "i \<notin> finished n p"
proof -
  have w: "p_workers ?q = (p_workers p)[k := Fetch]" by simp
  have "l = k" if "l < length (p_workers p)" "p_workers p ! l = Busy i c" for l c
    using taken_onceD(3)[OF assms(1) that(1) assms(2) that(2)] assms(3) by blast
  then have "(\<exists>l < length (p_workers p). l \<noteq> k \<and> (\<exists>c. p_workers p ! l = Busy j c)) \<longleftrightarrow> j \<noteq> i \<and> busy p j" for j
    using assms(2,3) unfolding busy_def by (metis worker.inject)
  with busy_update[OF assms(2) w] have "busy ?q j \<longleftrightarrow> j \<noteq> i \<and> busy p j" for j by simp
  moreover have "i < n" "i < p_next p" using taken_onceD(1,2)[OF assms(1,2)] assms(3) by blast+
  moreover show "i \<notin> finished n p" using assms(2,3) by (auto simp: finished_def busy_def)
  ultimately show "finished n ?q = insert i (finished n p)" by (auto simp: finished_def)
qed

lemma finished_all:
  assumes "taken_once n p" and "all_exited p" and "p_workers p \<noteq> []"
  shows "finished n p = {..<n}"
proof -
  have "p_workers p ! 0 \<in> set (p_workers p)" using assms(3) by simp
  with assms(2) have "p_workers p ! 0 = Exited"
    unfolding all_exited_def by (cases "p_workers p ! 0") force+
  then have "n \<le> p_next p" using taken_onceD(4)[OF assms(1), of 0] assms(3) by simp
  moreover have "\<not> busy p i" for i
    using assms(2) unfolding busy_def all_exited_def by (force dest: nth_mem)
  ultimately show ?thesis by (auto simp: finished_def)
qed

section \<open>The rule for a pool\<close>

locale work_pool =
  fixes start :: 'a and step :: "nat \<Rightarrow> 'a \<Rightarrow> 's \<Rightarrow> 'a option \<times> 's" and n :: nat
    and inv :: "nat set \<Rightarrow> 's \<Rightarrow> bool"
    and before :: "nat \<Rightarrow> 's \<Rightarrow> bool" and during :: "nat \<Rightarrow> 'a \<Rightarrow> 's \<Rightarrow> bool" and after :: "nat \<Rightarrow> 's \<Rightarrow> bool"
  assumes begins: "inv F s \<Longrightarrow> i < n \<Longrightarrow> before i s \<Longrightarrow> during i start s"
    and goes: "inv F s \<Longrightarrow> i < n \<Longrightarrow> i \<notin> F \<Longrightarrow> during i a s \<Longrightarrow> step i a s = (Some b, t) \<Longrightarrow> during i b t \<and> inv F t"
    and stops: "inv F s \<Longrightarrow> i < n \<Longrightarrow> i \<notin> F \<Longrightarrow> during i a s \<Longrightarrow> step i a s = (None, t) \<Longrightarrow>
      after i t \<and> inv (insert i F) t"
    and before_stable: "inv F s \<Longrightarrow> i < n \<Longrightarrow> during i a s \<Longrightarrow> step i a s = (r, t) \<Longrightarrow> j < n \<Longrightarrow> j \<noteq> i \<Longrightarrow>
      before j s \<Longrightarrow> before j t"
    and during_stable: "inv F s \<Longrightarrow> i < n \<Longrightarrow> during i a s \<Longrightarrow> step i a s = (r, t) \<Longrightarrow> j < n \<Longrightarrow> j \<noteq> i \<Longrightarrow>
      during j b s \<Longrightarrow> during j b t"
    and after_stable: "inv F s \<Longrightarrow> i < n \<Longrightarrow> during i a s \<Longrightarrow> step i a s = (r, t) \<Longrightarrow> j < n \<Longrightarrow> j \<noteq> i \<Longrightarrow>
      after j s \<Longrightarrow> after j t"
begin

definition good :: "('a, 's) pool \<Rightarrow> bool" where
  "good p \<longleftrightarrow>
     taken_once n p \<and> inv (finished n p) (p_state p) \<and>
     (\<forall>i < n. p_next p \<le> i \<longrightarrow> before i (p_state p)) \<and>
     (\<forall>k i a. k < length (p_workers p) \<longrightarrow> p_workers p ! k = Busy i a \<longrightarrow> during i a (p_state p)) \<and>
     (\<forall>i \<in> finished n p. after i (p_state p))"

lemma goodD:
  assumes "good p"
  shows "taken_once n p" "inv (finished n p) (p_state p)"
    "\<And>i. i < n \<Longrightarrow> p_next p \<le> i \<Longrightarrow> before i (p_state p)"
    "\<And>k i a. k < length (p_workers p) \<Longrightarrow> p_workers p ! k = Busy i a \<Longrightarrow> during i a (p_state p)"
    "\<And>i. i \<in> finished n p \<Longrightarrow> after i (p_state p)"
  using assms by (auto simp: good_def)

text \<open>What a step of item \<open>i\<close> leaves of the assertions of the others.\<close>

lemma others:
  assumes g: "good p" and k: "k < length (p_workers p)" "p_workers p ! k = Busy i a"
    and st: "step i a (p_state p) = (r, s)"
  shows "j < n \<Longrightarrow> p_next p \<le> j \<Longrightarrow> before j s"
    and "l < length (p_workers p) \<Longrightarrow> l \<noteq> k \<Longrightarrow> p_workers p ! l = Busy j b \<Longrightarrow> during j b s"
    and "j \<in> finished n p \<Longrightarrow> after j s"
proof -
  have i: "i < n" "i < p_next p" using taken_onceD(1,2)[OF goodD(1)[OF g] k(1)] k(2) by blast+
  note d = goodD(2)[OF g] i(1) goodD(4)[OF g k] st
  show "before j s" if "j < n" "p_next p \<le> j"
    using before_stable[OF d that(1)] goodD(3)[OF g that] i(2) that(2) by auto
  show "during j b s" if l: "l < length (p_workers p)" "l \<noteq> k" "p_workers p ! l = Busy j b"
  proof -
    have "j \<noteq> i" using taken_onceD(3)[OF goodD(1)[OF g] l(1) k(1)] l(2,3) k(2) by blast
    moreover have "j < n" using taken_onceD(1)[OF goodD(1)[OF g] l(1)] l(3) by blast
    ultimately show ?thesis using during_stable[OF d] goodD(4)[OF g l(1,3)] by blast
  qed
  show "after j s" if "j \<in> finished n p"
  proof -
    have "j \<noteq> i" using finished_stop(2)[OF goodD(1)[OF g] k] that by auto
    moreover have "j < n" using that by (simp add: finished_def)
    ultimately show ?thesis using after_stable[OF d] goodD(5)[OF g that] by blast
  qed
qed

lemma step_good:
  assumes g: "good p" and st: "worker_step start step n k p = q"
  shows "good q"
proof -
  have t: "taken_once n q" using step_taken_once[OF goodD(1)[OF g] st] .
  show ?thesis
    using st
  proof (cases rule: worker_step_cases)
    case stay
    then show ?thesis using g by simp
  next
    case exit
    then show ?thesis
      using t goodD(2-5)[OF g] finished_exit[OF exit(1-3)]
      by (auto simp: good_def nth_list_update split: if_splits)
  next
    case take
    have "during (p_next p) start (p_state p)"
      using begins[OF goodD(2)[OF g]] goodD(3)[OF g] take(3) by simp
    then show ?thesis
      using t goodD(2-5)[OF g] finished_take[OF goodD(1)[OF g] take(1,2)] take(1,4)
      by (auto simp: good_def nth_list_update split: if_splits)
  next
    case (go i a b s)
    have ni: "i \<notin> finished n p" using finished_stop(2)[OF goodD(1)[OF g] go(1,2)] .
    have i: "i < n" using taken_onceD(1)[OF goodD(1)[OF g] go(1)] go(2) by blast
    have own: "during i b s" "inv (finished n p) s"
      using goes[OF goodD(2)[OF g] i ni goodD(4)[OF g go(1,2)] go(3)] by auto
    show ?thesis
      using t own others[OF g go(1-3)] finished_go[OF go(1,2)] go(1,4)
      by (auto simp: good_def nth_list_update split: if_splits)
  next
    case (stop i a s)
    have i: "i < n" using taken_onceD(1)[OF goodD(1)[OF g] stop(1)] stop(2) by blast
    note fs = finished_stop[OF goodD(1)[OF g] stop(1,2)]
    have own: "after i s" "inv (insert i (finished n p)) s"
      using stops[OF goodD(2)[OF g] i fs(2) goodD(4)[OF g stop(1,2)] stop(3)] by auto
    show ?thesis
      using t own others[OF g stop(1-3)] fs(1) stop(1,4)
      by (auto simp: good_def nth_list_update split: if_splits)
  qed
qed

lemma run_good: "good p \<Longrightarrow> good (run_pool start step n sched p)"
  unfolding run_pool_def by (induction sched arbitrary: p) (auto intro: step_good)

lemma new_pool_good:
  assumes "inv {} s" and "\<forall>i < n. before i s"
  shows "good (new_pool m s)"
  using assms by (auto simp: good_def) (auto simp: new_pool_def)

lemma pool_done:
  assumes "inv {} s" and "\<forall>i < n. before i s" and "0 < m"
    and "p = run_pool start step n sched (new_pool m s)" and "all_exited p"
  shows "inv {..<n} (p_state p)" and "i < n \<Longrightarrow> after i (p_state p)"
proof -
  have g: "good p" using run_good[OF new_pool_good[OF assms(1,2)]] assms(4) by simp
  have "length (p_workers p) = m" using assms(4) by (simp add: run_workers new_pool_def)
  then have f: "finished n p = {..<n}" using finished_all[OF goodD(1)[OF g] assms(5)] assms(3) by auto
  show "inv {..<n} (p_state p)" using goodD(2)[OF g] f by simp
  show "after i (p_state p)" if "i < n" using goodD(5)[OF g] f that by simp
qed

end

section \<open>Every pool can run to its end\<close>

text \<open>
  If every turn of an item makes its rank smaller, no schedule is a dead end: whatever has happened
  so far, letting the workers go on one after the other ends them all.
\<close>

abbreviation "worker_at p k x \<equiv> k < length (p_workers p) \<and> p_workers p ! k = x"

locale ending_pool =
  fixes start :: 'a and step :: "nat \<Rightarrow> 'a \<Rightarrow> 's \<Rightarrow> 'a option \<times> 's"
    and rank :: "'a \<Rightarrow> 's \<Rightarrow> nat \<times> nat"
  assumes sinks: "step i a s = (Some b, t) \<Longrightarrow> (rank b t, rank a s) \<in> less_than <*lex*> less_than"
begin

lemma item_ends:
  assumes "worker_at p k (Busy i a)"
  shows "\<exists>m s. run_pool start step n (replicate m k) p = p\<lparr>p_workers := (p_workers p)[k := Fetch], p_state := s\<rparr>"
  using assms
proof (induction "rank a (p_state p)" arbitrary: a p rule: wf_induct_rule[OF wf_lex_prod[OF wf_less_than wf_less_than]])
  case (1 a p)
  obtain r s where st: "step i a (p_state p) = (r, s)" by fastforce
  show ?case
  proof (cases r)
    case None
    then have "worker_step start step n k p = p\<lparr>p_workers := (p_workers p)[k := Fetch], p_state := s\<rparr>"
      using "1.prems" st by (simp add: worker_step_def)
    then show ?thesis by (intro exI[of _ 1]) (auto simp: run_pool_def)
  next
    case (Some b)
    let ?q = "p\<lparr>p_workers := (p_workers p)[k := Busy i b], p_state := s\<rparr>"
    have w: "worker_step start step n k p = ?q" using "1.prems" st Some by (simp add: worker_step_def)
    have lt: "(rank b (p_state ?q), rank a (p_state p)) \<in> less_than <*lex*> less_than" using sinks[of i a "p_state p" b s] st Some by simp
    have "worker_at ?q k (Busy i b)" using "1.prems" by simp
    from "1.hyps"[OF lt this] obtain m s' where
      "run_pool start step n (replicate m k) ?q = ?q\<lparr>p_workers := (p_workers ?q)[k := Fetch], p_state := s'\<rparr>" by blast
    then show ?thesis using w by (intro exI[of _ "Suc m"] exI[of _ s']) (simp add: run_pool_def)
  qed
qed

lemma run_append: "run_pool start step n (xs @ ys) p = run_pool start step n ys (run_pool start step n xs p)"
  by (simp add: run_pool_def)

lemma fetch_ends:
  assumes "worker_at p k Fetch"
  shows "\<exists>sched q. run_pool start step n sched p = q \<and> p_workers q = (p_workers p)[k := Exited]"
  using assms
proof (induction "n - p_next p" arbitrary: p rule: less_induct)
  case less
  let ?q = "worker_step start step n k p"
  show ?case
  proof (cases "n \<le> p_next p")
    case True
    then have "p_workers ?q = (p_workers p)[k := Exited]" using less.prems by (simp add: worker_step_def)
    then show ?thesis by (intro exI[of _ "[k]"]) (simp add: run_pool_def)
  next
    case False
    then have q: "?q = p\<lparr>p_next := p_next p + 1, p_workers := (p_workers p)[k := Busy (p_next p) start]\<rparr>"
      using less.prems by (simp add: worker_step_def)
    then have "worker_at ?q k (Busy (p_next p) start)" using less.prems by simp
    from item_ends[OF this, of n] obtain m s where
      r: "run_pool start step n (replicate m k) ?q = ?q\<lparr>p_workers := (p_workers ?q)[k := Fetch], p_state := s\<rparr>" by blast
    let ?r = "?q\<lparr>p_workers := (p_workers ?q)[k := Fetch], p_state := s\<rparr>"
    have "n - p_next ?r < n - p_next p" "worker_at ?r k Fetch" using False less.prems q by auto
    from less.hyps[OF this] obtain sched where
      "p_workers (run_pool start step n sched ?r) = (p_workers ?r)[k := Exited]" by blast
    then show ?thesis using r q
      by (intro exI[of _ "k # replicate m k @ sched"]) (simp add: run_pool_def)
  qed
qed

lemma worker_ends:
  assumes "k < length (p_workers p)"
  shows "\<exists>sched. p_workers (run_pool start step n sched p) = (p_workers p)[k := Exited]"
proof (cases "p_workers p ! k")
  case Fetch
  with assms fetch_ends[of k p n] show ?thesis by auto
next
  case (Busy i a)
  with assms item_ends[of k p i a n] obtain m s where
    m: "run_pool start step n (replicate m k) p = p\<lparr>p_workers := (p_workers p)[k := Fetch], p_state := s\<rparr>" by blast
  let ?q = "p\<lparr>p_workers := (p_workers p)[k := Fetch], p_state := s\<rparr>"
  have "worker_at ?q k Fetch" using assms by simp
  from fetch_ends[OF this, of n] obtain sched where
    "p_workers (run_pool start step n sched ?q) = (p_workers ?q)[k := Exited]" by blast
  then show ?thesis using m by (intro exI[of _ "replicate m k @ sched"]) (simp add: run_append)
next
  case Exited
  then have "p_workers p = (p_workers p)[k := Exited]" by (metis list_update_id)
  then show ?thesis by (intro exI[of _ "[]"]) (simp add: run_pool_def)
qed

lemma pool_ends: "\<exists>sched. all_exited (run_pool start step n sched p)"
proof -
  have "\<exists>sched. \<forall>k < m. p_workers (run_pool start step n sched p) ! k = Exited"
    if "m \<le> length (p_workers p)" for m
    using that
  proof (induction m)
    case (Suc m)
    then obtain sched where s: "\<forall>k < m. p_workers (run_pool start step n sched p) ! k = Exited" by auto
    let ?q = "run_pool start step n sched p"
    have "m < length (p_workers ?q)" using Suc.prems by (simp add: run_workers)
    from worker_ends[OF this, of n] obtain more where
      "p_workers (run_pool start step n more ?q) = (p_workers ?q)[m := Exited]" by blast
    then have "p_workers (run_pool start step n (sched @ more) p) ! k = Exited" if "k < Suc m" for k
      using s that \<open>m < length (p_workers ?q)\<close> by (cases "k = m") (simp_all add: run_append)
    then show ?case by blast
  qed simp
  from this[OF le_refl] obtain sched where
    "\<forall>k < length (p_workers p). p_workers (run_pool start step n sched p) ! k = Exited" by blast
  then have "all_exited (run_pool start step n sched p)"
    by (auto simp: all_exited_def in_set_conv_nth run_workers)
  then show ?thesis by blast
qed

end

end
