(* ===== verification/Registry.thy ===== *)
theory Registry
  imports "HOL-Library.AList" Prelude
begin

text \<open>
  The interface of the shared maps \<open>JOBS\<close> and \<open>SEARCHES\<close> (\<open>HashMap\<close>s behind a mutex): looking an
  id up, inserting a record, and changing the record of an id if there is one.  They are
  association lists here; the order of the list stands for the unspecified iteration order.
\<close>

locale registry =
  fixes look :: "'m \<Rightarrow> 'k \<Rightarrow> 'v option" and put :: "'k \<Rightarrow> 'v \<Rightarrow> 'm \<Rightarrow> 'm"
    and change :: "'k \<Rightarrow> ('v \<Rightarrow> 'v) \<Rightarrow> 'm \<Rightarrow> 'm"
  assumes look_put: "look (put k v m) j = (if j = k then Some v else look m j)"
    and look_change: "look (change k f m) j = (if j = k then map_option f (look m k) else look m j)"
begin

text \<open>A property of all records survives changes that keep it.\<close>

lemma change_all:
  assumes "\<And>j v. look m j = Some v \<Longrightarrow> P j v" and "\<And>v. look m k = Some v \<Longrightarrow> P k v \<Longrightarrow> P k (f v)"
    and "look (change k f m) j = Some v"
  shows "P j v"
  using assms by (cases "j = k") (auto simp: look_change)

lemma put_all:
  assumes "\<And>j v. j \<noteq> k \<Longrightarrow> look m j = Some v \<Longrightarrow> P j v" and "P k v"
    and "look (put k v m) j = Some u"
  shows "P j u"
  using assms by (cases "j = k") (auto simp: look_put)

lemma change_twice: "look (change k f (change k g m)) j = look (change k (f \<circ> g) m) j"
  by (simp add: look_change option.map_comp)

lemma change_other: "k \<noteq> l \<Longrightarrow> look (change k f (change l g m)) j = look (change l g (change k f m)) j"
  by (simp add: look_change)

lemma change_absent: "look m k = None \<Longrightarrow> look (change k f m) j = look m j"
  by (simp add: look_change)

end

definition reg_update :: "'k \<Rightarrow> ('v \<Rightarrow> 'v) \<Rightarrow> ('k \<times> 'v) list \<Rightarrow> ('k \<times> 'v) list" where
  "reg_update k f m = map (\<lambda>(i, v). if i = k then (i, f v) else (i, v)) m"

lemma map_of_reg_update: "map_of (reg_update k f m) j = (if j = k then map_option f (map_of m k) else map_of m j)"
  by (induction m) (auto simp: reg_update_def)

interpretation reg: registry map_of AList.update reg_update
  by unfold_locales (simp_all add: update_conv' map_of_reg_update)

lemma reg_update_twice: "reg_update k f (reg_update k g m) = reg_update k (\<lambda>v. f (g v)) m"
  by (induction m) (auto simp: reg_update_def)

lemma reg_update_keys [simp]: "map fst (reg_update k f m) = map fst m"
  by (induction m) (auto simp: reg_update_def)

end
