(* ===== verification/Mover_Jobs.thy ===== *)
theory Mover_Jobs
  imports Mover_Copy Work_Pool Registry
begin

text \<open>
  The background jobs of \<open>src/bin/file-mover.rs\<close>: the job registry, the walks that plan a job,
  \<open>run_job\<close> and \<open>run_delete_job\<close>.  The steps of a worker on one file are the turns of a phase
  machine; the schedule of the worker threads is an argument.  A walk has a depth limit as its
  first argument (\<open>None\<close>: the limit was too small).
\<close>

section \<open>The registry of jobs\<close>

record job =
  j_op :: string
  j_src :: string
  j_dst :: string
  total_files :: u64
  done_files :: u64
  total_dirs :: u64
  done_dirs :: u64
  total_bytes :: u64
  done_bytes :: u64
  current :: "string list"
  status :: string
  job_error :: "string option"

record job_state =
  jw :: world
  jobs :: "(u64 \<times> job) list"

definition new_job :: "string \<Rightarrow> string \<Rightarrow> string \<Rightarrow> job" where
  "new_job opn src dst =
     \<lparr>j_op = opn, j_src = src, j_dst = dst, total_files = 0, done_files = 0, total_dirs = 0,
      done_dirs = 0, total_bytes = 0, done_bytes = 0, current = [], status = ''queued'', job_error = None\<rparr>"

definition job_update :: "u64 \<Rightarrow> (job \<Rightarrow> job) \<Rightarrow> 'a job_state_scheme \<Rightarrow> 'a job_state_scheme" where
  "job_update jid f s = s\<lparr>jobs := reg_update jid f (jobs s)\<rparr>"

text \<open>Running a call of the file system in the job's state.\<close>

definition on_world :: "(world \<Rightarrow> 'r \<times> world) \<Rightarrow> 'a job_state_scheme \<Rightarrow> 'r \<times> 'a job_state_scheme" where
  "on_world f s = (case f (jw s) of (r, w) \<Rightarrow> (r, s\<lparr>jw := w\<rparr>))"

definition note_current :: "string \<Rightarrow> job \<Rightarrow> job" where
  "note_current p j =
     (let c = current j @ [p] in j\<lparr>current := (if 6 < length c then tl c else c)\<rparr>)"

definition note_error :: "string \<Rightarrow> job \<Rightarrow> job" where
  "note_error e j = (if job_error j = None then j\<lparr>job_error := Some e\<rparr> else j)"

section \<open>Planning: the walks\<close>

record walk_acc =
  w_files :: "(path \<times> path) list"
  w_dirs :: "path list"
  w_bytes :: u64

definition no_files :: walk_acc where
  "no_files = \<lparr>w_files = [], w_dirs = [], w_bytes = 0\<rparr>"

type_synonym 'r walk_result = "((io_error + unit) \<times> 'r \<times> world) option"

function walk_files :: "nat \<Rightarrow> path \<Rightarrow> path \<Rightarrow> walk_acc \<Rightarrow> world \<Rightarrow> walk_acc walk_result"
  and walk_files_entries :: "nat \<Rightarrow> path \<Rightarrow> path \<Rightarrow> (string \<times> node) list \<Rightarrow> walk_acc \<Rightarrow> world \<Rightarrow> walk_acc walk_result"
where
  "walk_files 0 src rel acc w = None"
| "walk_files (Suc n) src rel acc w =
     (case path_is_dir src w of
        (True, w1) \<Rightarrow>
          (let acc1 = acc\<lparr>w_dirs := w_dirs acc @ [rel]\<rparr> in
           case read_dir src w1 of
             (Inl e, w2) \<Rightarrow> Some (Inl e, acc1, w2)
           | (Inr es, w2) \<Rightarrow> walk_files_entries n src rel es acc1 w2)
      | (False, w1) \<Rightarrow>
          (case symlink_metadata src w1 of
             (Inl e, w2) \<Rightarrow> Some (Inl e, acc, w2)
           | (Inr md, w2) \<Rightarrow>
               Some (Inr (), acc\<lparr>w_bytes := w_bytes acc + of_nat (node_len md),
                                 w_files := w_files acc @ [(src, rel)]\<rparr>, w2)))"
| "walk_files_entries n src rel [] acc w = Some (Inr (), acc, w)"
| "walk_files_entries n src rel (e # es) acc w =
     (case next_entry e w of
        (Inl x, w1) \<Rightarrow> Some (Inl x, acc, w1)
      | (Inr e1, w1) \<Rightarrow>
          (case walk_files n (path_join src (fst e1)) (path_join rel (fst e1)) acc w1 of
             None \<Rightarrow> None
           | Some (Inl x, acc1, w2) \<Rightarrow> Some (Inl x, acc1, w2)
           | Some (Inr u, acc1, w2) \<Rightarrow> walk_files_entries n src rel es acc1 w2))"
  by pat_completeness auto
termination
  by (relation "measures [\<lambda>x. case x of Inl (n, _) \<Rightarrow> n | Inr (n, _) \<Rightarrow> n,
                          \<lambda>x. case x of Inl _ \<Rightarrow> 0 | Inr (n, s, r, es, _) \<Rightarrow> Suc (length es)]") auto

record del_acc =
  d_files :: "path list"
  d_dirs :: "path list"
  d_bytes :: u64

definition no_paths :: del_acc where
  "no_paths = \<lparr>d_files = [], d_dirs = [], d_bytes = 0\<rparr>"

function walk_delete :: "nat \<Rightarrow> path \<Rightarrow> del_acc \<Rightarrow> world \<Rightarrow> del_acc walk_result"
  and walk_delete_entries :: "nat \<Rightarrow> path \<Rightarrow> (string \<times> node) list \<Rightarrow> del_acc \<Rightarrow> world \<Rightarrow> del_acc walk_result"
where
  "walk_delete 0 src acc w = None"
| "walk_delete (Suc n) src acc w =
     (case path_is_dir src w of
        (True, w1) \<Rightarrow>
          (let acc1 = acc\<lparr>d_dirs := d_dirs acc @ [src]\<rparr> in
           case read_dir src w1 of
             (Inl e, w2) \<Rightarrow> Some (Inl e, acc1, w2)
           | (Inr es, w2) \<Rightarrow> walk_delete_entries n src es acc1 w2)
      | (False, w1) \<Rightarrow>
          (case symlink_metadata src w1 of
             (Inl e, w2) \<Rightarrow> Some (Inl e, acc, w2)
           | (Inr md, w2) \<Rightarrow>
               Some (Inr (), acc\<lparr>d_bytes := (case md of Symlink l \<Rightarrow> d_bytes acc
                                             | _ \<Rightarrow> d_bytes acc + of_nat (node_len md)),
                                 d_files := d_files acc @ [src]\<rparr>, w2)))"
| "walk_delete_entries n src [] acc w = Some (Inr (), acc, w)"
| "walk_delete_entries n src (e # es) acc w =
     (case next_entry e w of
        (Inl x, w1) \<Rightarrow> Some (Inl x, acc, w1)
      | (Inr e1, w1) \<Rightarrow>
          (case walk_delete n (path_join src (fst e1)) acc w1 of
             None \<Rightarrow> None
           | Some (Inl x, acc1, w2) \<Rightarrow> Some (Inl x, acc1, w2)
           | Some (Inr u, acc1, w2) \<Rightarrow> walk_delete_entries n src es acc1 w2))"
  by pat_completeness auto
termination
  by (relation "measures [\<lambda>x. case x of Inl (n, _) \<Rightarrow> n | Inr (n, _) \<Rightarrow> n,
                          \<lambda>x. case x of Inl _ \<Rightarrow> 0 | Inr (n, s, es, _) \<Rightarrow> Suc (length es)]") auto

section \<open>A worker of \<open>run_job\<close> on one file\<close>

record transfer =
  t_id :: u64
  t_op :: string
  t_same_drive :: bool
  t_files :: "(path \<times> path) list"
  t_dst :: path

text \<open>The state the workers share: the job's state and the counter of failures.\<close>

record work = job_state +
  failed :: nat

datatype phase = Sizing | Noting u64 | Moving u64 | Copying u64 copier | Removing u64
  | Failing u64 "string option" | Counting u64 bool

text \<open>The arms that open both files and go on copying.\<close>

definition start_copy :: "mover_env \<Rightarrow> u64 \<Rightarrow> path \<Rightarrow> path \<Rightarrow> work \<Rightarrow> phase \<times> work" where
  "start_copy E sz sf df s =
     (case on_world (copy_open sf df) s of
        (Inr c, s1) \<Rightarrow> (Copying sz c, s1)
      | (Inl e, s1) \<Rightarrow> (Failing sz (Some (io_text E e)), s1))"

definition transfer_step :: "mover_env \<Rightarrow> transfer \<Rightarrow> nat \<Rightarrow> phase \<Rightarrow> work \<Rightarrow> phase option \<times> work" where
  "transfer_step E t idx ph s =
     (let sf = fst (t_files t ! idx);
          df = target_path (t_dst t) (snd (t_files t ! idx)) in
      case ph of
        Sizing \<Rightarrow>
          (case on_world (symlink_metadata sf) s of
             (Inr md, s1) \<Rightarrow> (Some (Noting (of_nat (node_len md))), s1)
           | (Inl e, s1) \<Rightarrow> (Some (Noting 0), s1))
      | Noting sz \<Rightarrow> (Some (Moving sz), job_update (t_id t) (note_current sf) s)
      | Moving sz \<Rightarrow>
          if t_op t = ''move'' \<and> t_same_drive t then
            (case on_world (rename_path sf df) s of
               (Inr u, s1) \<Rightarrow> (Some (Counting sz True), s1)
             | (Inl e, s1) \<Rightarrow>
                 if kind_of e = CrossesDevices \<or> e = Os EIO
                 then (case start_copy E sz sf df s1 of (ph1, s2) \<Rightarrow> (Some ph1, s2))
                 else (Some (Failing sz (Some (io_text E e))), s1))
          else (case start_copy E sz sf df s of (ph1, s1) \<Rightarrow> (Some ph1, s1))
      | Copying sz c \<Rightarrow>
          (case on_world (copy_chunk c) s of
             (Inl e, s1) \<Rightarrow> (Some (Failing sz (Some (io_text E e))), s1)
           | (Inr (Some c1), s1) \<Rightarrow> (Some (Copying sz c1), s1)
           | (Inr None, s1) \<Rightarrow>
               (Some (if t_op t = ''move'' then Removing sz else Counting sz True), s1))
      | Removing sz \<Rightarrow>
          (case on_world (remove_file sf) s of
             (Inr u, s1) \<Rightarrow> (Some (Counting sz True), s1)
           | (Inl e, s1) \<Rightarrow> (Some (Failing sz None), s1))
      | Failing sz err \<Rightarrow>
          (Some (Counting sz False),
           job_update (t_id t)
             (note_error (sf @ '' -> '' @ df @ '': '' @ (case err of Some m \<Rightarrow> m | None \<Rightarrow> [])))
             (s\<lparr>failed := failed s + 1\<rparr>))
      | Counting sz ok \<Rightarrow>
          (None, job_update (t_id t)
             (\<lambda>j. j\<lparr>done_files := done_files j + 1,
                    done_bytes := (if ok then done_bytes j + sz else done_bytes j)\<rparr>) s))"

section \<open>\<open>run_job\<close>\<close>

fun make_dirs :: "u64 \<Rightarrow> path \<Rightarrow> path list \<Rightarrow> job_state \<Rightarrow> job_state" where
  "make_dirs jid dst [] s = s"
| "make_dirs jid dst (rel # rels) s =
     (let df = target_path dst rel in
      case on_world (create_dir_all df) s of
        (Inr u, s1) \<Rightarrow>
          make_dirs jid dst rels (job_update jid (\<lambda>j. note_current df (j\<lparr>done_dirs := done_dirs j + 1\<rparr>)) s1)
      | (Inl e, s1) \<Rightarrow> make_dirs jid dst rels s1)"

text \<open>The part after the plan, for a given schedule; \<open>None\<close>: the workers have not all stopped.\<close>

definition transfer_all ::
  "mover_env \<Rightarrow> nat option \<Rightarrow> nat list \<Rightarrow> transfer \<Rightarrow> path \<Rightarrow> job_state \<Rightarrow> job_state option" where
  "transfer_all E cpus sched t src s =
     (let p = run_pool Sizing (transfer_step E t) (length (t_files t)) sched
                (new_pool (nthreads cpus) (job_state.extend s (work.fields 0))) in
      if \<not> all_exited p then None
      else let s1 = job_state.truncate (p_state p);
               s2 = (if t_op t = ''move'' \<and> failed (p_state p) = 0
                     then snd (on_world (remove_dir_all src) s1) else s1)
           in Some (job_update (t_id t) (\<lambda>j. j\<lparr>status := ''done''\<rparr>) s2))"

definition fast_move :: "string \<Rightarrow> bool \<Rightarrow> path \<Rightarrow> path \<Rightarrow> job_state \<Rightarrow> bool \<times> job_state" where
  "fast_move opn same src dst s =
     (if opn = ''move'' \<and> same then
        (case on_world (path_exists dst) s of
           (True, s1) \<Rightarrow> (False, s1)
         | (False, s1) \<Rightarrow>
             (case on_world (rename_path src dst) s1 of (r, s2) \<Rightarrow> (\<not> isl r, s2)))
      else (False, s))"

definition run_job ::
  "mover_env \<Rightarrow> nat \<Rightarrow> nat option \<Rightarrow> nat list \<Rightarrow> u64 \<Rightarrow> string \<Rightarrow> path \<Rightarrow> path \<Rightarrow> job_state \<Rightarrow> job_state option" where
  "run_job E depth cpus sched jid opn src dst s0 =
     (let s = job_update jid (\<lambda>j. j\<lparr>status := ''running''\<rparr>) s0;
          mounts = [fst (roots E), snd (roots E)];
          same = (path_drive mounts src = path_drive mounts dst) in
      case walk_files depth src [] no_files (jw s) of
        None \<Rightarrow> None
      | Some (Inl e, acc, w1) \<Rightarrow>
          Some (job_update jid (\<lambda>j. j\<lparr>status := ''error'', job_error := Some (io_text E e)\<rparr>) (s\<lparr>jw := w1\<rparr>))
      | Some (Inr u, acc, w1) \<Rightarrow>
          (let s1 = job_update jid (\<lambda>j. j\<lparr>total_files := of_nat (length (w_files acc)),
                                         total_dirs := of_nat (length (w_dirs acc)),
                                         total_bytes := w_bytes acc\<rparr>) (s\<lparr>jw := w1\<rparr>) in
           case fast_move opn same src dst s1 of
             (True, s2) \<Rightarrow>
               Some (job_update jid (\<lambda>j. j\<lparr>done_files := total_files j, done_dirs := total_dirs j,
                                          done_bytes := total_bytes j, status := ''done''\<rparr>) s2)
           | (False, s2) \<Rightarrow>
               transfer_all E cpus sched
                 \<lparr>t_id = jid, t_op = opn, t_same_drive = same, t_files = w_files acc, t_dst = dst\<rparr> src
                 (make_dirs jid dst (w_dirs acc) s2)))"

section \<open>\<open>run_delete_job\<close>\<close>

datatype del_phase = DNote | DRemove

definition delete_step :: "mover_env \<Rightarrow> u64 \<Rightarrow> path list \<Rightarrow> nat \<Rightarrow> del_phase \<Rightarrow> work \<Rightarrow> del_phase option \<times> work" where
  "delete_step E jid paths idx ph s =
     (let f = paths ! idx in
      case ph of
        DNote \<Rightarrow> (Some DRemove, job_update jid (note_current f) s)
      | DRemove \<Rightarrow>
          (case on_world (remove_file f) s of
             (Inr u, s1) \<Rightarrow> (None, job_update jid (\<lambda>j. j\<lparr>done_files := done_files j + 1\<rparr>) s1)
           | (Inl e, s1) \<Rightarrow>
               (None, job_update jid (note_error (f @ '': '' @ io_text E e)) (s1\<lparr>failed := failed s1 + 1\<rparr>))))"

fun remove_dirs :: "u64 \<Rightarrow> path list \<Rightarrow> nat \<Rightarrow> job_state \<Rightarrow> nat \<times> job_state" where
  "remove_dirs jid [] n s = (n, s)"
| "remove_dirs jid (d # ds) n s =
     (case on_world (remove_dir d) (job_update jid (note_current d) s) of
        (Inr u, s1) \<Rightarrow> remove_dirs jid ds n (job_update jid (\<lambda>j. j\<lparr>done_dirs := done_dirs j + 1\<rparr>) s1)
      | (Inl e, s1) \<Rightarrow> remove_dirs jid ds (n + 1) s1)"

definition delete_all ::
  "mover_env \<Rightarrow> nat option \<Rightarrow> nat list \<Rightarrow> u64 \<Rightarrow> del_acc \<Rightarrow> job_state \<Rightarrow> job_state option" where
  "delete_all E cpus sched jid acc s =
     (let p = run_pool DNote (delete_step E jid (d_files acc)) (length (d_files acc)) sched
                (new_pool (nthreads cpus) (job_state.extend s (work.fields 0))) in
      if \<not> all_exited p then None
      else case remove_dirs jid (rev (d_dirs acc)) (failed (p_state p)) (job_state.truncate (p_state p)) of
             (n, s1) \<Rightarrow>
               Some (job_update jid (\<lambda>j. j\<lparr>status := (if n = 0 then ''done'' else ''error'')\<rparr>) s1))"

definition run_delete_job ::
  "mover_env \<Rightarrow> nat \<Rightarrow> nat option \<Rightarrow> nat list \<Rightarrow> u64 \<Rightarrow> path \<Rightarrow> job_state \<Rightarrow> job_state option" where
  "run_delete_job E depth cpus sched jid src s0 =
     (let s = job_update jid (\<lambda>j. j\<lparr>status := ''running''\<rparr>) s0 in
      case (case on_world (path_is_file src) s of
              (True, s1) \<Rightarrow> (True, s1)
            | (False, s1) \<Rightarrow> on_world (path_is_symlink src) s1) of
        (True, s1) \<Rightarrow>
          (case on_world (remove_file src) s1 of
             (Inr u, s2) \<Rightarrow>
               Some (job_update jid (\<lambda>j. j\<lparr>done_files := done_files j + 1, total_files := 1,
                                          status := ''done''\<rparr>) s2)
           | (Inl e, s2) \<Rightarrow>
               Some (job_update jid (\<lambda>j. j\<lparr>status := ''error'', job_error := Some (io_text E e)\<rparr>) s2))
      | (False, s1) \<Rightarrow>
          (case walk_delete depth src no_paths (jw s1) of
             None \<Rightarrow> None
           | Some (Inl e, acc, w1) \<Rightarrow>
               Some (job_update jid (\<lambda>j. j\<lparr>status := ''error'', job_error := Some (io_text E e)\<rparr>) (s1\<lparr>jw := w1\<rparr>))
           | Some (Inr u, acc, w1) \<Rightarrow>
               delete_all E cpus sched jid acc
                 (job_update jid (\<lambda>j. j\<lparr>total_files := of_nat (length (d_files acc)),
                                       total_dirs := of_nat (length (d_dirs acc)),
                                       total_bytes := d_bytes acc\<rparr>) (s1\<lparr>jw := w1\<rparr>))))"

end
