(* ===== verification/Job_Laws.thy ===== *)
theory Job_Laws
  imports Mover_Jobs Dir_Laws
begin

text \<open>
  What the proofs about transfer and delete jobs share: running a call in a job's state, the job's
  record under the updates of its workers, and what removing a tree leaves of the other files.
\<close>

section \<open>The state of a job\<close>

lemma on_world_simps: "on_world f s = (fst (f (jw s)), s\<lparr>jw := snd (f (jw s))\<rparr>)"
  by (simp add: on_world_def split: prod.splits)

lemma job_update_simps [simp]:
  "jw (job_update k f s) = jw s" "jobs (job_update k f s) = reg_update k f (jobs s)"
  "failed (job_update k f u) = failed u"
  by (simp_all add: job_update_def)

lemma pool_start_simps [simp]:
  "jw (job_state.extend s (work.fields k)) = jw s" "jobs (job_state.extend s (work.fields k)) = jobs s"
  "failed (job_state.extend s (work.fields k)) = k"
  "jw (job_state.truncate u) = jw u" "jobs (job_state.truncate u) = jobs u"
  by (simp_all add: job_state.defs work.defs)

text \<open>The job's record: files counted so far, an error noted as soon as a file has failed.\<close>

definition tally :: "u64 \<Rightarrow> u64 \<Rightarrow> nat set \<Rightarrow> work \<Rightarrow> bool" where
  "tally jid d0 F s \<longleftrightarrow>
     (\<exists>j. map_of (jobs s) jid = Some j \<and>
        done_files j = d0 + of_nat (card F) \<and> (0 < failed s \<longrightarrow> job_error j \<noteq> None))"

lemma reg_update_same [simp]: "reg_update k (\<lambda>v. v) m = m"
  by (induction m) (auto simp: reg_update_def)

lemma note_fields [simp]:
  "done_files (note_current p j) = done_files j" "job_error (note_current p j) = job_error j"
  "status (note_current p j) = status j" "j_op (note_current p j) = j_op j"
  "j_src (note_current p j) = j_src j" "j_dst (note_current p j) = j_dst j"
  "done_files (note_error e j) = done_files j" "job_error (note_error e j) \<noteq> None"
  "status (note_error e j) = status j" "j_op (note_error e j) = j_op j"
  "j_src (note_error e j) = j_src j" "j_dst (note_error e j) = j_dst j"
  "job_error j \<noteq> None \<Longrightarrow> job_error (note_error e j) = job_error j"
  by (simp_all add: note_current_def note_error_def Let_def)

text \<open>A change of a job's record by a worker: one more file counted or not, errors only added.\<close>

definition counts :: "nat \<Rightarrow> bool \<Rightarrow> (job \<Rightarrow> job) \<Rightarrow> bool" where
  "counts k err g \<longleftrightarrow>
     (\<forall>j. done_files (g j) = done_files j + of_nat k \<and> status (g j) = status j \<and>
          j_op (g j) = j_op j \<and> j_src (g j) = j_src j \<and> j_dst (g j) = j_dst j \<and>
          (job_error j \<noteq> None \<longrightarrow> job_error (g j) = job_error j) \<and> (err \<longrightarrow> job_error (g j) \<noteq> None) \<and>
          (\<not> err \<longrightarrow> job_error (g j) = job_error j))"

lemma tally_step:
  assumes "tally jid d0 F s" and "jobs s' = reg_update jid g (jobs s)"
    and "counts k (failed s < failed s') g" and "card F' = card F + k"
    and "failed s \<le> failed s'"
  shows "tally jid d0 F' s'"
proof -
  obtain j where j: "map_of (jobs s) jid = Some j"
    "done_files j = d0 + of_nat (card F) \<and> (0 < failed s \<longrightarrow> job_error j \<noteq> None)"
    using assms(1) by (auto simp: tally_def)
  have "done_files (g j) = d0 + of_nat (card F') \<and> (0 < failed s' \<longrightarrow> job_error (g j) \<noteq> None)"
    using assms(3-5) j(2) by (cases "failed s < failed s'") (auto simp: counts_def)
  then show ?thesis using assms(2) j(1) by (auto simp: tally_def map_of_reg_update)
qed

section \<open>Removing trees\<close>

text \<open>Every removal below a location leaves the files elsewhere.\<close>

lemma del_each_files:
  assumes "del_each ls w = (r, v)" and "\<And>l. l \<in> set ls \<Longrightarrow> \<not> prefix l q"
  shows "files (fs v) q = files (fs w) q"
  using assms
proof (induction ls w rule: del_each.induct)
  case (2 l ls w)
  obtain r1 w1 where s1: "sys (\<lambda>w. (Inr (), tdel (fs w) l)) w = (r1, w1)" by fastforce
  have f: "files (fs w1) q = files (fs w) q"
    using 2(3)[of l] by (cases rule: sys_cases[OF s1]) (auto simp: files_tdel)
  show ?case
    using "2.prems" "2.IH"[OF s1[symmetric]] s1 f by (cases r1) auto
qed simp

lemma post_order_below: "m \<in> set (post_order l n) \<Longrightarrow> prefix l m"
proof (induction l n rule: post_order.induct)
  case (1 l es)
  then show ?case by (fastforce dest: append_prefixD)
qed auto

lemma remove_dir_all_files:
  assumes "remove_dir_all p w = (r, v)" and "\<And>l. resolve_leaf w p = Inr l \<Longrightarrow> \<not> prefix l q"
  shows "files (fs v) q = files (fs w) q"
proof -
  define f where "f = (\<lambda>w. (case resolve_leaf w p of
                Inl e \<Rightarrow> Inl (Os e)
              | Inr l \<Rightarrow> (case tget (fs w) l of
                            None \<Rightarrow> Inl (Os ENOENT)
                          | Some n \<Rightarrow> Inr (l, n)), fs w))"
  obtain r1 w1 where s1: "sys f w = (r1, w1)" by fastforce
  have w1: "fs w1 = fs w" by (cases rule: sys_cases[OF s1]) (auto simp: f_def)
  show ?thesis
  proof (cases r1)
    case (Inl e)
    with assms(1) s1 w1 show ?thesis by (simp add: remove_dir_all_def f_def)
  next
    case (Inr x)
    obtain l n where x: "x = (l, n)" by fastforce
    have "resolve_leaf w p = Inr l"
      using Inr x by (cases rule: sys_cases[OF s1]) (auto simp: f_def split: sum.splits option.splits)
    then have nb: "\<not> prefix l q" by (rule assms(2))
    have rest: "remove_dir_all p w = (case n of File d \<Rightarrow> (Inl (Os ENOTDIR), w1)
        | Symlink s \<Rightarrow> del_each [l] w1
        | Dir es \<Rightarrow> if l = [] \<or> ends_in_dots p then (Inl (Os EBUSY), w1) else del_each (post_order l (Dir es)) w1)"
      using s1 Inr x by (simp add: remove_dir_all_def f_def split: node.splits)
    have below: "\<not> prefix m q" if "m \<in> set (post_order l k)" for m k
      using post_order_below[OF that] nb prefix_order.trans by blast
    show ?thesis
    proof (cases n)
      case (Symlink s)
      with rest assms(1) have "del_each [l] w1 = (r, v)" by simp
      with del_each_files[OF this, of q] nb w1 show ?thesis by simp
    next
      case (Dir es)
      show ?thesis
      proof (cases "l = [] \<or> ends_in_dots p")
        case False
        with rest Dir assms(1) have "del_each (post_order l (Dir es)) w1 = (r, v)" by simp
        then have "files (fs v) q = files (fs w1) q" by (rule del_each_files) (rule below)
        with w1 show ?thesis by simp
      qed (use rest Dir assms(1) w1 in auto)
    qed (use rest assms(1) w1 in auto)
  qed
qed

text \<open>An environment the witnesses run in.\<close>

definition sample_env :: mover_env where
  "sample_env = \<lparr>io_text = (\<lambda>e. ''I/O error''), lowercase = ascii_lowercase, pct_decode = (\<lambda>s. s),
     json_text = (\<lambda>v. []), json_parse = (\<lambda>s. Inl ''no JSON''), mtime_secs = (\<lambda>p. 0),
     env_home = Some ''/home/u'', env_url_a = None, env_url_b = None\<rparr>"

end
