(* ===== verification/Job_Endings.thy ===== *)
theory Job_Endings
  imports Job_Laws Samples
begin

text \<open>
  No schedule of the workers is a dead end: each turn on a file makes a rank smaller, so the
  workers of a transfer or of a delete job can always be run to their end.
\<close>

fun t_rank :: "phase \<Rightarrow> work \<Rightarrow> nat \<times> nat" where
  "t_rank Sizing s = (6, 0)"
| "t_rank (Noting sz) s = (5, 0)"
| "t_rank (Moving sz) s = (4, 0)"
| "t_rank (Copying sz c) s = (3, left_to_read c (jw s))"
| "t_rank (Removing sz) s = (2, 0)"
| "t_rank (Failing sz e) s = (1, 0)"
| "t_rank (Counting sz ok) s = (0, 0)"

lemma start_copy_rank:
  "start_copy E sz p q s = (ph, u) \<Longrightarrow> (t_rank ph u, 4, 0) \<in> less_than <*lex*> less_than"
  by (auto simp: start_copy_def split: prod.splits sum.splits)

interpretation te: ending_pool Sizing "transfer_step E t" t_rank for E t
proof (unfold_locales, goal_cases)
  case (1 i a s b u)
  show ?case
  proof (cases a)
    case (Moving sz)
    with 1 show ?thesis
      by (auto simp: transfer_step_def Let_def in_lex_prod split: prod.splits sum.splits if_splits
          dest: start_copy_rank)
  next
    case (Copying sz c)
    obtain r v where c: "copy_chunk c (jw s) = (r, v)" by fastforce
    show ?thesis
    proof (cases "\<exists>c1. r = Inr (Some c1)")
      case True
      then obtain c1 where r: "r = Inr (Some c1)" by blast
      with 1 Copying c have "b = Copying sz c1" "u = s\<lparr>jw := v\<rparr>"
        by (auto simp: transfer_step_def Let_def on_world_def)
      then show ?thesis using Copying copy_chunk_progress[of c "jw s" c1 v] c r by simp
    next
      case False
      with 1 Copying c show ?thesis
        by (auto simp: transfer_step_def Let_def on_world_def split: sum.splits option.splits if_splits)
    qed
  qed (use 1 in \<open>auto simp: transfer_step_def Let_def split: prod.splits sum.splits\<close>)
qed

definition d_rank :: "del_phase \<Rightarrow> work \<Rightarrow> nat \<times> nat" where
  "d_rank ph s = (case ph of DNote \<Rightarrow> (1, 0) | DRemove \<Rightarrow> (0, 0))"

interpretation de: ending_pool DNote "delete_step E jid paths" d_rank for E jid paths
  by unfold_locales
     (auto simp: delete_step_def d_rank_def Let_def split: del_phase.splits prod.splits sum.splits)

lemma transfer_runs_out: "\<exists>more s'. transfer_all E cpus (sched @ more) t src s = Some s'"
proof -
  let ?p = "new_pool (nthreads cpus) (job_state.extend s (work.fields 0))"
  let ?run = "run_pool Sizing (transfer_step E t) (length (t_files t))"
  obtain more where m: "all_exited (?run more (?run sched ?p))" using te.pool_ends by blast
  then have "all_exited (?run (sched @ more) ?p)" by (simp only: te.run_append)
  then show ?thesis by (intro exI[of _ more]) (simp add: transfer_all_def Let_def)
qed

lemma delete_runs_out: "\<exists>more s'. delete_all E cpus (sched @ more) jid acc s = Some s'"
proof -
  let ?p = "new_pool (nthreads cpus) (job_state.extend s (work.fields 0))"
  let ?run = "run_pool DNote (delete_step E jid (d_files acc)) (length (d_files acc))"
  obtain more where m: "all_exited (?run more (?run sched ?p))" using de.pool_ends by blast
  then have "all_exited (?run (sched @ more) ?p)" by (simp only: de.run_append)
  then show ?thesis by (intro exI[of _ more]) (simp add: delete_all_def Let_def split: prod.splits)
qed

lemma run_job_runs_out:
  assumes "walk_files depth src [] no_files (jw s) \<noteq> None"
  shows "\<exists>more s'. run_job E depth cpus (sched @ more) jid opn src dst s = Some s'"
proof -
  obtain x acc w where w: "walk_files depth src [] no_files (jw s) = Some (x, acc, w)" using assms by auto
  show ?thesis
  proof (cases x)
    case (Inl e)
    with w show ?thesis by (simp add: run_job_def Let_def)
  next
    case (Inr u)
    define same where "same = (path_drive [fst (roots E), snd (roots E)] src = path_drive [fst (roots E), snd (roots E)] dst)"
    define s1 where "s1 = job_update jid (\<lambda>j. j\<lparr>total_files := of_nat (length (w_files acc)),
        total_dirs := of_nat (length (w_dirs acc)), total_bytes := w_bytes acc\<rparr>)
      ((job_update jid (\<lambda>j. j\<lparr>status := ''running''\<rparr>) s)\<lparr>jw := w\<rparr>)"
    obtain b s2 where fm: "fast_move opn same src dst s1 = (b, s2)" by fastforce
    show ?thesis
    proof (cases b)
      case True
      with w Inr fm show ?thesis by (simp add: run_job_def Let_def same_def s1_def)
    next
      case False
      with w Inr fm have "run_job E depth cpus sc jid opn src dst s =
          transfer_all E cpus sc \<lparr>t_id = jid, t_op = opn, t_same_drive = same, t_files = w_files acc, t_dst = dst\<rparr> src
            (make_dirs jid dst (w_dirs acc) s2)" for sc
        by (simp add: run_job_def Let_def same_def s1_def)
      then show ?thesis by (simp add: transfer_runs_out)
    qed
  qed
qed

lemma run_delete_runs_out:
  assumes "walk_delete depth src no_paths (snd (path_is_symlink src (snd (path_is_file src (jw s))))) \<noteq> None"
  shows "\<exists>more s'. run_delete_job E depth cpus (sched @ more) jid src s = Some s'"
proof -
  define s0 where "s0 = job_update jid (\<lambda>j. j\<lparr>status := ''running''\<rparr>) s"
  define query where "query = (case on_world (path_is_file src) s0 of
              (True, s1) \<Rightarrow> (True, s1) | (False, s1) \<Rightarrow> on_world (path_is_symlink src) s1)"
  obtain b s1 where q: "query = (b, s1)" by fastforce
  note rd = run_delete_job_def[unfolded Let_def, of E depth cpus _ jid src s, folded s0_def, folded query_def, unfolded q]
  show ?thesis
  proof (cases b)
    case True
    then show ?thesis by (cases "on_world (remove_file src) s1"; cases "fst (on_world (remove_file src) s1)") (auto simp: rd)
  next
    case False
    have "jw s1 = snd (path_is_symlink src (snd (path_is_file src (jw s))))"
      using q False by (auto simp: query_def s0_def on_world_simps split: bool.splits)
    then obtain x acc w where w: "walk_delete depth src no_paths (jw s1) = Some (x, acc, w)" using assms by auto
    show ?thesis
    proof (cases x)
      case (Inl e)
      with w False show ?thesis by (simp add: rd)
    next
      case (Inr u)
      with w False show ?thesis by (simp add: rd delete_runs_out)
    qed
  qed
qed

text \<open>C13 No schedule of the worker threads is a dead end: once the walk of a copy, move or delete job has
  returned, with a plan or with an error, then after any turns of any workers, and whatever faults
  occur, letting the workers go on ends the whole job.\<close>

theorem jobs_can_end:
  "(walk_files depth src [] no_files (jw s) \<noteq> None \<longrightarrow>
      (\<exists>more s'. run_job E depth cpus (sched @ more) jid opn src dst s = Some s')) \<and>
   (walk_delete depth src no_paths (snd (path_is_symlink src (snd (path_is_file src (jw s))))) \<noteq> None \<longrightarrow>
      (\<exists>more s'. run_delete_job E depth cpus (sched @ more) jid src s = Some s'))"
  using run_job_runs_out run_delete_runs_out by blast

lemma jobs_can_end_witness:
  "\<exists>more s'. run_job sample_env 4 (Some 2) ([0, 1, 1] @ more) 1 ''copy'' ''/src'' ''/dst/x''
     \<lparr>jw = sample_world, jobs = [(1, new_job ''copy'' ''/src'' ''/dst/x'')]\<rparr> = Some s'"
proof -
  let ?s = "\<lparr>jw = sample_world, jobs = [(1, new_job ''copy'' ''/src'' ''/dst/x'')]\<rparr> :: job_state"
  have "walk_files 4 ''/src'' [] no_files sample_world \<noteq> None" by code_simp
  then have w: "walk_files 4 ''/src'' [] no_files (jw ?s) \<noteq> None" by simp
  show ?thesis by (rule mp[OF conjunct1[OF jobs_can_end] w])
qed

end
