(* ===== verification/Walk_Laws.thy ===== *)
theory Walk_Laws
  imports Job_Laws Name_Laws
begin

text \<open>
  What the walks find in a tree of plain files and directories, without faults: every file and
  every directory, once, in the order of the directories, and a depth limit above the tree's height
  is enough.
\<close>

section \<open>Trees without links\<close>

fun plain_tree :: "node \<Rightarrow> bool" where
  "plain_tree (File d) = True"
| "plain_tree (Symlink x) = False"
| "plain_tree (Dir es) = (distinct (map fst es) \<and> (\<forall>e \<in> set es. plain_name (fst e) \<and> plain_tree (snd e)))"

fun tree_height :: "node \<Rightarrow> nat" where
  "tree_height (Dir es) = Suc (Max (set (0 # map (\<lambda>e. tree_height (snd e)) es)))"
| "tree_height n = 0"

text \<open>Where its files and its directories are, relative to its root.\<close>

fun tree_files :: "node \<Rightarrow> loc list" where
  "tree_files (Dir es) = concat (map (\<lambda>e. map ((#) (fst e)) (tree_files (snd e))) es)"
| "tree_files n = [[]]"

fun tree_dirs :: "node \<Rightarrow> loc list" where
  "tree_dirs (Dir es) = [] # concat (map (\<lambda>e. map ((#) (fst e)) (tree_dirs (snd e))) es)"
| "tree_dirs n = []"

fun tree_bytes :: "node \<Rightarrow> nat" where
  "tree_bytes (Dir es) = sum_list (map (\<lambda>e. tree_bytes (snd e)) es)"
| "tree_bytes n = node_len n"

definition path_at :: "path \<Rightarrow> loc \<Rightarrow> path" where
  "path_at p r = foldl path_join p r"

lemma path_at_simps [simp]: "path_at p [] = p" "path_at p (s # r) = path_at (path_join p s) r"
  "path_at p (r @ [s]) = path_join (path_at p r) s"
  by (simp_all add: path_at_def)

lemma child_height: "e \<in> set es \<Longrightarrow> tree_height (Dir es) < Suc d \<Longrightarrow> tree_height (snd e) < d"
  by (auto simp: less_Suc_eq_le Suc_le_eq)

lemma child_node:
  assumes "tget t l = Some (Dir es)" and "distinct (map fst es)" and "e \<in> set es"
  shows "tget t (l @ [fst e]) = Some (snd e)"
  using assms by (cases e) (simp flip: map_of_tget)

lemma plain_tree_cases:
  assumes "plain_tree n"
  obtains (leaf) d where "n = File d"
  | (node) es where "n = Dir es" "distinct (map fst es)" "\<And>e. e \<in> set es \<Longrightarrow> plain_name (fst e) \<and> plain_tree (snd e)"
  using assms by (cases n) auto

text \<open>Queries when nothing fails.\<close>

lemma quiet_queries:
  assumes "faults w = []"
  shows "path_is_dir p w = (is_dirn (case node_at True w p of Inr n \<Rightarrow> Some n | Inl e \<Rightarrow> None), w)"
    and "symlink_metadata p w = (node_at False w p, w)" and "metadata p w = (node_at True w p, w)"
    and "next_entry e w = (Inr e, w)"
    and "path_exists p w = (\<not> isl (node_at True w p), w)"
  using assms
  by (auto simp: path_is_dir_def path_exists_def metadata_def symlink_metadata_def next_entry_def sys_simps is_dirn_def
      split: sum.splits node.splits)

lemma read_dir_quiet:
  assumes "faults w = []" and "resolve True w p = Inr l" and "tget (fs w) l = Some (Dir es)"
  shows "read_dir p w = (Inr es, w)"
  using assms by (simp add: read_dir_def sys_simps node_at_def)

section \<open>\<open>walk_files\<close>\<close>

definition found :: "path \<Rightarrow> path \<Rightarrow> node \<Rightarrow> walk_acc \<Rightarrow> walk_acc" where
  "found src rel n acc = acc\<lparr>
     w_files := w_files acc @ map (\<lambda>r. (path_at src r, path_at rel r)) (tree_files n),
     w_dirs := w_dirs acc @ map (path_at rel) (tree_dirs n),
     w_bytes := w_bytes acc + of_nat (tree_bytes n)\<rparr>"

definition found_entries :: "path \<Rightarrow> path \<Rightarrow> (string \<times> node) list \<Rightarrow> walk_acc \<Rightarrow> walk_acc" where
  "found_entries src rel es acc =
     foldl (\<lambda>a e. found (path_join src (fst e)) (path_join rel (fst e)) (snd e) a) acc es"

lemma found_dir:
  "found src rel (Dir es) acc = found_entries src rel es (acc\<lparr>w_dirs := w_dirs acc @ [rel]\<rparr>)"
proof -
  have "found_entries src rel es a = a\<lparr>
     w_files := w_files a @ map (\<lambda>r. (path_at src r, path_at rel r)) (tree_files (Dir es)),
     w_dirs := w_dirs a @ map (path_at rel) (tl (tree_dirs (Dir es))),
     w_bytes := w_bytes a + of_nat (tree_bytes (Dir es))\<rparr>" for a
    unfolding found_entries_def
    by (induction es arbitrary: a) (simp_all add: found_def o_def add.assoc)
  then show ?thesis by (simp add: found_def)
qed

lemma walk_files_finds:
  assumes "faults w = []" and "resolve True w src = Inr l" and "tget (fs w) l = Some n" and "plain_tree n"
    and "tree_height n < depth" and "is_filen (Some n) \<Longrightarrow> resolve False w src = Inr l"
  shows "walk_files depth src rel acc w = Some (Inr (), found src rel n acc, w)"
  using assms
proof (induction n arbitrary: src rel acc l depth)
  case (File d)
  then obtain k where "depth = Suc k" by (cases depth) auto
  with File show ?case
    by (simp add: quiet_queries node_at_def is_dirn_def found_def)
next
  case (Symlink x)
  then show ?case by simp
next
  case (Dir es)
  obtain k where k: "depth = Suc k" using Dir.prems(5) by (cases depth) auto
  have ents: "walk_files_entries k src rel xs a w = Some (Inr (), found_entries src rel xs a, w)"
    if "set xs \<subseteq> set es" for xs a
    using that
  proof (induction xs arbitrary: a)
    case Nil
    then show ?case by (simp add: found_entries_def)
  next
    case (Cons e xs)
    then have e: "e \<in> set es" by simp
    have p: "plain_name (fst e)" "plain_tree (snd e)" "distinct (map fst es)" using Dir.prems(4) e by auto
    have g: "tget (fs w) (l @ [fst e]) = Some (snd e)" using child_node[OF Dir.prems(3) p(3) e] .
    have nl: "tget (fs w) (l @ [fst e]) \<noteq> Some (Symlink x)" for x using g p(2) by auto
    have r: "resolve f w (path_join src (fst e)) = Inr (l @ [fst e])" for f
      using resolve_name[OF Dir.prems(2,3) p(1)] nl by blast
    have "walk_files k (path_join src (fst e)) (path_join rel (fst e)) a w =
        Some (Inr (), found (path_join src (fst e)) (path_join rel (fst e)) (snd e) a, w)"
    proof (rule Dir.IH)
      show "e \<in> set es" by (rule e)
      show "snd e \<in> Basic_BNFs.snds e" by (cases e) simp
      show "faults w = []" by (rule Dir.prems(1))
      show "tree_height (snd e) < k" using child_height[OF e] Dir.prems(5) k by blast
    qed (use r g p in auto)
    then show ?case
      using Cons by (simp add: quiet_queries(4)[OF Dir.prems(1)] found_entries_def)
  qed
  have d: "path_is_dir src w = (True, w)"
    using Dir.prems(1-3) by (simp add: quiet_queries node_at_def)
  show ?case
    using k d read_dir_quiet[OF Dir.prems(1-3)] ents[of es] by (simp add: found_dir Let_def)
qed

end
