(* ===== verification/Tree_Paths.thy ===== *)
theory Tree_Paths
  imports Walk_Laws
begin

text \<open>
  The lists a walk makes, as sets of locations: the files and directories of the tree, each once,
  parents before their children; and where the paths made from them lead, in the source and in
  the destination.
\<close>

section \<open>The lists\<close>

lemma snd_in_snds [simp]: "snd e \<in> Basic_BNFs.snds e"
  by (cases e) simp

lemma tree_files_sound: "plain_tree n \<Longrightarrow> r \<in> set (tree_files n) \<Longrightarrow> \<exists>d. tget n r = Some (File d)"
proof (induction n arbitrary: r)
  case (Dir es)
  then obtain e r' where e: "e \<in> set es" "r = fst e # r'" "r' \<in> set (tree_files (snd e))" by auto
  then have "map_of es (fst e) = Some (snd e)" using Dir.prems(1) by (cases e) auto
  moreover have "\<exists>d. tget (snd e) r' = Some (File d)"
    using Dir.IH[OF e(1) snd_in_snds _ e(3)] Dir.prems(1) e(1) by simp
  ultimately show ?case using e(2) by simp
qed auto

lemma tree_files_complete: "plain_tree n \<Longrightarrow> tget n r = Some (File d) \<Longrightarrow> r \<in> set (tree_files n)"
proof (induction n r rule: tget.induct)
  case (2 es x xs)
  then obtain m where m: "map_of es x = Some m" "tget m xs = Some (File d)" by (auto split: option.splits)
  then have i: "(x, m) \<in> set es" by (simp add: map_of_SomeD)
  then have "xs \<in> set (tree_files m)" using 2 m by auto
  with i show ?case by force
next
  case (1 n)
  then show ?case by (cases n) auto
qed auto

lemma tree_dirs_sound: "plain_tree n \<Longrightarrow> r \<in> set (tree_dirs n) \<Longrightarrow> is_dirn (tget n r)"
proof (induction n arbitrary: r)
  case (Dir es)
  show ?case
  proof (cases r)
    case (Cons s r')
    with Dir.prems obtain e where e: "e \<in> set es" "s = fst e" "r' \<in> set (tree_dirs (snd e))" by auto
    then have "map_of es (fst e) = Some (snd e)" using Dir.prems(1) by (cases e) auto
    moreover have "is_dirn (tget (snd e) r')"
      using Dir.IH[OF e(1) snd_in_snds _ e(3)] Dir.prems(1) e(1) by simp
    ultimately show ?thesis using e(2) Cons by simp
  qed simp
qed auto

lemma tree_dirs_complete: "is_dirn (tget n r) \<Longrightarrow> r \<in> set (tree_dirs n)"
proof (induction n r rule: tget.induct)
  case (2 es x xs)
  then obtain m where m: "map_of es x = Some m" "is_dirn (tget m xs)" by (auto split: option.splits)
  then have i: "(x, m) \<in> set es" by (simp add: map_of_SomeD)
  then have "xs \<in> set (tree_dirs m)" using 2 m by auto
  with i show ?case by force
next
  case (1 n)
  then show ?case by (cases n) auto
qed auto

lemma tree_names: "plain_tree n \<Longrightarrow> tget n r = Some m \<Longrightarrow> s \<in> set r \<Longrightarrow> plain_name s"
proof (induction n r rule: tget.induct)
  case (2 es x xs)
  then obtain m' where m: "map_of es x = Some m'" "tget m' xs = Some m" by (auto split: option.splits)
  then have i: "(x, m') \<in> set es" by (simp add: map_of_SomeD)
  with 2 m show ?case by fastforce
qed auto

lemma distinct_blocks:
  assumes "distinct (map fst es)" and "\<And>e. e \<in> set es \<Longrightarrow> distinct (f (snd e))"
  shows "distinct (concat (map (\<lambda>e. map ((#) (fst e)) (f (snd e))) es))"
  using assms by (induction es) (auto simp: distinct_map)

lemma distinct_tree_files: "plain_tree n \<Longrightarrow> distinct (tree_files n)"
proof (induction n)
  case (Dir es)
  have "distinct (tree_files (snd e))" if "e \<in> set es" for e
    using Dir.IH[OF that snd_in_snds] Dir.prems that by simp
  with Dir.prems show ?case by (auto intro: distinct_blocks)
qed auto

lemma distinct_tree_dirs: "plain_tree n \<Longrightarrow> distinct (tree_dirs n)"
proof (induction n)
  case (Dir es)
  have "distinct (tree_dirs (snd e))" if "e \<in> set es" for e
    using Dir.IH[OF that snd_in_snds] Dir.prems that by simp
  with Dir.prems show ?case by (auto intro: distinct_blocks)
qed auto

lemma plain_no_link: "plain_tree n \<Longrightarrow> tget n r \<noteq> Some (Symlink x)"
proof (induction n r rule: tget.induct)
  case (1 n)
  then show ?case by (cases n) auto
next
  case (2 es y ys)
  then show ?case by (fastforce split: option.splits dest: map_of_SomeD)
qed auto

text \<open>Parents come first.\<close>

fun parents_first :: "loc set \<Rightarrow> loc list \<Rightarrow> bool" where
  "parents_first A [] = True"
| "parents_first A (x # xs) = ((\<forall>q. strict_prefix q x \<longrightarrow> q \<in> A) \<and> parents_first (insert x A) xs)"

lemma parents_first_mono: "parents_first A xs \<Longrightarrow> A \<subseteq> B \<Longrightarrow> parents_first B xs"
  by (induction xs arbitrary: A B) (auto, blast)

lemma parents_first_append: "parents_first A (xs @ ys) \<longleftrightarrow> parents_first A xs \<and> parents_first (A \<union> set xs) ys"
  by (induction xs arbitrary: A) auto

lemma parents_first_below:
  "parents_first A xs \<Longrightarrow> [] \<in> B \<Longrightarrow> (#) s ` A \<subseteq> B \<Longrightarrow> parents_first B (map ((#) s) xs)"
proof (induction xs arbitrary: A B)
  case (Cons x xs)
  have "q \<in> B" if "strict_prefix q (s # x)" for q
    using that Cons.prems by (cases q) auto
  moreover have "parents_first (insert (s # x) B) (map ((#) s) xs)"
    using Cons.IH[of "insert x A" "insert (s # x) B"] Cons.prems by auto
  ultimately show ?case by simp
qed simp

lemma tree_dirs_parents_first: "parents_first {} (tree_dirs n)"
proof (induction n)
  case (Dir es)
  have "parents_first B (concat (map (\<lambda>e. map ((#) (fst e)) (tree_dirs (snd e))) xs))"
    if "[] \<in> B" "set xs \<subseteq> set es" for B xs
    using that
  proof (induction xs arbitrary: B)
    case (Cons e xs)
    have "parents_first {} (tree_dirs (snd e))"
      by (rule Dir.IH[OF _ snd_in_snds]) (use Cons.prems in simp)
    then have "parents_first B (map ((#) (fst e)) (tree_dirs (snd e)))"
      by (rule parents_first_below) (use Cons.prems in auto)
    with Cons show ?case by (simp add: parents_first_append)
  qed simp
  from this[of "{[]}" es] show ?case by simp
qed auto

lemma is_dirn_above: "is_dirn (tget t (q @ r)) \<Longrightarrow> is_dirn (tget t q)"
proof (cases "tget t q")
  case (Some n)
  assume "is_dirn (tget t (q @ r))"
  with Some show ?thesis by (cases n; cases r) (auto simp: tget_append is_dirn_iff)
qed (simp add: tget_append)

section \<open>Where the paths lead\<close>

lemma plain_end_at: "plain_end p \<Longrightarrow> \<forall>s \<in> set r. plain_name s \<Longrightarrow> plain_end (path_at p r)"
  by (cases r rule: rev_cases) (auto intro: plain_end_join)

lemma resolve_below:
  assumes "resolve True w p = Inr l" and "\<forall>s \<in> set r. plain_name s" and "r \<noteq> []"
    and "\<And>q. strict_prefix q r \<Longrightarrow> is_dirn (tget (fs w) (l @ q))"
    and "\<And>x. tget (fs w) (l @ r) = Some (Symlink x) \<Longrightarrow> \<not> f"
  shows "resolve f w (path_at p r) = Inr (l @ r)"
  using assms(2-5)
proof (induction r arbitrary: f rule: rev_induct)
  case (snoc s r)
  have d: "is_dirn (tget (fs w) (l @ r))" using snoc.prems(3)[of r] by (simp add: strict_prefix_def)
  then obtain es where es: "tget (fs w) (l @ r) = Some (Dir es)" by (auto simp: is_dirn_iff)
  have "resolve True w (path_at p r) = Inr (l @ r)"
  proof (cases "r = []")
    case False
    show ?thesis
    proof (rule snoc.IH)
      show "is_dirn (tget (fs w) (l @ q))" if "strict_prefix q r" for q
        using snoc.prems(3)[of q] that by (auto simp: strict_prefix_def prefix_def)
    qed (use snoc.prems(1) False es in auto)
  qed (simp add: assms(1))
  from resolve_name[OF this es, of s f] snoc.prems(1,4) show ?case by simp
qed simp

text \<open>The destination of a relative path a walk made.\<close>

lemma join_assoc:
  assumes "plain_name s" and "q \<noteq> []" and "\<not> is_abs q" and "last q \<noteq> slash"
  shows "path_join d (path_join q s) = path_join (path_join d q) s"
proof -
  have "\<not> is_abs s" using assms(1) by (rule plain_name_not_abs)
  moreover have "\<not> is_abs (q @ slash # s)" using assms(2,3) by (simp add: is_abs_append)
  ultimately show ?thesis using assms(2-4) by (auto simp: path_join_def)
qed

lemma rel_path_props:
  assumes "\<forall>s \<in> set r. plain_name s" and "r \<noteq> []"
  shows "path_at [] r \<noteq> []" and "\<not> is_abs (path_at [] r)" and "last (path_at [] r) \<noteq> slash"
proof -
  have "path_at [] r \<noteq> [] \<and> \<not> is_abs (path_at [] r) \<and> last (path_at [] r) \<noteq> slash"
    using assms
  proof (induction r rule: rev_induct)
    case (snoc s r)
    have s: "plain_name s" using snoc.prems(1) by simp
    have e: "plain_end (path_join (path_at [] r) s)" using s by (rule plain_end_join)
    have "\<not> is_abs (path_join (path_at [] r) s)"
      using snoc s by (cases "r = []") (simp_all add: is_abs_join, simp add: is_abs_def)
    with e show ?case by (simp add: plain_end_def)
  qed simp
  then show "path_at [] r \<noteq> []" "\<not> is_abs (path_at [] r)" "last (path_at [] r) \<noteq> slash" by auto
qed

lemma target_at:
  assumes "\<forall>s \<in> set r. plain_name s"
  shows "target_path d (path_at [] r) = path_at d r"
proof (cases "r = []")
  case False
  have "path_join d (path_at [] r) = path_at d r"
    using False assms
  proof (induction r rule: rev_induct)
    case (snoc s r)
    have s: "plain_name s" "\<forall>s \<in> set r. plain_name s" using snoc.prems(2) by auto
    show ?case
    proof (cases "r = []")
      case True
      then show ?thesis by (simp add: path_join_def)
    next
      case ne: False
      from join_assoc[OF s(1) rel_path_props[OF s(2) ne]] snoc.IH[OF ne s(2)] show ?thesis by simp
    qed
  qed simp
  with rel_path_props(1)[OF assms False] show ?thesis by (simp add: target_path_def)
qed (simp add: target_path_def)

end
