(* ===== verification/Copy_Laws.thy ===== *)
theory Copy_Laws
  imports Mover_Copy Samples
begin

text \<open>
  What copying one file does, for every fault script: the two steps of \<open>copy_file\<close> touch the
  destination only, and when the copy reports success the destination holds the source's bytes.
\<close>

lemma file_open_result:
  assumes "file_open p w = (r, v)"
  shows "fs v = fs w" and "cwd v = cwd w" and "r = Inr l \<Longrightarrow> resolve True w p = Inr l"
  using assms unfolding file_open_def
  by (cases rule: sys_cases; auto split: sum.splits if_splits)+

lemma two_paths_follow:
  assumes "two_paths a b p q w"
  shows "resolve True w p = Inr a" and "resolve True w q = Inr b"
proof -
  have "resolve False w p = Inr a" "\<And>x. tget (fs w) a \<noteq> Some (Symlink x)"
    "resolve False w q = Inr b" "\<And>x. tget (fs w) b \<noteq> Some (Symlink x)"
    using assms by (auto simp: two_paths_def skel_of_def)
  then show "resolve True w p = Inr a" "resolve True w q = Inr b" by (auto intro: resolve_follow)
qed

lemma file_create_result:
  assumes "two_paths a b p q w" and "file_create q w = (r, v)"
  shows "only_file {b} w v" and "r = Inr l \<Longrightarrow> l = b \<and> holds b [] v"
proof -
  note u = two_pathsD[OF assms(1)]
  have e: "\<not> (q \<noteq> [] \<and> last q = slash)" using assms(1) by (simp add: two_paths_def plain_end_def)
  have leaf: "tget (fs w) b = None \<or> (\<exists>d. tget (fs w) b = Some (File d))"
    using u(10) by (auto simp: skel_of_cases is_filen_iff)
  have put: "files (tput (fs w) b (File d)) = (files (fs w))(b \<mapsto> d)"
    "skel_eq (fs w) (tput (fs w) b (File d))" for d
    using u(3,10,12) by (simp_all add: files_put_file skel_put_file skel_eq_sym)
  have "only_file {b} w v \<and> (\<forall>l. r = Inr l \<longrightarrow> l = b \<and> holds b [] v)"
  proof (cases rule: sys_cases[OF assms(2)[unfolded file_create_def]])
    case (1 e)
    then show ?thesis by (simp add: only_file_same)
  next
    case (2 t)
    from leaf show ?thesis
      using 2 e two_paths_follow(2)[OF assms(1)] put
      by (auto simp: only_file_def holds_def new_file_def)
  qed
  then show "only_file {b} w v" and "r = Inr l \<Longrightarrow> l = b \<and> holds b [] v" by blast+
qed

lemma handle_mode_result: "handle_mode l w = (r, v) \<Longrightarrow> fs v = fs w \<and> cwd v = cwd w"
  unfolding handle_mode_def by (drule sys_query) simp

lemma holds_frame: "only_file ls w v \<Longrightarrow> l \<notin> ls \<Longrightarrow> holds l bs v = holds l bs w"
  by (simp add: only_file_def holds_def)

lemma copy_open_result:
  assumes "two_paths a b p q w" and "copy_open p q w = (r, v)"
  shows "only_file {b} w v"
    and "r = Inr c \<Longrightarrow> c_src c = a \<and> c_dst c = b \<and> c_off c = 0 \<and> holds b [] v"
proof -
  obtain r1 w1 where o: "file_open p w = (r1, w1)" by fastforce
  note fo = file_open_result[OF o]
  have t1: "two_paths a b p q w1" using two_paths_frame[OF assms(1) only_file_same[OF fo(1,2)]] .
  have "only_file {b} w v \<and> (\<forall>c. r = Inr c \<longrightarrow> c_src c = a \<and> c_dst c = b \<and> c_off c = 0 \<and> holds b [] v)"
  proof (cases r1)
    case (Inl e)
    with assms(2) o fo show ?thesis by (auto simp: copy_open_def only_file_same)
  next
    case (Inr l)
    with fo(3) two_paths_follow(1)[OF assms(1)] have l: "l = a" by simp
    obtain r2 w2 where c: "file_create q w1 = (r2, w2)" by fastforce
    note fc = file_create_result[OF t1 c]
    have f2: "only_file {b} w w2" using fc(1) fo(1,2) by (simp add: only_file_def)
    show ?thesis
    proof (cases r2)
      case e: (Inl e)
      with assms(2) o c Inr f2 show ?thesis by (auto simp: copy_open_def)
    next
      case d: (Inr d)
      obtain r3 w3 where h: "handle_mode l w2 = (r3, w3)" by fastforce
      note hm = handle_mode_result[OF h]
      have f3: "only_file {b} w w3" using f2 hm by (simp add: only_file_def)
      have "d = b" "holds b [] w3" using fc(2)[OF d] hm by (simp_all add: holds_def)
      moreover have "v = w3" "r = (case r3 of Inl e \<Rightarrow> Inl e
          | Inr perm \<Rightarrow> Inr \<lparr>c_src = l, c_dst = d, c_perm = perm, c_off = 0\<rparr>)"
        using assms(2) o c h unfolding Inr d by (auto simp: copy_open_def split: sum.splits)
      ultimately show ?thesis using f3 l by (cases r3) auto
    qed
  qed
  then show "only_file {b} w v"
    and "r = Inr c \<Longrightarrow> c_src c = a \<and> c_dst c = b \<and> c_off c = 0 \<and> holds b [] v" by blast+
qed

lemma set_mode_result:
  assumes "env_ok w"
  shows "only_file {l} w (snd (set_mode l m w))" and "holds k bs (snd (set_mode l m w)) = holds k bs w"
proof -
  obtain r v where s: "set_mode l m w = (r, v)" by fastforce
  have "only_file {l} w v \<and> (holds k bs v = holds k bs w)"
  proof (cases rule: sys_cases[OF s[unfolded set_mode_def]])
    case (1 e)
    then show ?thesis by (simp add: only_file_same holds_def)
  next
    case (2 t)
    then have v: "fs v = map_file (\<lambda>d. d\<lparr>fmode := m\<rparr>) l (fs w)" "cwd v = cwd w" by auto
    note om = only_file_map[OF assms v]
    have "holds k bs v = holds k bs w"
    proof (cases "k = l")
      case True
      then show ?thesis using om(2) by (auto simp: holds_def)
    qed (use holds_frame[OF om(1)] in simp)
    with om show ?thesis by simp
  qed
  with s show "only_file {l} w (snd (set_mode l m w))" and "holds k bs (snd (set_mode l m w)) = holds k bs w"
    by simp_all
qed

lemma copy_chunk_result:
  assumes "env_ok w" and "c_src c \<noteq> c_dst c" and "holds (c_src c) bs w"
    and "holds (c_dst c) (take (c_off c) bs) w" and "c_off c \<le> length bs" and "copy_chunk c w = (r, v)"
  shows "only_file {c_dst c} w v"
    and "r = Inr None \<Longrightarrow> holds (c_dst c) bs v"
    and "r = Inr (Some c') \<Longrightarrow> c_src c' = c_src c \<and> c_dst c' = c_dst c \<and> c_off c' \<le> length bs \<and>
           holds (c_dst c) (take (c_off c') bs) v"
proof -
  obtain d where d: "files (fs w) (c_src c) = Some d" "fbytes d = bs"
    using assms(3) by (auto simp: holds_def)
  obtain r1 w1 where ra: "read_at (c_src c) (c_off c) buf_len w = (r1, w1)" by fastforce
  have q: "fs w1 = fs w" "cwd w1 = cwd w"
    using sys_query[OF ra[unfolded read_at_def]] by simp_all
  have e1: "env_ok w1" using assms(1) q by (simp add: env_ok_def)
  have h1: "holds (c_dst c) (take (c_off c) bs) w1" using assms(4) q by (simp add: holds_def)
  have "only_file {c_dst c} w v \<and> (r = Inr None \<longrightarrow> holds (c_dst c) bs v) \<and>
      (\<forall>c'. r = Inr (Some c') \<longrightarrow> c_src c' = c_src c \<and> c_dst c' = c_dst c \<and> c_off c' \<le> length bs \<and>
           holds (c_dst c) (take (c_off c') bs) v)"
  proof (cases r1)
    case (Inl e)
    with assms(6) ra q show ?thesis by (auto simp: copy_chunk_def read_buf_def only_file_same)
  next
    case (Inr buf)
    with read_at_cases(3)[of "c_src c" "c_off c" buf_len w buf w1] ra d
    have buf: "buf = take buf_len (drop (c_off c) bs)" by simp
    show ?thesis
    proof (cases "buf = []")
      case True
      with buf assms(5) have off: "c_off c = length bs" by (auto simp: buf_len_def)
      from True Inr ra assms(6) have v: "v = snd (set_mode (c_dst c) (c_perm c) w1)" "r = Inr None"
        by (auto simp: copy_chunk_def read_buf_def)
      note sm = set_mode_result[OF e1]
      have "holds (c_dst c) bs v" using h1 off by (simp add: v(1) sm(2))
      moreover have "only_file {c_dst c} w v" using sm(1) q by (simp add: v(1) only_file_def)
      ultimately show ?thesis using v(2) by simp
    next
      case False
      obtain r2 w2 where wa: "write_all (c_dst c) (c_off c) buf w1 = (r2, w2)" by fastforce
      have o: "only_file {c_dst c} w w2" using write_all_outcome[OF wa e1] q by (simp add: only_file_def)
      have "c_off c = length (take (c_off c) bs)" using assms(5) by simp
      from write_all_holds[OF wa e1 h1 this] have "r2 = Inr () \<Longrightarrow> holds (c_dst c) (take (c_off c) bs @ buf) w2"
        by auto
      moreover have "take (c_off c) bs @ buf = take (c_off c + length buf) bs"
        using buf assms(5) by (simp add: take_add min_def)
      moreover have "c_off c + length buf \<le> length bs" using buf assms(5) by simp
      ultimately show ?thesis using assms(6) ra Inr False wa o
        by (cases r2) (auto simp: copy_chunk_def read_buf_def)
    qed
  qed
  then show "only_file {c_dst c} w v"
    and "r = Inr None \<Longrightarrow> holds (c_dst c) bs v"
    and "r = Inr (Some c') \<Longrightarrow> c_src c' = c_src c \<and> c_dst c' = c_dst c \<and> c_off c' \<le> length bs \<and>
           holds (c_dst c) (take (c_off c') bs) v" by simp_all
qed

lemma copy_loop_result:
  assumes "env_ok w" and "c_src c \<noteq> c_dst c" and "holds (c_src c) bs w"
    and "holds (c_dst c) (take (c_off c) bs) w" and "c_off c \<le> length bs" and "copy_loop c w = (r, v)"
  shows "only_file {c_dst c} w v \<and> (\<forall>n. r = Inr n \<longrightarrow> holds (c_dst c) bs v \<and> n = of_nat (length bs))"
  using assms
proof (induction c w rule: copy_loop.induct)
  case (1 c w)
  obtain r1 w1 where cc: "copy_chunk c w = (r1, w1)" by fastforce
  note st = copy_chunk_result[OF "1.prems"(1-5) cc]
  show ?case
  proof (cases r1)
    case (Inl e)
    with "1.prems"(6) cc st(1) show ?thesis by (subst (asm) copy_loop.simps) auto
  next
    case (Inr x)
    show ?thesis
    proof (cases x)
      case None
      have "c_off c = length bs"
      proof -
        obtain d where "files (fs w) (c_src c) = Some d" "fbytes d = bs"
          using "1.prems"(3) by (auto simp: holds_def)
        moreover obtain buf w2 where "read_at (c_src c) (c_off c) buf_len w = (Inr buf, w2)" "buf = []"
          using cc Inr None by (auto simp: copy_chunk_def read_buf_def split: prod.splits sum.splits if_splits)
        ultimately show ?thesis
          using read_at_cases(3)[of "c_src c" "c_off c" buf_len w buf w2] "1.prems"(5) by (auto simp: buf_len_def)
      qed
      with None Inr "1.prems"(6) cc st(1,2) show ?thesis by (subst (asm) copy_loop.simps) auto
    next
      case (Some c')
      note s3 = st(3)[OF Inr[unfolded Some]]
      have "copy_loop c' w1 = (r, v)"
        using Some Inr "1.prems"(6) cc by (subst (asm) copy_loop.simps) simp
      moreover have "env_ok w1" using only_file_env[OF st(1) "1.prems"(1)] .
      moreover have "holds (c_src c') bs w1"
        using holds_frame[OF st(1)] s3 "1.prems"(2,3) by simp
      ultimately have "only_file {c_dst c} w1 v \<and> (\<forall>n. r = Inr n \<longrightarrow> holds (c_dst c) bs v \<and> n = of_nat (length bs))"
        using "1.IH"[OF cc[symmetric] Inr Some] s3 "1.prems"(2) by simp
      with st(1) show ?thesis by (blast intro: only_file_trans)
    qed
  qed
qed

lemma copy_file_result:
  assumes "two_paths a b p q w" and "holds a bs w" and "copy_file p q w = (r, v)"
  shows "only_file {b} w v" and "r = Inr n \<Longrightarrow> holds b bs v \<and> n = of_nat (length bs)"
proof -
  have ne: "a \<noteq> b" "env_ok w" using assms(1) by (simp_all add: two_paths_def)
  obtain r1 w1 where o: "copy_open p q w = (r1, w1)" by fastforce
  note co = copy_open_result[OF assms(1) o]
  have "only_file {b} w v \<and> (\<forall>n. r = Inr n \<longrightarrow> holds b bs v \<and> n = of_nat (length bs))"
  proof (cases r1)
    case (Inl e)
    with assms(3) o co(1) show ?thesis by (auto simp: copy_file_def)
  next
    case (Inr c)
    note c = co(2)[OF Inr]
    have "holds a bs w1" using holds_frame[OF co(1)] ne assms(2) by simp
    moreover have "copy_loop c w1 = (r, v)" using assms(3) o Inr by (simp add: copy_file_def)
    ultimately show ?thesis
      using copy_loop_result[of w1 c bs r v] c ne only_file_env[OF co(1) ne(2)] only_file_trans[OF co(1)] by auto
  qed
  then show "only_file {b} w v" and "r = Inr n \<Longrightarrow> holds b bs v \<and> n = of_nat (length bs)" by auto
qed

text \<open>C22 \<open>copy_file\<close>, whatever faults occur: it changes nothing but the destination, and if it returns
  success the destination holds the source's bytes, all of them, and the count returned is theirs.\<close>

theorem copy_file_correct:
  assumes "two_paths a b p q w" and "holds a bs w" and "copy_file p q w = (r, v)"
  shows "only_file {b} w v \<and> holds a bs v \<and> (\<forall>n. r = Inr n \<longrightarrow> holds b bs v \<and> n = of_nat (length bs))"
proof -
  note cf = copy_file_result[OF assms]
  have "a \<noteq> b" using assms(1) by (simp add: two_paths_def)
  then have "holds a bs v" using holds_frame[OF cf(1)] assms(2) by simp
  with cf show ?thesis by blast
qed

lemma copy_file_correct_witness:
  "holds [''src'', ''a.txt''] [1, 2, 3] (snd (copy_file ''/src/a.txt'' ''/dst/c'' sample_world))"
proof -
  obtain r v where c: "copy_file ''/src/a.txt'' ''/dst/c'' sample_world = (r, v)" by fastforce
  show ?thesis using copy_file_correct[OF sample_two_paths sample_holds c] c by simp
qed

end
