(* ===== verification/Transfer_Laws.thy ===== *)
theory Transfer_Laws
  imports Job_Laws Copy_Laws
begin

text \<open>
  The workers of \<open>run_job\<close>, for every schedule of their steps and every fault script.  The
  assertions of one file say where its bytes are in each phase; two files do not interfere, since
  the source and destination of one are not those of another.
\<close>

section \<open>Assertions of one file\<close>

definition src_path :: "transfer \<Rightarrow> nat \<Rightarrow> path" where
  "src_path t i = fst (t_files t ! i)"

definition dst_path :: "transfer \<Rightarrow> nat \<Rightarrow> path" where
  "dst_path t i = target_path (t_dst t) (snd (t_files t ! i))"

text \<open>Where the paths of a job lead: \<open>ss i\<close> and \<open>ts i\<close> are source and destination of file \<open>i\<close>.\<close>

definition job_paths :: "transfer \<Rightarrow> (nat \<Rightarrow> loc) \<Rightarrow> (nat \<Rightarrow> loc) \<Rightarrow> world \<Rightarrow> bool" where
  "job_paths t ss ts w \<longleftrightarrow>
     (\<forall>i < length (t_files t). two_paths (ss i) (ts i) (src_path t i) (dst_path t i) w \<and>
        (\<forall>j < length (t_files t). i \<noteq> j \<longrightarrow> ss i \<noteq> ss j \<and> ts i \<noteq> ts j \<and> ss i \<noteq> ts j))"

definition arrived :: "transfer \<Rightarrow> (nat \<Rightarrow> loc) \<Rightarrow> (nat \<Rightarrow> loc) \<Rightarrow> (nat \<Rightarrow> bytes) \<Rightarrow> nat \<Rightarrow> world \<Rightarrow> bool" where
  "arrived t ss ts bs i w \<longleftrightarrow>
     holds (ts i) (bs i) w \<and>
     (if t_op t = ''move'' then files (fs w) (ss i) = None else holds (ss i) (bs i) w)"

definition t_before :: "(nat \<Rightarrow> loc) \<Rightarrow> (nat \<Rightarrow> bytes) \<Rightarrow> nat \<Rightarrow> work \<Rightarrow> bool" where
  "t_before ss bs i s \<longleftrightarrow> holds (ss i) (bs i) (jw s)"

fun t_during :: "transfer \<Rightarrow> (nat \<Rightarrow> loc) \<Rightarrow> (nat \<Rightarrow> loc) \<Rightarrow> (nat \<Rightarrow> bytes) \<Rightarrow> nat \<Rightarrow> phase \<Rightarrow> work \<Rightarrow> bool" where
  "t_during t ss ts bs i (Copying sz c) s \<longleftrightarrow>
     holds (ss i) (bs i) (jw s) \<and> c_src c = ss i \<and> c_dst c = ts i \<and> c_off c \<le> length (bs i) \<and>
     holds (ts i) (take (c_off c) (bs i)) (jw s)"
| "t_during t ss ts bs i (Removing sz) s \<longleftrightarrow>
     t_op t = ''move'' \<and> holds (ss i) (bs i) (jw s) \<and> holds (ts i) (bs i) (jw s)"
| "t_during t ss ts bs i (Counting sz ok) s \<longleftrightarrow>
     (if ok then arrived t ss ts bs i (jw s) else holds (ss i) (bs i) (jw s) \<and> 0 < failed s)"
| "t_during t ss ts bs i ph s \<longleftrightarrow> holds (ss i) (bs i) (jw s)"

definition t_after :: "transfer \<Rightarrow> (nat \<Rightarrow> loc) \<Rightarrow> (nat \<Rightarrow> loc) \<Rightarrow> (nat \<Rightarrow> bytes) \<Rightarrow> nat \<Rightarrow> work \<Rightarrow> bool" where
  "t_after t ss ts bs i s \<longleftrightarrow>
     arrived t ss ts bs i (jw s) \<or> holds (ss i) (bs i) (jw s) \<and> 0 < failed s"

text \<open>The locations a job may change: the destinations, and the sources only if it moves.\<close>

definition touched :: "transfer \<Rightarrow> (nat \<Rightarrow> loc) \<Rightarrow> (nat \<Rightarrow> loc) \<Rightarrow> nat \<Rightarrow> loc set" where
  "touched t ss ts i = (if t_op t = ''move'' then {ss i, ts i} else {ts i})"

definition all_touched :: "transfer \<Rightarrow> (nat \<Rightarrow> loc) \<Rightarrow> (nat \<Rightarrow> loc) \<Rightarrow> loc set" where
  "all_touched t ss ts = (\<Union>i < length (t_files t). touched t ss ts i)"

lemma touched_pair: "touched t ss ts i \<subseteq> {ss i, ts i}" "ts i \<in> touched t ss ts i"
  by (auto simp: touched_def)

lemma touched_all: "i < length (t_files t) \<Longrightarrow> touched t ss ts i \<subseteq> all_touched t ss ts"
  by (auto simp: all_touched_def)

definition t_inv :: "transfer \<Rightarrow> (nat \<Rightarrow> loc) \<Rightarrow> (nat \<Rightarrow> loc) \<Rightarrow> world \<Rightarrow> u64 \<Rightarrow> nat set \<Rightarrow> work \<Rightarrow> bool" where
  "t_inv t ss ts w0 d0 F s \<longleftrightarrow>
     job_paths t ss ts (jw s) \<and> F \<subseteq> {..<length (t_files t)} \<and>
     only_file (all_touched t ss ts) w0 (jw s) \<and>
     tally (t_id t) d0 F s"

section \<open>One step\<close>

lemma job_pathsD:
  assumes "job_paths t ss ts w" and "i < length (t_files t)"
  shows "two_paths (ss i) (ts i) (src_path t i) (dst_path t i) w"
    and "j < length (t_files t) \<Longrightarrow> j \<noteq> i \<Longrightarrow> {ss i, ts i} \<inter> {ss j, ts j} = {}"
  using assms by (fastforce simp: job_paths_def)+

lemma job_paths_frame: "job_paths t ss ts w \<Longrightarrow> only_file ls w v \<Longrightarrow> job_paths t ss ts v"
  unfolding job_paths_def by (blast intro: two_paths_frame)

text \<open>What a step does to the files, and the assertion it leaves.\<close>

definition step_ok where
  "step_ok t ss ts bs i s r s' \<longleftrightarrow>
     only_file (touched t ss ts i) (jw s) (jw s') \<and> failed s \<le> failed s' \<and>
     (case r of Some ph \<Rightarrow> t_during t ss ts bs i ph s' | None \<Rightarrow> t_after t ss ts bs i s')"

lemma start_copy_ok:
  assumes "two_paths (ss i) (ts i) p q (jw s)" and "holds (ss i) (bs i) (jw s)"
    and "start_copy E sz p q s = (ph, s')"
  shows "step_ok t ss ts bs i s (Some ph) s'"
proof -
  obtain r v where c: "copy_open p q (jw s) = (r, v)" by fastforce
  note co = copy_open_result[OF assms(1) c]
  have o: "only_file (touched t ss ts i) (jw s) v" using co(1) by (rule only_file_mono) (simp add: touched_pair)
  have "ss i \<noteq> ts i" using assms(1) by (simp add: two_paths_def)
  then have h: "holds (ss i) (bs i) v" using holds_frame[OF co(1)] assms(2) by simp
  show ?thesis using assms(3) c o h co(2)
    by (cases r) (auto simp: start_copy_def on_world_def step_ok_def)
qed

lemma moving_ok:
  assumes "two_paths (ss i) (ts i) (src_path t i) (dst_path t i) (jw s)" and "holds (ss i) (bs i) (jw s)"
    and "transfer_step E t i (Moving sz) s = (r, s')"
  shows "step_ok t ss ts bs i s r s'"
proof (cases "t_op t = ''move'' \<and> t_same_drive t")
  case False
  then show ?thesis
    using assms(3) start_copy_ok[where ss=ss and ts=ts and bs=bs and i=i, OF assms(1,2), of E sz _ s']
    by (auto simp: transfer_step_def src_path_def dst_path_def Let_def split: prod.splits if_splits)
next
  case True
  obtain r1 v where rn: "rename_path (src_path t i) (dst_path t i) (jw s) = (r1, v)" by fastforce
  obtain d where d: "files (fs (jw s)) (ss i) = Some d" "fbytes d = bs i" using assms(2) by (auto simp: holds_def)
  note rt = rename_two[OF assms(1) d(1) rn]
  have ne: "ss i \<noteq> ts i" using assms(1) by (simp add: two_paths_def)
  have o: "only_file (touched t ss ts i) (jw s) v" using rt True by (auto simp: only_file_def touched_def)
  show ?thesis
  proof (cases r1)
    case (Inr u)
    then have "files (fs v) = (files (fs (jw s)))(ss i := None, ts i \<mapsto> d)" using rt by auto
    then have "arrived t ss ts bs i v" using True d ne by (simp add: arrived_def holds_def)
    moreover have "r = Some (Counting sz True)" "s' = s\<lparr>jw := v\<rparr>"
      using assms(3) True rn Inr by (auto simp: transfer_step_def src_path_def dst_path_def on_world_def)
    ultimately show ?thesis using o by (simp add: step_ok_def)
  next
    case (Inl e)
    then have f: "files (fs v) = files (fs (jw s))" using rt by auto
    have h: "holds (ss i) (bs i) v" using assms(2) f by (simp add: holds_def)
    show ?thesis
    proof (cases "kind_of e = CrossesDevices \<or> e = Os EIO")
      case False
      then have "r = Some (Failing sz (Some (io_text E e)))" "s' = s\<lparr>jw := v\<rparr>"
        using assms(3) True rn Inl by (auto simp: transfer_step_def src_path_def dst_path_def on_world_def)
      with o h show ?thesis by (simp add: step_ok_def)
    next
      case fall: True
      obtain ph s2 where sc: "start_copy E sz (src_path t i) (dst_path t i) (s\<lparr>jw := v\<rparr>) = (ph, s2)" by fastforce
      have "r = Some ph" "s' = s2"
        using assms(3) True rn Inl fall sc by (auto simp: transfer_step_def src_path_def dst_path_def on_world_def)
      moreover have "step_ok t ss ts bs i (s\<lparr>jw := v\<rparr>) (Some ph) s2"
        using start_copy_ok[where ss=ss and ts=ts and bs=bs and i=i, OF _ _ sc] two_paths_frame[OF assms(1) o] h by simp
      ultimately show ?thesis using o by (auto simp: step_ok_def intro: only_file_trans)
    qed
  qed
qed

lemma copying_ok:
  assumes "two_paths (ss i) (ts i) p q (jw s)" and "t_during t ss ts bs i (Copying sz c) s"
    and "transfer_step E t i (Copying sz c) s = (r, s')"
  shows "step_ok t ss ts bs i s r s'"
proof -
  have a: "env_ok (jw s)" "c_src c \<noteq> c_dst c" "holds (c_src c) (bs i) (jw s)"
    "holds (c_dst c) (take (c_off c) (bs i)) (jw s)" "c_off c \<le> length (bs i)" "c_src c = ss i" "c_dst c = ts i"
    using assms(1,2) by (auto simp: two_paths_def)
  obtain r1 v where c: "copy_chunk c (jw s) = (r1, v)" by fastforce
  note cc = copy_chunk_result[OF a(1-5) c]
  have o: "only_file (touched t ss ts i) (jw s) v" using cc(1) a(7) touched_pair(2) by (auto intro: only_file_mono)
  have h: "holds (ss i) (bs i) v" using holds_frame[OF cc(1)] a by simp
  have s': "s' = s\<lparr>jw := v\<rparr>" and r: "r = Some (case r1 of Inl e \<Rightarrow> Failing sz (Some (io_text E e))
      | Inr None \<Rightarrow> if t_op t = ''move'' then Removing sz else Counting sz True
      | Inr (Some c1) \<Rightarrow> Copying sz c1)"
    using assms(3) c by (auto simp: transfer_step_def on_world_def Let_def split: sum.splits option.splits)
  show ?thesis
  proof (cases r1)
    case (Inl e)
    with r s' o h show ?thesis by (simp add: step_ok_def)
  next
    case (Inr x)
    show ?thesis
    proof (cases x)
      case None
      with Inr cc(2) a have "holds (ts i) (bs i) v" by simp
      with None Inr r s' o h show ?thesis by (simp add: step_ok_def arrived_def)
    next
      case (Some c1)
      with Inr cc(3) have "c_src c1 = c_src c \<and> c_dst c1 = c_dst c \<and> c_off c1 \<le> length (bs i) \<and>
          holds (c_dst c) (take (c_off c1) (bs i)) v" by simp
      with Some Inr r s' o h a show ?thesis by (simp add: step_ok_def)
    qed
  qed
qed

lemma removing_ok:
  assumes "two_paths (ss i) (ts i) (src_path t i) q (jw s)" and "t_during t ss ts bs i (Removing sz) s"
    and "transfer_step E t i (Removing sz) s = (r, s')"
  shows "step_ok t ss ts bs i s r s'"
proof -
  note u = two_pathsD[OF assms(1)]
  obtain r1 v where c: "remove_file (src_path t i) (jw s) = (r1, v)" by fastforce
  note rf = remove_file_result[OF u(5,2,9) c]
  have "only_file {ss i} (jw s) v" using remove_file_only_file(1)[OF u(5,1,2,9)] c by simp
  then have o: "only_file (touched t ss ts i) (jw s) v"
    by (rule only_file_mono) (use assms(2) in \<open>simp add: touched_def\<close>)
  have m: "t_op t = ''move''" "holds (ss i) (bs i) (jw s)" "holds (ts i) (bs i) (jw s)" using assms(2) by auto
  show ?thesis
  proof (cases r1)
    case (Inl e)
    then have "holds (ss i) (bs i) v" using rf(2) m by (simp add: holds_def)
    moreover have "r = Some (Failing sz None)" "s' = s\<lparr>jw := v\<rparr>"
      using assms(3) c Inl by (auto simp: transfer_step_def src_path_def on_world_def)
    ultimately show ?thesis using o by (simp add: step_ok_def)
  next
    case (Inr x)
    then have "files (fs v) = (files (fs (jw s)))(ss i := None)" using rf(1) by simp
    then have "arrived t ss ts bs i v" using m u(4) by (simp add: arrived_def holds_def)
    moreover have "r = Some (Counting sz True)" "s' = s\<lparr>jw := v\<rparr>"
      using assms(3) c Inr by (auto simp: transfer_step_def src_path_def on_world_def)
    ultimately show ?thesis using o by (simp add: step_ok_def)
  qed
qed

lemma transfer_step_ok:
  assumes "two_paths (ss i) (ts i) (src_path t i) (dst_path t i) (jw s)" and "t_during t ss ts bs i ph s"
    and "transfer_step E t i ph s = (r, s')"
  shows "step_ok t ss ts bs i s r s'"
proof (cases ph)
  case Sizing
  obtain r1 v where m: "symlink_metadata (src_path t i) (jw s) = (r1, v)" by fastforce
  have q: "fs v = fs (jw s)" "cwd v = cwd (jw s)"
    using sys_query[OF m[unfolded symlink_metadata_def]] by simp_all
  then have "holds (ss i) (bs i) v" using assms(2) Sizing by (simp add: holds_def)
  then show ?thesis using assms(3) Sizing m q
    by (cases r1) (auto simp: transfer_step_def src_path_def on_world_def step_ok_def only_file_same)
next
  case (Noting sz)
  then show ?thesis using assms(2,3) by (auto simp: transfer_step_def step_ok_def Let_def)
next
  case (Moving sz)
  then show ?thesis using moving_ok[where ss=ss and ts=ts and bs=bs and i=i] assms by auto
next
  case (Copying sz c)
  then show ?thesis using copying_ok[where ss=ss and ts=ts and bs=bs and i=i] assms by auto
next
  case (Removing sz)
  then show ?thesis using removing_ok[where ss=ss and ts=ts and bs=bs and i=i] assms by auto
next
  case (Failing sz e)
  then show ?thesis using assms(2,3) by (auto simp: transfer_step_def step_ok_def Let_def)
next
  case (Counting sz ok)
  then show ?thesis using assms(2,3) by (auto simp: transfer_step_def step_ok_def t_after_def Let_def split: if_splits)
qed

section \<open>The record of the job\<close>

lemma transfer_step_jobs:
  assumes "transfer_step E t i ph s = (r, s')"
  shows "\<exists>g. jobs s' = reg_update (t_id t) g (jobs s) \<and>
    counts (if r = None then 1 else 0) (failed s < failed s') g"
proof (cases ph)
  case Sizing
  with assms have "jobs s' = jobs s" "r \<noteq> None" "failed s' = failed s"
    by (auto simp: transfer_step_def on_world_def Let_def split: prod.splits sum.splits)
  then show ?thesis by (intro exI[of _ "\<lambda>j. j"]) (simp add: counts_def)
next
  case (Noting sz)
  with assms show ?thesis
    by (intro exI[of _ "note_current (fst (t_files t ! i))"])
       (auto simp: transfer_step_def counts_def Let_def)
next
  case (Moving sz)
  have sc: "start_copy E sz p q u = (x, u') \<Longrightarrow> jobs u' = jobs u \<and> failed u' = failed u" for p q u x u'
    by (auto simp: start_copy_def on_world_def split: prod.splits sum.splits)
  from Moving assms have "jobs s' = jobs s" "r \<noteq> None" "failed s' = failed s"
    by (auto simp: transfer_step_def on_world_def Let_def dest!: sc split: prod.splits sum.splits if_splits)
  then show ?thesis by (intro exI[of _ "\<lambda>j. j"]) (simp add: counts_def)
next
  case (Copying sz c)
  with assms have "jobs s' = jobs s" "r \<noteq> None" "failed s' = failed s"
    by (auto simp: transfer_step_def on_world_def Let_def split: prod.splits sum.splits option.splits)
  then show ?thesis by (intro exI[of _ "\<lambda>j. j"]) (simp add: counts_def)
next
  case (Removing sz)
  with assms have "jobs s' = jobs s" "r \<noteq> None" "failed s' = failed s"
    by (auto simp: transfer_step_def on_world_def Let_def split: prod.splits sum.splits)
  then show ?thesis by (intro exI[of _ "\<lambda>j. j"]) (simp add: counts_def)
next
  case (Failing sz err)
  define g where "g = note_error (fst (t_files t ! i) @ '' -> '' @ target_path (t_dst t) (snd (t_files t ! i)) @
      '': '' @ (case err of Some m \<Rightarrow> m | None \<Rightarrow> []))"
  have "jobs s' = reg_update (t_id t) g (jobs s)" "r \<noteq> None" "failed s < failed s'"
    using assms Failing by (auto simp: transfer_step_def g_def Let_def)
  moreover have "counts 0 True g" by (simp add: counts_def g_def)
  ultimately show ?thesis by auto
next
  case (Counting sz ok)
  with assms show ?thesis
    by (intro exI[of _ "\<lambda>j. j\<lparr>done_files := done_files j + 1,
          done_bytes := (if ok then done_bytes j + sz else done_bytes j)\<rparr>"])
       (auto simp: transfer_step_def counts_def Let_def)
qed

section \<open>The pool\<close>

lemma inv_step_ok:
  assumes "t_inv t ss ts w0 d0 F s" and "i < length (t_files t)" and "t_during t ss ts bs i ph s"
    and "transfer_step E t i ph s = (r, s')"
  shows "step_ok t ss ts bs i s r s'"
proof -
  have "two_paths (ss i) (ts i) (src_path t i) (dst_path t i) (jw s)"
    using assms(1,2) job_pathsD(1)[where ss=ss and ts=ts] by (simp add: t_inv_def)
  then show ?thesis using transfer_step_ok[where ss=ss and ts=ts and bs=bs and i=i] assms(3,4) by blast
qed

lemma inv_disjoint:
  assumes "t_inv t ss ts w0 d0 F s" and "i < length (t_files t)" and "j < length (t_files t)" and "j \<noteq> i"
  shows "{ss i, ts i} \<inter> {ss j, ts j} = {}"
proof -
  have "job_paths t ss ts (jw s)" using assms(1) by (simp add: t_inv_def)
  from job_pathsD(2)[where ss=ss and ts=ts, OF this assms(2-4)] show ?thesis .
qed

lemma step_inv:
  assumes "t_inv t ss ts w0 d0 F s" and "i < length (t_files t)" and "t_during t ss ts bs i ph s"
    and "transfer_step E t i ph s = (r, s')" and "r = None \<longrightarrow> i \<notin> F"
  shows "t_inv t ss ts w0 d0 (if r = None then insert i F else F) s'" and "step_ok t ss ts bs i s r s'"
proof -
  let ?F = "if r = None then insert i F else F"
  have p: "job_paths t ss ts (jw s)" using assms(1) by (simp add: t_inv_def)
  have ok: "step_ok t ss ts bs i s r s'" by (rule inv_step_ok[OF assms(1-4)])
  then show "step_ok t ss ts bs i s r s'" .
  have o: "only_file (touched t ss ts i) (jw s) (jw s')" and f: "failed s \<le> failed s'"
    using ok by (simp_all add: step_ok_def)
  have "finite F" using assms(1) finite_subset by (auto simp: t_inv_def)
  then have c: "card ?F = card F + (if r = None then 1 else 0)" using assms(5) by auto
  have "tally (t_id t) d0 ?F s'"
    using transfer_step_jobs[OF assms(4)] tally_step[OF _ _ _ c f] assms(1) by (auto simp: t_inv_def)
  moreover have "job_paths t ss ts (jw s')" using p o by (rule job_paths_frame)
  moreover have "only_file (all_touched t ss ts) w0 (jw s')"
    using only_file_mono[OF o touched_all[OF assms(2)]] assms(1) by (auto simp: t_inv_def intro: only_file_trans)
  moreover have "?F \<subseteq> {..<length (t_files t)}" using assms(1,2) by (auto simp: t_inv_def)
  ultimately show "t_inv t ss ts w0 d0 ?F s'" by (simp add: t_inv_def)
qed

text \<open>A step of one file keeps the assertions of another.\<close>

lemma others_stable:
  assumes "t_inv t ss ts w0 d0 F s" and "i < length (t_files t)" and "step_ok t ss ts bs i s r s'"
    and "j < length (t_files t)" and "j \<noteq> i"
  shows "holds (ss j) b (jw s') = holds (ss j) b (jw s)" "holds (ts j) b (jw s') = holds (ts j) b (jw s)"
    "files (fs (jw s')) (ss j) = files (fs (jw s)) (ss j)" "failed s \<le> failed s'"
proof -
  have "only_file (touched t ss ts i) (jw s) (jw s')" and f: "failed s \<le> failed s'"
    using assms(3) by (simp_all add: step_ok_def)
  then have o: "only_file {ss i, ts i} (jw s) (jw s')" using only_file_mono touched_pair(1) by blast
  have "{ss i, ts i} \<inter> {ss j, ts j} = {}" by (rule inv_disjoint[OF assms(1,2,4,5)])
  then show "holds (ss j) b (jw s') = holds (ss j) b (jw s)" "holds (ts j) b (jw s') = holds (ts j) b (jw s)"
    "files (fs (jw s')) (ss j) = files (fs (jw s)) (ss j)"
    using holds_frame[OF o] o by (auto simp: only_file_def)
  show "failed s \<le> failed s'" by (rule f)
qed

lemma during_others:
  assumes "t_inv t ss ts w0 d0 F s" and "i < length (t_files t)" and "step_ok t ss ts bs i s r s'"
    and "j < length (t_files t)" and "j \<noteq> i" and "t_during t ss ts bs j ph s"
  shows "t_during t ss ts bs j ph s'"
  using assms(6) others_stable[OF assms(1-5)] by (cases ph) (auto simp: arrived_def split: if_splits)

interpretation tp: work_pool Sizing "transfer_step E t" "length (t_files t)" "t_inv t ss ts w0 d0"
  "t_before ss bs" "t_during t ss ts bs" "t_after t ss ts bs" for E t ss ts w0 d0 bs
proof (unfold_locales, goal_cases)
  case (1 F s i)
  then show ?case by (simp add: t_before_def)
next
  case (2 F s i a b u)
  show ?case using step_inv[OF 2(1,2,4,5)] by (simp add: step_ok_def)
next
  case (3 F s i a u)
  show ?case using step_inv[OF 3(1,2,4,5)] 3(3) by (simp add: step_ok_def)
next
  case (4 F s i a r u j)
  have "step_ok t ss ts bs i s r u"
    by (rule inv_step_ok[OF 4(1-4)])
  from others_stable[OF 4(1,2) this 4(5,6)] 4(7) show ?case by (simp add: t_before_def)
next
  case (5 F s i a r u j b)
  have "step_ok t ss ts bs i s r u"
    by (rule inv_step_ok[OF 5(1-4)])
  from during_others[OF 5(1,2) this 5(5,6,7)] show ?case .
next
  case (6 F s i a r u j)
  have "step_ok t ss ts bs i s r u"
    by (rule inv_step_ok[OF 6(1-4)])
  from others_stable[OF 6(1,2) this 6(5,6)] 6(7) show ?case by (auto simp: t_after_def arrived_def)
qed

section \<open>The whole transfer\<close>

lemma pool_result:
  assumes "job_paths t ss ts (jw s)" and "\<forall>i < length (t_files t). holds (ss i) (bs i) (jw s)"
    and "map_of (jobs s) (t_id t) = Some j0"
    and "p = run_pool Sizing (transfer_step E t) (length (t_files t)) sched
                (new_pool (nthreads cpus) (job_state.extend s (work.fields 0)))" and "all_exited p"
  shows "t_inv t ss ts (jw s) (done_files j0) {..<length (t_files t)} (p_state p)"
    and "i < length (t_files t) \<Longrightarrow> t_after t ss ts bs i (p_state p)"
proof -
  let ?s = "job_state.extend s (work.fields 0)"
  have i0: "t_inv t ss ts (jw s) (done_files j0) {} ?s"
    using assms(1,3) by (auto simp: t_inv_def tally_def)
  have b: "\<forall>i < length (t_files t). t_before ss bs i ?s" using assms(2) by (simp add: t_before_def)
  have m: "0 < nthreads cpus" using nthreads_bounds(1)[of cpus] by simp
  note pd = tp.pool_done[of t ss ts "jw s" "done_files j0" ?s bs, OF i0 b m assms(4,5)]
  show "t_inv t ss ts (jw s) (done_files j0) {..<length (t_files t)} (p_state p)" using pd(1) by simp
  show "t_after t ss ts bs i (p_state p)" if "i < length (t_files t)" using pd(2)[OF that] .
qed

text \<open>C2 A copy job, under every interleaving of its workers and every pattern of faults: when the job ends it
  has counted every file, the sources are as they were, only the destinations changed, and if the job
  shows no error every destination holds exactly its source's bytes.\<close>

theorem copy_job_correct:
  assumes "job_paths t ss ts (jw s)" and "\<forall>i < length (t_files t). holds (ss i) (bs i) (jw s)"
    and "map_of (jobs s) (t_id t) = Some j0" and "t_op t \<noteq> ''move''"
    and "transfer_all E cpus sched t src s = Some s'"
  shows "\<exists>j. map_of (jobs s') (t_id t) = Some j \<and> status j = ''done'' \<and>
      done_files j = done_files j0 + of_nat (length (t_files t)) \<and>
      (\<forall>i < length (t_files t). holds (ss i) (bs i) (jw s')) \<and>
      (job_error j = None \<longrightarrow> (\<forall>i < length (t_files t). holds (ts i) (bs i) (jw s'))) \<and>
      (\<forall>q. (\<forall>i < length (t_files t). q \<noteq> ss i \<and> q \<noteq> ts i) \<longrightarrow> files (fs (jw s')) q = files (fs (jw s)) q)"
proof -
  define p where "p = run_pool Sizing (transfer_step E t) (length (t_files t)) sched
                (new_pool (nthreads cpus) (job_state.extend s (work.fields 0)))"
  have e: "all_exited p" and s': "s' = job_update (t_id t) (\<lambda>j. j\<lparr>status := ''done''\<rparr>) (job_state.truncate (p_state p))"
    using assms(4,5) unfolding transfer_all_def p_def[symmetric] by (auto simp: Let_def split: if_splits)
  note pr = pool_result[OF assms(1-3) p_def e]
  obtain j where j: "map_of (jobs (p_state p)) (t_id t) = Some j"
    "done_files j = done_files j0 + of_nat (length (t_files t))" "0 < failed (p_state p) \<longrightarrow> job_error j \<noteq> None"
    using pr(1) by (auto simp: t_inv_def tally_def)
  have a: "holds (ss i) (bs i) (jw (p_state p)) \<and> (failed (p_state p) = 0 \<longrightarrow> holds (ts i) (bs i) (jw (p_state p)))"
    if "i < length (t_files t)" for i
    using pr(2)[OF that] assms(4) by (auto simp: t_after_def arrived_def)
  have f: "files (fs (jw (p_state p))) q = files (fs (jw s)) q"
    if "\<forall>i < length (t_files t). q \<noteq> ss i \<and> q \<noteq> ts i" for q
    using pr(1) that by (auto simp: t_inv_def only_file_def all_touched_def touched_def)
  show ?thesis
    using a f j s' by (intro exI[of _ "j\<lparr>status := ''done''\<rparr>"]) (auto simp: map_of_reg_update)
qed

text \<open>C3 A move job loses nothing, under every interleaving and every pattern of faults: if no destination
  lies inside the source tree, then for every file its bytes are at its destination when the job ends
  with no error, and otherwise at its destination or still at its source.\<close>

theorem move_job_keeps_data:
  assumes "job_paths t ss ts (jw s)" and "\<forall>i < length (t_files t). holds (ss i) (bs i) (jw s)"
    and "map_of (jobs s) (t_id t) = Some j0" and "t_op t = ''move''"
    and "plain_end src" and "resolve False (jw s) src = Inr sl"
    and "\<forall>i < length (t_files t). \<not> prefix sl (ts i)"
    and "transfer_all E cpus sched t src s = Some s'"
  shows "\<exists>j. map_of (jobs s') (t_id t) = Some j \<and> status j = ''done'' \<and>
      done_files j = done_files j0 + of_nat (length (t_files t)) \<and>
      (\<forall>i < length (t_files t). holds (ts i) (bs i) (jw s') \<or>
          holds (ss i) (bs i) (jw s') \<and> job_error j \<noteq> None)"
proof -
  define p where "p = run_pool Sizing (transfer_step E t) (length (t_files t)) sched
                (new_pool (nthreads cpus) (job_state.extend s (work.fields 0)))"
  let ?s1 = "job_state.truncate (p_state p)"
  have e: "all_exited p" and s': "s' = job_update (t_id t) (\<lambda>j. j\<lparr>status := ''done''\<rparr>)
      (if failed (p_state p) = 0 then snd (on_world (remove_dir_all src) ?s1) else ?s1)"
    using assms(4,8) unfolding transfer_all_def p_def[symmetric] by (auto simp: Let_def split: if_splits)
  note pr = pool_result[OF assms(1-3) p_def e]
  obtain j where j: "map_of (jobs (p_state p)) (t_id t) = Some j"
    "done_files j = done_files j0 + of_nat (length (t_files t))" "0 < failed (p_state p) \<longrightarrow> job_error j \<noteq> None"
    using pr(1) by (auto simp: t_inv_def tally_def)
  have o: "only_file (all_touched t ss ts) (jw s) (jw (p_state p))"
    using pr(1) by (simp add: t_inv_def)
  have rs: "resolve_leaf (jw (p_state p)) src = Inr sl"
    using only_file_resolve[OF o assms(6)] assms(5) by (simp add: resolve_leaf_plain)
  have js: "map_of (jobs s') (t_id t) = Some (j\<lparr>status := ''done''\<rparr>)"
    using s' j(1) by (auto simp: map_of_reg_update on_world_simps)
  have "holds (ts i) (bs i) (jw s') \<or> holds (ss i) (bs i) (jw s') \<and> job_error j \<noteq> None"
    if i: "i < length (t_files t)" for i
  proof (cases "failed (p_state p) = 0")
    case False
    then show ?thesis using pr(2)[OF i] j(3) s' by (auto simp: t_after_def arrived_def)
  next
    case True
    then have h: "holds (ts i) (bs i) (jw (p_state p))" using pr(2)[OF i] by (simp add: t_after_def arrived_def)
    obtain r v where rd: "remove_dir_all src (jw (p_state p)) = (r, v)" by fastforce
    have "files (fs v) (ts i) = files (fs (jw (p_state p))) (ts i)"
      by (rule remove_dir_all_files[OF rd]) (use rs assms(6,7) i in auto)
    then show ?thesis using h s' True rd by (simp add: on_world_simps holds_def)
  qed
  with js j(2) show ?thesis by (intro exI[of _ "j\<lparr>status := ''done''\<rparr>"]) auto
qed

section \<open>A job with two files and two workers\<close>

definition sample_job_state :: "string \<Rightarrow> job_state" where
  "sample_job_state opn =
     \<lparr>jw = sample_world\<lparr>fs := tput sample_tree [''dst'', ''sub''] (Dir [])\<rparr>,
      jobs = [(1, new_job opn ''/src'' ''/dst'')]\<rparr>"

definition sample_transfer :: "string \<Rightarrow> transfer" where
  "sample_transfer opn =
     \<lparr>t_id = 1, t_op = opn, t_same_drive = True,
      t_files = [(''/src/a.txt'', ''a.txt''), (''/src/sub/b.txt'', ''sub/b.txt'')], t_dst = ''/dst''\<rparr>"

definition sample_ss :: "nat \<Rightarrow> loc" where
  "sample_ss i = (if i = 0 then [''src'', ''a.txt''] else [''src'', ''sub'', ''b.txt''])"

definition sample_ts :: "nat \<Rightarrow> loc" where
  "sample_ts i = (if i = 0 then [''dst'', ''a.txt''] else [''dst'', ''sub'', ''b.txt''])"

definition sample_bs :: "nat \<Rightarrow> bytes" where
  "sample_bs i = (if i = 0 then [1, 2, 3] else [4])"

text \<open>The workers take turns.\<close>

definition sample_sched :: "nat list" where
  "sample_sched = concat (replicate 9 [0, 1])"

lemma sample_two:
  "two_paths (sample_ss 0) (sample_ts 0) (src_path (sample_transfer opn) 0) (dst_path (sample_transfer opn) 0)
     (jw (sample_job_state opn))"
  "two_paths (sample_ss 1) (sample_ts 1) (src_path (sample_transfer opn) 1) (dst_path (sample_transfer opn) 1)
     (jw (sample_job_state opn))"
  by code_simp+

lemma sample_files: "length (t_files (sample_transfer opn)) = 2"
  by (simp add: sample_transfer_def)

lemma sample_paths: "job_paths (sample_transfer opn) sample_ss sample_ts (jw (sample_job_state opn))"
  using sample_two
  by (auto simp: job_paths_def sample_files less_2_cases_iff sample_ss_def sample_ts_def)

lemma sample_sources:
  "\<forall>i < length (t_files (sample_transfer opn)). holds (sample_ss i) (sample_bs i) (jw (sample_job_state opn))"
  by (auto simp: sample_files less_2_cases_iff sample_ss_def sample_bs_def holds_def files_def
      sample_job_state_def sample_world_def sample_tree_def plain_file_def update_conv')

lemma sample_job: "map_of (jobs (sample_job_state opn)) (t_id (sample_transfer opn)) = Some (new_job opn ''/src'' ''/dst'')"
  by (simp add: sample_job_state_def sample_transfer_def)

lemma sample_finishes:
  "transfer_all sample_env (Some 2) sample_sched (sample_transfer ''copy'') ''/src'' (sample_job_state ''copy'') \<noteq> None"
  "transfer_all sample_env (Some 2) sample_sched (sample_transfer ''move'') ''/src'' (sample_job_state ''move'') \<noteq> None"
  by code_simp+

lemma copy_job_correct_witness:
  "\<exists>s' j. transfer_all sample_env (Some 2) sample_sched (sample_transfer ''copy'') ''/src'' (sample_job_state ''copy'') = Some s' \<and>
     map_of (jobs s') 1 = Some j \<and> done_files j = 2 \<and> holds [''src'', ''a.txt''] [1, 2, 3] (jw s')"
proof -
  obtain s' where s': "transfer_all sample_env (Some 2) sample_sched (sample_transfer ''copy'') ''/src''
      (sample_job_state ''copy'') = Some s'" using sample_finishes(1) by auto
  have "t_op (sample_transfer ''copy'') \<noteq> ''move''" by (simp add: sample_transfer_def)
  from copy_job_correct[OF sample_paths sample_sources sample_job this s']
  obtain j where "map_of (jobs s') (t_id (sample_transfer ''copy'')) = Some j"
    "done_files j = done_files (new_job ''copy'' ''/src'' ''/dst'') + of_nat (length (t_files (sample_transfer ''copy'')))"
    "\<forall>i < length (t_files (sample_transfer ''copy'')). holds (sample_ss i) (sample_bs i) (jw s')" by blast
  then have "map_of (jobs s') 1 = Some j" "done_files j = 2" "holds (sample_ss 0) (sample_bs 0) (jw s')"
    by (simp_all add: sample_files, simp_all add: sample_transfer_def new_job_def)
  then show ?thesis using s' by (auto simp: sample_ss_def sample_bs_def)
qed

lemma move_job_keeps_data_witness:
  "\<exists>s' j. transfer_all sample_env (Some 2) sample_sched (sample_transfer ''move'') ''/src'' (sample_job_state ''move'') = Some s' \<and>
     map_of (jobs s') 1 = Some j \<and> done_files j = 2 \<and>
     (holds [''dst'', ''a.txt''] [1, 2, 3] (jw s') \<or> holds [''src'', ''a.txt''] [1, 2, 3] (jw s'))"
proof -
  obtain s' where s': "transfer_all sample_env (Some 2) sample_sched (sample_transfer ''move'') ''/src''
      (sample_job_state ''move'') = Some s'" using sample_finishes(2) by auto
  have op: "t_op (sample_transfer ''move'') = ''move''" by (simp add: sample_transfer_def)
  have src: "plain_end ''/src''" "resolve False (jw (sample_job_state ''move'')) ''/src'' = Inr [''src'']"
    by code_simp+
  have np: "\<forall>i < length (t_files (sample_transfer ''move'')). \<not> prefix [''src''] (sample_ts i)"
    by (simp add: sample_ts_def)
  from move_job_keeps_data[OF sample_paths sample_sources sample_job op src np s']
  obtain j where j: "map_of (jobs s') (t_id (sample_transfer ''move'')) = Some j"
    "done_files j = done_files (new_job ''move'' ''/src'' ''/dst'') + of_nat (length (t_files (sample_transfer ''move'')))"
    "\<forall>i < length (t_files (sample_transfer ''move'')). holds (sample_ts i) (sample_bs i) (jw s') \<or>
          holds (sample_ss i) (sample_bs i) (jw s') \<and> job_error j \<noteq> None" by blast
  have "holds (sample_ts 0) (sample_bs 0) (jw s') \<or> holds (sample_ss 0) (sample_bs 0) (jw s')"
    using j(3)[rule_format, of 0] by (auto simp: sample_files)
  moreover from j(1,2) have "map_of (jobs s') 1 = Some j" "done_files j = 2"
    by (simp_all add: sample_files, simp_all add: sample_transfer_def new_job_def)
  ultimately show ?thesis using s' by (auto simp: sample_ss_def sample_ts_def sample_bs_def)
qed

end
