(* ===== verification/Transfer_Quiet.thy ===== *)
theory Transfer_Quiet
  imports Transfer_Laws
begin

text \<open>
  The workers when nothing fails: no file is counted as failed and no error is noted.  The pool rule
  is used a second time, with the assertions of \<open>Transfer_Laws\<close> and the absence of failures.
\<close>

section \<open>Calls that cannot fail\<close>

lemma write_all_quiet:
  assumes "faults w = []" and "write_all l off data w = (r, v)"
  shows "r = Inr () \<and> faults v = []"
  using assms
proof (induction l off data w rule: write_all.induct)
  case (1 l off data w)
  show ?case
  proof (cases "data = []")
    case True
    with 1 show ?thesis by (auto simp: write_all.simps)
  next
    case False
    have w1: "write_once l off data w = (Inr (length data), w\<lparr>fs := map_file (fbytes_update (store_at off data)) l (fs w)\<rparr>)"
      using "1.prems"(1) by (simp add: write_once_def sys_simps)
    have "write_all l (off + length data) (drop (length data) data)
        (w\<lparr>fs := map_file (fbytes_update (store_at off data)) l (fs w)\<rparr>) = (r, v)"
      using "1.prems"(2) False w1 by (subst (asm) write_all.simps) simp
    from "1.IH"[OF False w1[symmetric] refl _ _ this] False "1.prems"(1) show ?thesis by simp
  qed
qed

lemma copy_open_quiet:
  assumes "two_paths a b p q w" and "holds a bs w" and "faults w = []" and "copy_open p q w = (r, v)"
  shows "\<exists>c. r = Inr c" and "faults v = []"
proof -
  note u = two_pathsD[OF assms(1)]
  note f = two_paths_follow[OF assms(1)]
  have e: "\<not> (q \<noteq> [] \<and> last q = slash)" using assms(1) by (simp add: two_paths_def plain_end_def)
  have ga: "tget (fs w) a \<noteq> None" using assms(2) by (auto simp: holds_def files_Some)
  have o: "file_open p w = (Inr a, w)" using f(1) ga assms(3) by (simp add: file_open_def sys_simps)
  have leaf: "tget (fs w) b = None \<or> (\<exists>d. tget (fs w) b = Some (File d))"
    using u(10) by (auto simp: skel_of_cases is_filen_iff)
  then obtain t where c: "file_create q w = (Inr b, w\<lparr>fs := t\<rparr>)"
    using e f(2) assms(3) by (auto simp: file_create_def sys_simps)
  have "handle_mode a (w\<lparr>fs := t\<rparr>) = (Inr (case files t a of Some d \<Rightarrow> fmode d | None \<Rightarrow> 0), w\<lparr>fs := t\<rparr>)"
    using assms(3) by (simp add: handle_mode_def sys_simps)
  with o c assms(3,4) show "\<exists>c. r = Inr c" "faults v = []" by (auto simp: copy_open_def)
qed

lemma copy_chunk_quiet:
  assumes "holds (c_src c) bs w" and "faults w = []" and "copy_chunk c w = (r, v)"
  shows "\<exists>x. r = Inr x" and "faults v = []"
proof -
  obtain d where d: "tget (fs w) (c_src c) = Some (File d)" using assms(1) by (auto simp: holds_def files_Some)
  then obtain buf where b: "read_buf (c_src c) (c_off c) w = (Inr buf, w)"
    using assms(2) by (simp add: read_buf_def read_at_def sys_simps)
  have "(\<exists>x. r = Inr x) \<and> faults v = []"
  proof (cases "buf = []")
    case True
    with b assms(2,3) show ?thesis by (auto simp: copy_chunk_def set_mode_def sys_simps)
  next
    case False
    obtain r1 w1 where w1: "write_all (c_dst c) (c_off c) buf w = (r1, w1)" by fastforce
    from write_all_quiet[OF assms(2) w1] w1 b False assms(3) show ?thesis by (auto simp: copy_chunk_def)
  qed
  then show "\<exists>x. r = Inr x" and "faults v = []" by simp_all
qed

lemma rename_two_quiet:
  assumes "two_paths a b p q w" and "files (fs w) a = Some d" and "faults w = []" and "rename_path p q w = (r, v)"
  shows "r = Inr ()" and "faults v = []"
proof -
  note u = two_pathsD[OF assms(1)]
  have rl: "rename_path p q w = (case rename_locs (fs w) a b of (r, t) \<Rightarrow> (r, w\<lparr>fs := t\<rparr>))"
    using u assms(3) by (simp add: rename_path_def sys_simps split: prod.splits)
  have np: "\<not> prefix a b" "\<not> prefix b a"
  proof -
    have g: "tget (fs w) a = Some (File d)" using assms(2) by (simp add: files_Some)
    have "dir_above (fs w) b" "dir_above (fs w) a" using u by auto
    then show "\<not> prefix a b" "\<not> prefix b a"
      using u(2-4,9,10) dir_above_prefix[of "fs w" b a] dir_above_prefix[of "fs w" a b]
      by (auto simp: strict_prefix_def dir_above_def skel_of_cases is_dirn_iff skel_of_def split: option.splits node.splits)
  qed
  have "fst (rename_locs (fs w) a b) = Inr ()"
    using u(2-4,10) assms(2) np
    by (auto simp: rename_locs_def files_Some skel_of_cases is_filen_iff split: option.splits node.splits)
  with rl assms(3,4) show "r = Inr ()" and "faults v = []" by (auto split: prod.splits)
qed

lemma remove_file_quiet:
  assumes "resolve_leaf w p = Inr l" and "holds l bs w" and "faults w = []" and "remove_file p w = (r, v)"
  shows "r = Inr ()" and "faults v = []"
  using assms by (auto simp: remove_file_def sys_simps holds_def files_Some)

section \<open>The steps\<close>

definition calm :: "work \<Rightarrow> bool" where
  "calm s \<longleftrightarrow> faults (jw s) = [] \<and> failed s = 0"

fun calm_phase :: "phase \<Rightarrow> bool" where
  "calm_phase (Failing sz e) = False"
| "calm_phase (Counting sz ok) = ok"
| "calm_phase ph = True"

lemma start_copy_calm:
  assumes "two_paths a b p q (jw s)" and "holds a bs (jw s)" and "calm s" and "start_copy E sz p q s = (ph, s')"
  shows "calm s' \<and> calm_phase ph"
proof -
  obtain r v where c: "copy_open p q (jw s) = (r, v)" by fastforce
  have "faults (jw s) = []" using assms(3) by (simp add: calm_def)
  from copy_open_quiet[OF assms(1,2) this c] assms(3,4) c show ?thesis
    by (auto simp: start_copy_def on_world_def calm_def)
qed

lemma transfer_step_calm:
  assumes "two_paths (ss i) (ts i) (src_path t i) (dst_path t i) (jw s)" and "t_during t ss ts bs i ph s"
    and "calm s" and "calm_phase ph" and "transfer_step E t i ph s = (r, s')"
  shows "calm s' \<and> (\<forall>ph'. r = Some ph' \<longrightarrow> calm_phase ph')"
proof -
  have q: "faults (jw s) = []" "failed s = 0" using assms(3) by (simp_all add: calm_def)
  have hs: "holds (ss i) (bs i) (jw s)" if "\<forall>sz ok. ph \<noteq> Counting sz ok"
    using assms(2) that by (cases ph) auto
  show ?thesis
  proof (cases ph)
    case Sizing
    obtain r1 v where m: "symlink_metadata (src_path t i) (jw s) = (r1, v)" by fastforce
    then have "faults v = []" using q by (auto simp: symlink_metadata_def sys_simps)
    with assms(5) Sizing m q show ?thesis
      by (cases r1) (auto simp: transfer_step_def src_path_def on_world_def calm_def)
  next
    case (Noting sz)
    with assms(3,5) show ?thesis by (auto simp: transfer_step_def calm_def Let_def)
  next
    case (Moving sz)
    have h: "holds (ss i) (bs i) (jw s)" using hs Moving by simp
    show ?thesis
    proof (cases "t_op t = ''move'' \<and> t_same_drive t")
      case True
      obtain r1 v where rn: "rename_path (src_path t i) (dst_path t i) (jw s) = (r1, v)" by fastforce
      obtain d where "files (fs (jw s)) (ss i) = Some d" using h by (auto simp: holds_def)
      from rename_two_quiet[OF assms(1) this q(1) rn] True Moving assms(5) rn q show ?thesis
        by (auto simp: transfer_step_def src_path_def dst_path_def on_world_def calm_def)
    next
      case False
      obtain ph1 s1 where sc: "start_copy E sz (src_path t i) (dst_path t i) s = (ph1, s1)" by fastforce
      have "r = Some ph1 \<and> s' = s1"
        using assms(5) Moving False sc
        by (auto simp: transfer_step_def src_path_def dst_path_def Let_def split: if_splits)
      with start_copy_calm[OF assms(1) h assms(3) sc] show ?thesis by simp
    qed
  next
    case (Copying sz c)
    obtain r1 v where c: "copy_chunk c (jw s) = (r1, v)" by fastforce
    have "holds (c_src c) (bs i) (jw s)" using assms(2) Copying by simp
    from copy_chunk_quiet[OF this q(1) c] c assms(5) Copying q show ?thesis
      by (auto simp: transfer_step_def on_world_def calm_def Let_def split: option.splits)
  next
    case (Removing sz)
    have l: "resolve_leaf (jw s) (src_path t i) = Inr (ss i)" using two_pathsD(5)[OF assms(1)] .
    obtain r1 v where c: "remove_file (src_path t i) (jw s) = (r1, v)" by fastforce
    have "holds (ss i) (bs i) (jw s)" using hs Removing by simp
    from remove_file_quiet[OF l this q(1) c] c assms(5) Removing q show ?thesis
      by (auto simp: transfer_step_def src_path_def on_world_def calm_def Let_def)
  next
    case (Failing sz e)
    with assms(4) show ?thesis by simp
  next
    case (Counting sz ok)
    with assms(3,5) show ?thesis by (auto simp: transfer_step_def calm_def Let_def)
  qed
qed

text \<open>The job's record: no error noted beyond the one it had, nothing but counters changed.\<close>

definition unharmed :: "u64 \<Rightarrow> job \<Rightarrow> work \<Rightarrow> bool" where
  "unharmed jid j0 s \<longleftrightarrow> (\<exists>j. map_of (jobs s) jid = Some j \<and> job_error j = job_error j0)"

lemma transfer_step_unharmed:
  assumes "unharmed (t_id t) j0 s" and "calm s" and "calm s'" and "transfer_step E t i ph s = (r, s')"
  shows "unharmed (t_id t) j0 s'"
proof -
  obtain g where g: "jobs s' = reg_update (t_id t) g (jobs s)"
    "counts (if r = None then 1 else 0) (failed s < failed s') g"
    using transfer_step_jobs[OF assms(4)] by blast
  have "\<not> failed s < failed s'" using assms(2,3) by (simp add: calm_def)
  then have "job_error (g j) = job_error j" for j using g(2) by (simp add: counts_def)
  then show ?thesis using assms(1) g(1) by (auto simp: unharmed_def map_of_reg_update)
qed

interpretation fp: work_pool Sizing "transfer_step E t" "length (t_files t)"
  "\<lambda>F s. t_inv t ss ts w0 (done_files j0) F s \<and> calm s \<and> unharmed (t_id t) j0 s"
  "t_before ss bs" "\<lambda>i ph s. t_during t ss ts bs i ph s \<and> calm_phase ph" "t_after t ss ts bs" for E t ss ts w0 j0 bs
proof (unfold_locales, goal_cases)
  case (1 F s i)
  then show ?case by (simp add: t_before_def)
next
  case (2 F s i a b u)
  have tw: "two_paths (ss i) (ts i) (src_path t i) (dst_path t i) (jw s)"
    using 2(1,2) job_pathsD(1)[where ss=ss and ts=ts] by (simp add: t_inv_def)
  have d: "t_during t ss ts bs i a s" "calm_phase a" and i: "t_inv t ss ts w0 (done_files j0) F s" "calm s" "unharmed (t_id t) j0 s"
    using 2 by simp_all
  have c: "calm u" "calm_phase b" using transfer_step_calm[where ss=ss and ts=ts and bs=bs and i=i, OF tw d(1) i(2) d(2) 2(5)] by simp_all
  have "t_during t ss ts bs i b u \<and> t_inv t ss ts w0 (done_files j0) F u"
    by (rule tp.goes[OF i(1) 2(2,3) d(1) 2(5)])
  with c transfer_step_unharmed[OF i(3,2) c(1) 2(5)] show ?case by simp
next
  case (3 F s i a u)
  have tw: "two_paths (ss i) (ts i) (src_path t i) (dst_path t i) (jw s)"
    using 3(1,2) job_pathsD(1)[where ss=ss and ts=ts] by (simp add: t_inv_def)
  have d: "t_during t ss ts bs i a s" "calm_phase a" and i: "t_inv t ss ts w0 (done_files j0) F s" "calm s" "unharmed (t_id t) j0 s"
    using 3 by simp_all
  have c: "calm u" using transfer_step_calm[where ss=ss and ts=ts and bs=bs and i=i, OF tw d(1) i(2) d(2) 3(5)] by simp
  have "t_after t ss ts bs i u \<and> t_inv t ss ts w0 (done_files j0) (insert i F) u"
    by (rule tp.stops[OF i(1) 3(2,3) d(1) 3(5)])
  with c transfer_step_unharmed[OF i(3,2) c(1) 3(5)] show ?case by simp
next
  case (4 F s i a r u j)
  then show ?case using tp.before_stable by blast
next
  case (5 F s i a r u j b)
  then show ?case using tp.during_stable by blast
next
  case (6 F s i a r u j)
  then show ?case using tp.after_stable by blast
qed

lemma quiet_pool_result:
  assumes "job_paths t ss ts (jw s)" and "\<forall>i < length (t_files t). holds (ss i) (bs i) (jw s)"
    and "map_of (jobs s) (t_id t) = Some j0" and "faults (jw s) = []"
    and "p = run_pool Sizing (transfer_step E t) (length (t_files t)) sched
                (new_pool (nthreads cpus) (job_state.extend s (work.fields 0)))" and "all_exited p"
  shows "t_inv t ss ts (jw s) (done_files j0) {..<length (t_files t)} (p_state p)" and "calm (p_state p)"
    and "unharmed (t_id t) j0 (p_state p)" and "i < length (t_files t) \<Longrightarrow> arrived t ss ts bs i (jw (p_state p))"
proof -
  let ?s = "job_state.extend s (work.fields 0)"
  have i0: "t_inv t ss ts (jw s) (done_files j0) {} ?s \<and> calm ?s \<and> unharmed (t_id t) j0 ?s"
    using assms(1,3,4) by (auto simp: t_inv_def tally_def calm_def unharmed_def)
  have b: "\<forall>i < length (t_files t). t_before ss bs i ?s" using assms(2) by (simp add: t_before_def)
  have m: "0 < nthreads cpus" using nthreads_bounds(1)[of cpus] by simp
  note pd = fp.pool_done[of t ss ts "jw s" j0 ?s bs, OF i0 b m assms(5,6)]
  from pd(1) show "t_inv t ss ts (jw s) (done_files j0) {..<length (t_files t)} (p_state p)" "calm (p_state p)"
    "unharmed (t_id t) j0 (p_state p)" by simp_all
  then show "arrived t ss ts bs i (jw (p_state p))" if "i < length (t_files t)"
    using pd(2)[OF that] by (simp add: t_after_def calm_def)
qed

end
