(* ===== verification/Tree_Copy.thy ===== *)
theory Tree_Copy
  imports Tree_Paths Transfer_Quiet
begin

text \<open>
  A whole copy job, from the walk to the last worker: a plain tree is copied to a free place.
\<close>

section \<open>Creating the directories\<close>

lemma plain_end_comps:
  assumes "plain_end p"
  shows "comps p \<noteq> []"
proof
  assume c: "comps p = []"
  have p: "p \<noteq> []" "last p \<noteq> slash" "\<not> ends_in_dots p" using assms by (auto simp: plain_end_def)
  have "filter (\<lambda>s. s \<noteq> []) (split_on slash p) \<noteq> []"
  proof
    assume "filter (\<lambda>s. s \<noteq> []) (split_on slash p) = []"
    then have e: "\<forall>s \<in> set (split_on slash p). s = []" by (simp add: filter_empty_conv)
    have "set (join_with slash xs) \<subseteq> {slash}" if "\<forall>s \<in> set xs. s = []" for xs
      using that by (induction slash xs rule: join_with.induct) auto
    from this[OF e] have "set p \<subseteq> {slash}" by simp
    with p(1,2) show False using last_in_set by blast
  qed
  then obtain ss s where ss: "filter (\<lambda>s. s \<noteq> []) (split_on slash p) = ss @ [s]" by (metis rev_exhaust)
  then have "s \<in> set (filter (\<lambda>s. s \<noteq> []) (split_on slash p))" by simp
  then have s: "s \<in> set (split_on slash p)" "s \<noteq> []" by auto
  have "s \<noteq> ''.''" using p(3) ss by (simp add: ends_in_dots_def)
  then have "\<not> triv s" using s(2) by (simp add: triv_def)
  then have "filter (\<lambda>s. \<not> triv s) (split_on slash p) \<noteq> []" using s(1) by (auto simp: filter_empty_conv)
  with c show False by (simp add: comps_def)
qed

lemma create_dir_all_new:
  assumes "faults w = []" and "plain_end p" and "resolve False w p = Inr l" and "tget (fs w) l = None"
  shows "create_dir_all p w = (Inr (), w\<lparr>fs := tput (fs w) l (Dir [])\<rparr>)"
  using assms plain_end_comps[OF assms(2)]
  by (subst create_dir_all.simps) (simp add: create_dir_def sys_simps resolve_leaf_plain)

text \<open>
  While the directories are made: those of \<open>A\<close> are there below the destination, nothing else is, and
  nothing has changed anywhere else.
\<close>

definition built :: "path \<Rightarrow> loc \<Rightarrow> world \<Rightarrow> loc set \<Rightarrow> world \<Rightarrow> bool" where
  "built d L w0 A w \<longleftrightarrow>
     faults w = [] \<and> env_ok w \<and> grows w0 w \<and> resolve False w d = Inr L \<and>
     (\<forall>r \<in> A. is_dirn (tget (fs w) (L @ r))) \<and> (\<forall>r. r \<notin> A \<longrightarrow> tget (fs w) (L @ r) = None) \<and>
     (\<forall>q. \<not> prefix L q \<longrightarrow> entry_in (fs w) q = entry_in (fs w0) q)"

lemma built_step:
  assumes "built d L w0 A w" and "plain_end d" and "\<forall>q. strict_prefix q r \<longrightarrow> q \<in> A" and "r \<notin> A"
    and "\<forall>s \<in> set r. plain_name s"
  shows "\<exists>v. create_dir_all (path_at d r) w = (Inr (), v) \<and> built d L w0 (insert r A) v"
proof -
  have b: "faults w = []" "env_ok w" "grows w0 w" "resolve False w d = Inr L"
    "\<And>r. r \<in> A \<Longrightarrow> is_dirn (tget (fs w) (L @ r))" "\<And>r. r \<notin> A \<Longrightarrow> tget (fs w) (L @ r) = None"
    "\<And>q. \<not> prefix L q \<Longrightarrow> entry_in (fs w) q = entry_in (fs w0) q"
    using assms(1) by (auto simp: built_def)
  have r: "resolve False w (path_at d r) = Inr (L @ r)"
  proof (cases "r = []")
    case False
    then have L: "is_dirn (tget (fs w) L)" using assms(3) b(5)[of "[]"] by (cases r) auto
    then have "resolve True w d = Inr L" using b(4) by (intro resolve_follow) (auto simp: is_dirn_iff)
    then show ?thesis
      by (rule resolve_below[OF _ assms(5) False]) (use assms(3) b(5) in auto)
  qed (simp add: b(4))
  have n: "tget (fs w) (L @ r) = None" using b(6) assms(4) by blast
  have da: "dir_above (fs w) (L @ r)" using resolve_dir_above[OF b(2) r] .
  define v where "v = w\<lparr>fs := tput (fs w) (L @ r) (Dir [])\<rparr>"
  have c: "create_dir_all (path_at d r) w = (Inr (), v)"
    unfolding v_def by (rule create_dir_all_new[OF b(1) plain_end_at[OF assms(2,5)] r n])
  have g: "grows w v" by (rule put_dir_grows[OF n da]) (simp_all add: v_def)
  have ne: "L @ r \<noteq> []" using n by (metis option.distinct(1) tget.simps(1))
  have new: "tget (fs v) (L @ r) = Some (Dir [])"
    using da ne by (simp add: v_def nt.get_put_same dir_above_def)
  have none: "tget (fs v) (L @ q) = None" if "q \<noteq> r" "q \<notin> A" for q
  proof (cases "L @ q" "L @ r" rule: loc_cases)
    case par
    then show ?thesis using b(6)[OF that(2)] by (simp add: v_def nt.get_put_par)
  next
    case above
    then have "strict_prefix q r" by (simp add: strict_prefix_def)
    with assms(3) that(2) show ?thesis by blast
  next
    case (below x)
    then show ?thesis using new by (cases x) (simp_all add: tget_append[of _ "L @ r", unfolded append_assoc])
  qed (use that in simp)
  have dirs: "is_dirn (tget (fs v) (L @ q))" if "q \<in> A" for q
    using b(5)[OF that] g by (simp add: grows_def)
  have other: "entry_in (fs v) q = entry_in (fs w0) q" if "\<not> prefix L q" for q
  proof -
    have "is_dirn (tget (fs w) (butlast (L @ r)))" using da ne by (simp add: dir_above_def)
    moreover have "\<not> prefix (L @ r) q" using that append_prefixD by blast
    ultimately have "entry_in (fs v) q = entry_in (fs w) q" using ne by (simp add: v_def entry_tput)
    then show ?thesis using b(7)[OF that] by simp
  qed
  have "faults v = []" using b(1) by (simp add: v_def)
  moreover have "\<forall>q \<in> insert r A. is_dirn (tget (fs v) (L @ q))" using dirs new by simp
  moreover have "\<forall>q. q \<notin> insert r A \<longrightarrow> tget (fs v) (L @ q) = None" using none by simp
  ultimately have "built d L w0 (insert r A) v"
    unfolding built_def
    using grows_env[OF g b(2)] grows_trans[OF b(3) g] resolve_grows_any[OF g b(4)] other by blast
  with c show ?thesis by blast
qed

lemma counts_comp: "counts 0 False f \<Longrightarrow> counts 0 False g \<Longrightarrow> counts 0 False (\<lambda>j. f (g j))"
  by (simp add: counts_def)

lemma make_dirs_built:
  assumes "built d L w0 A (jw s)" and "plain_end d" and "parents_first A rs" and "distinct rs" and "set rs \<inter> A = {}"
    and "\<forall>r \<in> set rs. \<forall>s \<in> set r. plain_name s"
  shows "built d L w0 (A \<union> set rs) (jw (make_dirs jid d (map (path_at []) rs) s))"
    and "\<exists>g. jobs (make_dirs jid d (map (path_at []) rs) s) = reg_update jid g (jobs s) \<and> counts 0 False g"
proof -
  have "built d L w0 (A \<union> set rs) (jw (make_dirs jid d (map (path_at []) rs) s)) \<and>
    (\<exists>g. jobs (make_dirs jid d (map (path_at []) rs) s) = reg_update jid g (jobs s) \<and> counts 0 False g)"
    using assms
  proof (induction rs arbitrary: A s)
    case Nil
    then show ?case by (auto intro!: exI[of _ "\<lambda>j. j"] simp: counts_def)
  next
    case (Cons r rs)
    obtain v where v: "create_dir_all (path_at d r) (jw s) = (Inr (), v)" "built d L w0 (insert r A) v"
      using built_step[OF Cons.prems(1,2), of r] Cons.prems(3-6) by auto
    define f where "f = (\<lambda>j. note_current (path_at d r) (j\<lparr>done_dirs := done_dirs j + 1\<rparr>))"
    define s1 where "s1 = job_update jid f (s\<lparr>jw := v\<rparr>)"
    have st: "make_dirs jid d (map (path_at []) (r # rs)) s = make_dirs jid d (map (path_at []) rs) s1"
      using v(1) Cons.prems(6) by (simp add: target_at on_world_def s1_def f_def)
    have cf: "counts 0 False f" by (simp add: counts_def f_def note_current_def Let_def)
    have "built d L w0 (insert r A) (jw s1)" using v(2) by (simp add: s1_def)
    from Cons.IH[OF this Cons.prems(2)] Cons.prems(3-6)
    obtain g where g: "built d L w0 (insert r A \<union> set rs) (jw (make_dirs jid d (map (path_at []) rs) s1))"
      "jobs (make_dirs jid d (map (path_at []) rs) s1) = reg_update jid g (jobs s1)" "counts 0 False g" by auto
    then have "jobs (make_dirs jid d (map (path_at []) rs) s1) = reg_update jid (\<lambda>j. g (f j)) (jobs s)"
      by (simp add: s1_def reg_update_twice)
    with counts_comp[OF g(3) cf] have "\<exists>h. jobs (make_dirs jid d (map (path_at []) rs) s1) = reg_update jid h (jobs s) \<and> counts 0 False h"
      by blast
    with g(1) show ?case unfolding st by simp
  qed
  then show "built d L w0 (A \<union> set rs) (jw (make_dirs jid d (map (path_at []) rs) s))"
    and "\<exists>g. jobs (make_dirs jid d (map (path_at []) rs) s) = reg_update jid g (jobs s) \<and> counts 0 False g" by auto
qed

section \<open>The paths of the job\<close>

definition tree_transfer :: "u64 \<Rightarrow> string \<Rightarrow> bool \<Rightarrow> path \<Rightarrow> path \<Rightarrow> node \<Rightarrow> transfer" where
  "tree_transfer jid opn same src dst n =
     \<lparr>t_id = jid, t_op = opn, t_same_drive = same,
      t_files = map (\<lambda>r. (path_at src r, path_at [] r)) (tree_files n), t_dst = dst\<rparr>"

definition tree_at :: "loc \<Rightarrow> node \<Rightarrow> nat \<Rightarrow> loc" where
  "tree_at l n i = l @ tree_files n ! i"

definition tree_data :: "node \<Rightarrow> nat \<Rightarrow> bytes" where
  "tree_data n i = (case tget n (tree_files n ! i) of Some (File d) \<Rightarrow> fbytes d | _ \<Rightarrow> [])"

text \<open>A source tree and a free destination.\<close>

definition copyable :: "path \<Rightarrow> loc \<Rightarrow> node \<Rightarrow> path \<Rightarrow> loc \<Rightarrow> world \<Rightarrow> bool" where
  "copyable src l n dst L w \<longleftrightarrow>
     env_ok w \<and> faults w = [] \<and> plain_end src \<and> resolve False w src = Inr l \<and> tget (fs w) l = Some n \<and>
     plain_tree n \<and> plain_end dst \<and> resolve False w dst = Inr L \<and> tget (fs w) L = None"

lemma copyableD:
  assumes "copyable src l n dst L w"
  shows "env_ok w" "faults w = []" "plain_end src" "resolve False w src = Inr l" "tget (fs w) l = Some n"
    "plain_tree n" "plain_end dst" "resolve False w dst = Inr L" "tget (fs w) L = None" "resolve True w src = Inr l"
proof -
  show c: "env_ok w" "faults w = []" "plain_end src" "resolve False w src = Inr l" "tget (fs w) l = Some n"
    "plain_tree n" "plain_end dst" "resolve False w dst = Inr L" "tget (fs w) L = None"
    using assms by (simp_all add: copyable_def)
  show "resolve True w src = Inr l"
    using c(4,5,6) by (intro resolve_follow) auto
qed

lemma tree_file:
  assumes "plain_tree n" and "i < length (tree_files n)"
  shows "\<exists>d. tget n (tree_files n ! i) = Some (File d) \<and> fbytes d = tree_data n i"
    and "\<forall>s \<in> set (tree_files n ! i). plain_name s"
    and "strict_prefix q (tree_files n ! i) \<Longrightarrow> is_dirn (tget n q)"
proof -
  obtain d where d: "tget n (tree_files n ! i) = Some (File d)"
    using tree_files_sound[OF assms(1) nth_mem[OF assms(2)]] by blast
  then show "\<exists>d. tget n (tree_files n ! i) = Some (File d) \<and> fbytes d = tree_data n i" by (simp add: tree_data_def)
  show "\<forall>s \<in> set (tree_files n ! i). plain_name s" using tree_names[OF assms(1) d] by blast
  show "is_dirn (tget n q)" if "strict_prefix q (tree_files n ! i)"
    using dir_above_prefix[OF tget_parent_dir[OF d] that] .
qed

lemma tree_two_paths:
  assumes "copyable src l n dst L w0" and "built dst L w0 (set (tree_dirs n)) w" and "i < length (tree_files n)"
  shows "two_paths (tree_at l n i) (tree_at L n i) (path_at src (tree_files n ! i)) (path_at dst (tree_files n ! i)) w"
    and "holds (tree_at l n i) (tree_data n i) w"
proof -
  note c = copyableD[OF assms(1)]
  define r where "r = tree_files n ! i"
  obtain d where d: "tget n r = Some (File d)" "fbytes d = tree_data n i"
    using tree_file(1)[OF c(6) assms(3)] by (auto simp: r_def)
  have names: "\<forall>s \<in> set r. plain_name s" and above: "\<And>q. strict_prefix q r \<Longrightarrow> is_dirn (tget n q)"
    using tree_file(2,3)[OF c(6) assms(3)] by (auto simp: r_def)
  have b: "env_ok w" "grows w0 w" "resolve False w dst = Inr L"
    "\<And>q. q \<in> set (tree_dirs n) \<Longrightarrow> is_dirn (tget (fs w) (L @ q))"
    "\<And>q. q \<notin> set (tree_dirs n) \<Longrightarrow> tget (fs w) (L @ q) = None"
    using assms(2) by (auto simp: built_def)
  have at: "tget (fs w0) (l @ q) = tget n q" for q using c(5) by (simp add: tget_append)
  have f0: "files (fs w0) (l @ r) = Some d" using d at by (simp add: files_Some)
  then have f: "files (fs w) (l @ r) = Some d" using b(2) by (simp add: grows_def)
  have rs: "resolve False w (path_at src r) = Inr (l @ r)"
  proof (rule resolve_grows_any[OF b(2)])
    show "resolve False w0 (path_at src r) = Inr (l @ r)"
    proof (cases "r = []")
      case False
      then show ?thesis by (intro resolve_below[OF c(10) names]) (use above at in auto)
    qed (simp add: c(4))
  qed
  have nr: "r \<notin> set (tree_dirs n)" using tree_dirs_sound[OF c(6), of r] d(1) by auto
  have rd: "resolve False w (path_at dst r) = Inr (L @ r)"
  proof (cases "r = []")
    case False
    have dirs: "is_dirn (tget (fs w) (L @ q))" if "strict_prefix q r" for q
      using b(4) tree_dirs_complete[OF above[OF that]] .
    have "is_dirn (tget (fs w) L)" using dirs[of "[]"] False by (cases r) auto
    then have "resolve True w dst = Inr L" using b(3) by (intro resolve_follow) (auto simp: is_dirn_iff)
    then show ?thesis using dirs by (intro resolve_below[OF _ names False]) auto
  qed (simp add: b(3))
  have nd: "tget (fs w) (L @ r) = None" using b(5)[OF nr] .
  have gs: "tget (fs w) (l @ r) = Some (File d)" using f by (simp add: files_Some)
  have root: "is_dirn (Some (fs w))" using b(1) by (simp add: env_ok_def)
  have "l @ r \<noteq> []" using gs root by (metis is_dirn_simps(2) tget.simps(1))
  moreover have "L @ r \<noteq> []" using nd by (metis option.distinct(1) tget.simps(1))
  moreover have "l @ r \<noteq> L @ r" using gs nd by (metis option.distinct(1))
  moreover have "skel_of (tget (fs w) (l @ r)) = SLeaf" "skel_of (tget (fs w) (L @ r)) = SLeaf"
    using gs nd by (simp_all add: skel_of_def)
  ultimately show "two_paths (tree_at l n i) (tree_at L n i) (path_at src (tree_files n ! i)) (path_at dst (tree_files n ! i)) w"
    using b(1) plain_end_at[OF c(3) names] plain_end_at[OF c(7) names] rs rd
    by (simp add: two_paths_def tree_at_def r_def)
  show "holds (tree_at l n i) (tree_data n i) w" using f d(2) by (simp add: holds_def tree_at_def r_def)
qed

lemma tree_job_paths:
  assumes "copyable src l n dst L w0" and "built dst L w0 (set (tree_dirs n)) w"
  shows "job_paths (tree_transfer jid opn same src dst n) (tree_at l n) (tree_at L n) w"
proof -
  note c = copyableD[OF assms(1)]
  let ?t = "tree_transfer jid opn same src dst n"
  have len: "length (t_files ?t) = length (tree_files n)" by (simp add: tree_transfer_def)
  have p: "src_path ?t i = path_at src (tree_files n ! i)" "dst_path ?t i = path_at dst (tree_files n ! i)"
    if "i < length (tree_files n)" for i
    using that target_at[OF tree_file(2)[OF c(6) that]] by (simp_all add: src_path_def dst_path_def tree_transfer_def)
  have d: "tree_files n ! i \<noteq> tree_files n ! j" if "i < length (tree_files n)" "j < length (tree_files n)" "i \<noteq> j" for i j
    using distinct_tree_files[OF c(6)] that by (simp add: nth_eq_iff_index_eq)
  have x: "tree_at l n i \<noteq> tree_at L n j" if "i < length (tree_files n)" "j < length (tree_files n)" for i j
  proof -
    have "tget (fs w) (tree_at L n j) = None"
    proof -
      have "tree_files n ! j \<notin> set (tree_dirs n)"
        using tree_file(1)[OF c(6) that(2)] tree_dirs_sound[OF c(6), of "tree_files n ! j"] by auto
      then show ?thesis using assms(2) by (simp add: built_def tree_at_def)
    qed
    moreover have "tget (fs w) (tree_at l n i) \<noteq> None"
      using tree_two_paths(2)[OF assms that(1)] by (auto simp: holds_def files_Some)
    ultimately show ?thesis by metis
  qed
  show ?thesis
    unfolding job_paths_def len
    using tree_two_paths(1)[OF assms] p d x by (auto simp: tree_at_def)
qed

section \<open>The whole job\<close>

definition content :: "world \<Rightarrow> loc \<Rightarrow> bytes option" where
  "content w l = map_option fbytes (files (fs w) l)"

lemma entry_content: "entry_in (fs v) q = entry_in (fs w) q \<Longrightarrow> content v q = content w q"
  by (drule entry_files) (simp add: content_def)

text \<open>The planning of a job: what is in place when the workers start.\<close>

lemma planned:
  assumes "copyable src l n dst L (jw s)" and "map_of (jobs s) jid = Some j0"
    and "s2 = make_dirs jid dst (map (path_at []) (tree_dirs n))
           (job_update jid f (job_update jid g s))"
    and "\<And>j. done_files (f (g j)) = done_files j \<and> job_error (f (g j)) = job_error j"
  shows "built dst L (jw s) (set (tree_dirs n)) (jw s2)"
    and "\<exists>j1. map_of (jobs s2) jid = Some j1 \<and> done_files j1 = done_files j0 \<and> job_error j1 = job_error j0"
proof -
  note c = copyableD[OF assms(1)]
  let ?s1 = "job_update jid f (job_update jid g s)"
  have b0: "built dst L (jw s) {} (jw ?s1)"
    using c nt.get_below_None[OF c(9)] by (simp add: built_def)
  have names: "\<forall>r \<in> set (tree_dirs n). \<forall>s \<in> set r. plain_name s"
    using tree_dirs_sound[OF c(6)] tree_names[OF c(6)] by (metis is_dirn_iff)
  note md = make_dirs_built[OF b0 c(7) tree_dirs_parents_first distinct_tree_dirs[OF c(6)] _ names]
  show "built dst L (jw s) (set (tree_dirs n)) (jw s2)" using md(1) assms(3) by simp
  obtain h where h: "jobs s2 = reg_update jid h (jobs ?s1)" "counts 0 False h" using md(2) assms(3) by auto
  then have "map_of (jobs s2) jid = Some (h (f (g j0)))" using assms(2) by (simp add: map_of_reg_update)
  moreover have "done_files (h (f (g j0))) = done_files j0" "job_error (h (f (g j0))) = job_error j0"
    using h(2) assms(4)[of j0] by (simp_all add: counts_def)
  ultimately show "\<exists>j1. map_of (jobs s2) jid = Some j1 \<and> done_files j1 = done_files j0 \<and> job_error j1 = job_error j0" by blast
qed

lemma run_job_plan:
  assumes "copyable src l n dst L (jw s)" and "tree_height n < depth" and "opn \<noteq> ''move'' \<or> \<not> same"
    and "same = (path_drive [fst (roots E), snd (roots E)] src = path_drive [fst (roots E), snd (roots E)] dst)"
  shows "run_job E depth cpus sched jid opn src dst s =
    transfer_all E cpus sched (tree_transfer jid opn same src dst n) src
      (make_dirs jid dst (map (path_at []) (tree_dirs n))
        (job_update jid (\<lambda>j. j\<lparr>total_files := of_nat (length (tree_files n)),
             total_dirs := of_nat (length (tree_dirs n)), total_bytes := of_nat (tree_bytes n)\<rparr>)
          (job_update jid (\<lambda>j. j\<lparr>status := ''running''\<rparr>) s)))"
proof -
  note c = copyableD[OF assms(1)]
  have wf: "walk_files depth src [] no_files (jw s) = Some (Inr (), found src [] n no_files, jw s)"
    using walk_files_finds[OF c(2,10,5,6) assms(2)] c(4) by blast
  have "s\<lparr>jw := jw s\<rparr> = s" by simp
  then show ?thesis
    using wf assms(3) unfolding run_job_def Let_def assms(4)[symmetric]
    by (auto simp: found_def no_files_def fast_move_def tree_transfer_def job_update_def)
qed

text \<open>What the workers leave: an exact copy below the destination; of the rest only a move changes the sources.\<close>

definition tree_copied :: "node \<Rightarrow> loc \<Rightarrow> world \<Rightarrow> bool" where
  "tree_copied n L w \<longleftrightarrow> (\<forall>r. case tget n r of
       Some (File d) \<Rightarrow> holds (L @ r) (fbytes d) w
     | Some (Dir es) \<Rightarrow> is_dirn (tget (fs w) (L @ r))
     | _ \<Rightarrow> tget (fs w) (L @ r) = None)"

definition final_pool :: "mover_env \<Rightarrow> nat option \<Rightarrow> nat list \<Rightarrow> transfer \<Rightarrow> job_state \<Rightarrow> (phase, work) pool" where
  "final_pool E cpus sched t s2 = run_pool Sizing (transfer_step E t) (length (t_files t)) sched
                (new_pool (nthreads cpus) (job_state.extend s2 (work.fields 0)))"

lemma tree_pool:
  assumes "copyable src l n dst L (jw s)" and "built dst L (jw s) (set (tree_dirs n)) (jw s2)"
    and "map_of (jobs s2) jid = Some j1"
    and "p = final_pool E cpus sched (tree_transfer jid opn same src dst n) s2" and "all_exited p"
  shows "tree_copied n L (jw (p_state p))"
    and "\<exists>j. map_of (jobs (p_state p)) jid = Some j \<and> job_error j = job_error j1 \<and>
            done_files j = done_files j1 + of_nat (length (tree_files n))"
    and "calm (p_state p)"
    and "skel_eq (fs (jw s2)) (fs (jw (p_state p)))" and "cwd (jw (p_state p)) = cwd (jw s2)"
    and "\<not> prefix L q \<Longrightarrow> opn \<noteq> ''move'' \<or> \<not> prefix l q \<Longrightarrow>
      entry_in (fs (jw (p_state p))) q = entry_in (fs (jw s)) q"
    and "opn = ''move'' \<Longrightarrow> r \<in> set (tree_files n) \<Longrightarrow> files (fs (jw (p_state p))) (l @ r) = None"
proof -
  note c = copyableD[OF assms(1)]
  define t where "t = tree_transfer jid opn same src dst n"
  have len: "length (t_files t) = length (tree_files n)" "t_id t = jid" "t_op t = opn"
    by (simp_all add: t_def tree_transfer_def)
  have jp: "job_paths t (tree_at l n) (tree_at L n) (jw s2)" using tree_job_paths[OF assms(1,2)] by (simp add: t_def)
  have hs: "\<forall>i < length (t_files t). holds (tree_at l n i) (tree_data n i) (jw s2)"
    using tree_two_paths(2)[OF assms(1,2)] len by simp
  have q: "faults (jw s2) = []" using assms(2) by (simp add: built_def)
  have p: "p = run_pool Sizing (transfer_step E t) (length (t_files t)) sched
                (new_pool (nthreads cpus) (job_state.extend s2 (work.fields 0)))"
    using assms(4) by (simp add: final_pool_def t_def)
  let ?w = "jw (p_state p)"
  note pr = quiet_pool_result[OF jp hs assms(3)[folded len(2)] q p assms(5)]
  show "calm (p_state p)" by (rule pr(2))
  show "\<exists>j. map_of (jobs (p_state p)) jid = Some j \<and> job_error j = job_error j1 \<and>
            done_files j = done_files j1 + of_nat (length (tree_files n))"
    using pr(1,3) len by (auto simp: t_inv_def tally_def unharmed_def)
  have o: "only_file (all_touched t (tree_at l n) (tree_at L n)) (jw s2) ?w"
    using pr(1) by (simp add: t_inv_def)
  show sk: "skel_eq (fs (jw s2)) (fs ?w)" and "cwd ?w = cwd (jw s2)" using o by (simp_all add: only_file_def)
  have touched: "\<exists>i < length (tree_files n). x = tree_at L n i \<or> opn = ''move'' \<and> x = tree_at l n i"
    if "x \<in> all_touched t (tree_at l n) (tree_at L n)" for x
    using that len by (auto simp: all_touched_def touched_def split: if_splits)
  show "entry_in (fs ?w) q = entry_in (fs (jw s)) q" if "\<not> prefix L q" "opn \<noteq> ''move'' \<or> \<not> prefix l q"
  proof -
    have "q \<notin> all_touched t (tree_at l n) (tree_at L n)"
      using touched[of q] that by (auto simp: tree_at_def)
    then have "entry_in (fs ?w) q = entry_in (fs (jw s2)) q" by (rule only_file_entry[OF o])
    then show ?thesis using assms(2) that(1) by (simp add: built_def)
  qed
  show "files (fs ?w) (l @ r) = None" if mv: "opn = ''move''" and r: "r \<in> set (tree_files n)"
  proof -
    obtain i where "i < length (tree_files n)" "tree_files n ! i = r"
      using r by (auto simp: in_set_conv_nth)
    with pr(4)[of i] len mv show ?thesis by (simp add: arrived_def tree_at_def)
  qed
  have copies: "holds (L @ r) (fbytes d) ?w" if g: "tget n r = Some (File d)" for r d
  proof -
    obtain i where i: "i < length (tree_files n)" "tree_files n ! i = r"
      using tree_files_complete[OF c(6) g] by (auto simp: in_set_conv_nth)
    with pr(4)[of i] len g show ?thesis by (simp add: arrived_def tree_at_def tree_data_def)
  qed
  have skel: "skel_of (tget (fs ?w) x) = skel_of (tget (fs (jw s2)) x)" for x using o by (rule only_file_leaf)
  have dirs: "is_dirn (tget (fs ?w) (L @ r))" if "tget n r = Some (Dir es)" for r es
  proof -
    have "r \<in> set (tree_dirs n)" by (rule tree_dirs_complete) (simp add: that)
    then have "is_dirn (tget (fs (jw s2)) (L @ r))" using assms(2) by (simp add: built_def)
    then show ?thesis using skel[of "L @ r"] by (metis skel_of_cases(1))
  qed
  have none: "tget (fs ?w) (L @ r) = None" if "tget n r = None" for r
  proof -
    have "r \<notin> set (tree_dirs n)" using tree_dirs_sound[OF c(6), of r] that by auto
    then have n2: "tget (fs (jw s2)) (L @ r) = None" using assms(2) by (simp add: built_def)
    have "r \<noteq> tree_files n ! i" if "i < length (tree_files n)" for i
      using tree_file(1)[OF c(6) that] \<open>tget n r = None\<close> by auto
    moreover have "L @ r \<noteq> tree_at l n i" if "i < length (tree_files n)" for i
      using tree_two_paths(2)[OF assms(1,2) that] n2 by (auto simp: holds_def files_Some)
    ultimately have "L @ r \<notin> all_touched t (tree_at l n) (tree_at L n)"
      using touched[of "L @ r"] by (auto simp: tree_at_def)
    from only_file_entry[OF o this] show ?thesis using n2 by (simp add: entry_in_def split: option.splits node.splits)
  qed
  show "tree_copied n L ?w"
    unfolding tree_copied_def
  proof
    fix r
    have "tget n r \<noteq> Some (Symlink x)" for x
      using c(6) plain_no_link by blast
    then show "case tget n r of
       Some (File d) \<Rightarrow> holds (L @ r) (fbytes d) ?w
     | Some (Dir es) \<Rightarrow> is_dirn (tget (fs ?w) (L @ r))
     | _ \<Rightarrow> tget (fs ?w) (L @ r) = None" using copies dirs none by (auto split: option.splits node.splits)
  qed
qed

text \<open>What a handler finds out about such a source and destination before it starts a job.\<close>

lemma free_destination:
  fixes s :: "'a job_state_scheme"
  assumes "copyable src l n dst L (jw s)"
  shows "on_world (dest_for src dst) s = (dst, s)" and "on_world (path_exists src) s = (True, s)"
    and "on_world (path_exists dst) s = (False, s)" and "src \<noteq> []" and "dst \<noteq> []"
proof -
  note c = copyableD[OF assms]
  have "resolve True (jw s) dst = Inr L" using c(8,9) by (intro resolve_follow) simp_all
  then have "node_at True (jw s) dst = Inl (Os ENOENT)" using c(9) by (simp add: node_at_def)
  moreover have "node_at True (jw s) src = Inr n" using c(5,10) by (simp add: node_at_def)
  ultimately show "on_world (dest_for src dst) s = (dst, s)" "on_world (path_exists src) s = (True, s)"
    "on_world (path_exists dst) s = (False, s)"
    using c(2) by (simp_all add: on_world_def dest_for_def quiet_queries is_dirn_def)
  show "src \<noteq> []" "dst \<noteq> []" using c(3,7) by (simp_all add: plain_end_def)
qed

text \<open>A whole copy job.\<close>

lemma tree_job_copies:
  assumes "copyable src l n dst L (jw s)" and "tree_height n < depth" and "map_of (jobs s) jid = Some j0"
    and "run_job E depth cpus sched jid ''copy'' src dst s = Some s'"
  shows "(\<exists>j. map_of (jobs s') jid = Some j \<and> status j = ''done'' \<and> job_error j = job_error j0 \<and>
            done_files j = done_files j0 + of_nat (length (tree_files n))) \<and>
    tree_copied n L (jw s') \<and>
    (\<forall>q. \<not> prefix L q \<longrightarrow> entry_in (fs (jw s')) q = entry_in (fs (jw s)) q)"
proof -
  define same where "same = (path_drive [fst (roots E), snd (roots E)] src = path_drive [fst (roots E), snd (roots E)] dst)"
  define t where "t = tree_transfer jid ''copy'' same src dst n"
  define s2 where "s2 = make_dirs jid dst (map (path_at []) (tree_dirs n))
        (job_update jid (\<lambda>j. j\<lparr>total_files := of_nat (length (tree_files n)),
             total_dirs := of_nat (length (tree_dirs n)), total_bytes := of_nat (tree_bytes n)\<rparr>)
          (job_update jid (\<lambda>j. j\<lparr>status := ''running''\<rparr>) s))"
  have ta: "transfer_all E cpus sched t src s2 = Some s'"
    using run_job_plan[OF assms(1,2) _ same_def, of "''copy''"] assms(4) by (simp add: t_def s2_def)
  have B: "built dst L (jw s) (set (tree_dirs n)) (jw s2)"
    by (rule planned(1)[OF assms(1,3) s2_def]) simp
  obtain j1 where j1: "map_of (jobs s2) jid = Some j1" "done_files j1 = done_files j0" "job_error j1 = job_error j0"
    using planned(2)[OF assms(1,3) s2_def] by auto
  define p where "p = final_pool E cpus sched t s2"
  have len: "t_id t = jid" "t_op t \<noteq> ''move''" by (simp_all add: t_def tree_transfer_def)
  have e: "all_exited p" and s': "s' = job_update jid (\<lambda>j. j\<lparr>status := ''done''\<rparr>) (job_state.truncate (p_state p))"
    using len ta unfolding transfer_all_def final_pool_def[symmetric] p_def[symmetric]
    by (auto simp: Let_def split: if_splits)
  note tp = tree_pool[OF assms(1) B j1(1) p_def[unfolded t_def] e]
  obtain j where "map_of (jobs (p_state p)) jid = Some j" "job_error j = job_error j1"
    "done_files j = done_files j1 + of_nat (length (tree_files n))" using tp(2) by blast
  then have "\<exists>j. map_of (jobs s') jid = Some j \<and> status j = ''done'' \<and> job_error j = job_error j0 \<and>
            done_files j = done_files j0 + of_nat (length (tree_files n))"
    using j1 s' by (intro exI[of _ "j\<lparr>status := ''done''\<rparr>"]) (simp add: map_of_reg_update)
  moreover have w: "jw s' = jw (p_state p)" using s' by (simp add: on_world_simps job_update_simps)
  ultimately show ?thesis using tp(1,6) unfolding w by simp
qed

text \<open>C4 Copying a tree of files and directories without links to a place where nothing is yet, when no
  faults occur: whenever the job ends, under every interleaving of its workers, there is at the
  destination an exact copy (the same directories, the same files with the same bytes, nothing
  else); at every location that is not at or below the destination, the source included, there is
  exactly what was there before, be it nothing, a directory, a link or a file with its data, mode and
  attributes; every file is counted and no error is noted.\<close>

theorem copy_tree:
  assumes "copyable src l n dst L (jw s)" and "tree_height n < depth" and "map_of (jobs s) jid = Some j0"
    and "run_job E depth cpus sched jid ''copy'' src dst s = Some s'"
  shows "(\<exists>j. map_of (jobs s') jid = Some j \<and> status j = ''done'' \<and> job_error j = job_error j0 \<and>
            done_files j = done_files j0 + of_nat (length (tree_files n))) \<and>
    (\<forall>r. case tget n r of
       Some (File d) \<Rightarrow> holds (L @ r) (fbytes d) (jw s')
     | Some (Dir es) \<Rightarrow> is_dirn (tget (fs (jw s')) (L @ r))
     | _ \<Rightarrow> tget (fs (jw s')) (L @ r) = None) \<and>
    (\<forall>q. \<not> prefix L q \<longrightarrow> entry_in (fs (jw s')) q = entry_in (fs (jw s)) q)"
  using tree_job_copies[OF assms] unfolding tree_copied_def .

text \<open>Copying \<open>/src\<close> of the sample tree with two workers.\<close>

definition sample_src :: node where
  "sample_src = Dir [(''a.txt'', plain_file [1, 2, 3]), (''sub'', Dir [(''b.txt'', plain_file [4])])]"

definition copy_state :: job_state where
  "copy_state = \<lparr>jw = sample_world, jobs = [(1, new_job ''copy'' ''/src'' ''/dst/x'')]\<rparr>"

lemma sample_copyable: "copyable ''/src'' [''src''] sample_src ''/dst/x'' [''dst'', ''x''] (jw copy_state)"
proof -
  have "plain_end ''/src''" "resolve False sample_world ''/src'' = Inr [''src'']"
    "plain_end ''/dst/x''" "resolve False sample_world ''/dst/x'' = Inr [''dst'', ''x'']"
    "tget (fs sample_world) [''dst'', ''x''] = None"
    by code_simp+
  moreover have "plain_tree sample_src"
    by (simp add: sample_src_def plain_file_def plain_name_def)
  ultimately show ?thesis
    using sample_env_ok
    by (simp add: copyable_def copy_state_def sample_src_def, simp add: sample_world_def sample_tree_def)
qed

lemma sample_copy_ends:
  "run_job sample_env 4 (Some 2) sample_sched 1 ''copy'' ''/src'' ''/dst/x'' copy_state \<noteq> None"
proof -
  have h: "tree_height sample_src < 4" by (simp add: sample_src_def plain_file_def)
  have op: "''copy'' \<noteq> ''move'' \<or> \<not> same" for same by simp
  show ?thesis
    unfolding run_job_plan[OF sample_copyable h op refl] by code_simp
qed

lemma copy_tree_witness:
  "\<exists>s'. run_job sample_env 4 (Some 2) sample_sched 1 ''copy'' ''/src'' ''/dst/x'' copy_state = Some s' \<and>
     holds [''dst'', ''x'', ''sub'', ''b.txt''] [4] (jw s')"
proof -
  obtain s' where s': "run_job sample_env 4 (Some 2) sample_sched 1 ''copy'' ''/src'' ''/dst/x'' copy_state = Some s'"
    using sample_copy_ends by auto
  have h: "tree_height sample_src < 4" by (simp add: sample_src_def plain_file_def)
  have m: "map_of (jobs copy_state) 1 = Some (new_job ''copy'' ''/src'' ''/dst/x'')" by (simp add: copy_state_def)
  have g: "tget sample_src [''sub'', ''b.txt''] = Some (plain_file [4])" by (simp add: sample_src_def)
  from copy_tree[OF sample_copyable h m s'] have "case tget sample_src [''sub'', ''b.txt''] of
       Some (File d) \<Rightarrow> holds ([''dst'', ''x''] @ [''sub'', ''b.txt'']) (fbytes d) (jw s')
     | Some (Dir es) \<Rightarrow> is_dirn (tget (fs (jw s')) ([''dst'', ''x''] @ [''sub'', ''b.txt'']))
     | _ \<Rightarrow> tget (fs (jw s')) ([''dst'', ''x''] @ [''sub'', ''b.txt'']) = None" by blast
  then show ?thesis using g s' by (simp add: plain_file_def)
qed

end
