(* ===== verification/Delete_Laws.thy ===== *)
theory Delete_Laws
  imports Job_Laws Samples
begin

text \<open>
  The workers of \<open>run_delete_job\<close>, for every schedule of their steps and every fault script, and
  the removal of the directories after them.
\<close>

section \<open>Assertions of one file\<close>

definition del_paths :: "path list \<Rightarrow> (nat \<Rightarrow> loc) \<Rightarrow> world \<Rightarrow> bool" where
  "del_paths ps ls w \<longleftrightarrow>
     env_ok w \<and>
     (\<forall>i < length ps. plain_end (ps ! i) \<and> ls i \<noteq> [] \<and> resolve False w (ps ! i) = Inr (ls i) \<and>
        skel_of (tget (fs w) (ls i)) = SLeaf \<and> (\<forall>j < length ps. i \<noteq> j \<longrightarrow> ls i \<noteq> ls j))"

lemma del_paths_frame: "del_paths ps ls w \<Longrightarrow> only_file L w v \<Longrightarrow> del_paths ps ls v"
  using only_file_env[of L w v] only_file_resolve[of L w v] only_file_leaf[of L w v]
  by (simp add: del_paths_def)

definition d_keeps :: "(nat \<Rightarrow> loc) \<Rightarrow> world \<Rightarrow> nat \<Rightarrow> work \<Rightarrow> bool" where
  "d_keeps ls w0 i s \<longleftrightarrow> files (fs (jw s)) (ls i) = files (fs w0) (ls i)"

definition d_after :: "(nat \<Rightarrow> loc) \<Rightarrow> world \<Rightarrow> nat \<Rightarrow> work \<Rightarrow> bool" where
  "d_after ls w0 i s \<longleftrightarrow> files (fs (jw s)) (ls i) = None \<or> d_keeps ls w0 i s \<and> 0 < failed s"

definition d_record :: "u64 \<Rightarrow> job \<Rightarrow> nat set \<Rightarrow> work \<Rightarrow> bool" where
  "d_record jid j0 F s \<longleftrightarrow>
     (\<exists>j. map_of (jobs s) jid = Some j \<and> done_dirs j = done_dirs j0 \<and>
        (if failed s = 0 then done_files j = done_files j0 + of_nat (card F) \<and> job_error j = job_error j0
         else job_error j \<noteq> None))"

definition d_inv :: "path list \<Rightarrow> (nat \<Rightarrow> loc) \<Rightarrow> world \<Rightarrow> u64 \<Rightarrow> job \<Rightarrow> nat set \<Rightarrow> work \<Rightarrow> bool" where
  "d_inv ps ls w0 jid j0 F s \<longleftrightarrow>
     del_paths ps ls (jw s) \<and> F \<subseteq> {..<length ps} \<and>
     only_file {ls i | i. i < length ps} w0 (jw s) \<and> d_record jid j0 F s"

section \<open>One step\<close>

text \<open>What a step does to its file, and what it leaves of everything else.\<close>

lemma delete_step_cases:
  assumes "del_paths ps ls (jw s)" and "i < length ps" and "delete_step E jid ps i ph s = (r, u)"
  obtains (note_file) "ph = DNote" "r = Some DRemove" "jw u = jw s" "failed u = failed s"
      "jobs u = reg_update jid (note_current (ps ! i)) (jobs s)"
  | (removed) "ph = DRemove" "r = None" "only_file {ls i} (jw s) (jw u)" "files (fs (jw u)) (ls i) = None"
      "failed u = failed s" "jobs u = reg_update jid (\<lambda>j. j\<lparr>done_files := done_files j + 1\<rparr>) (jobs s)"
  | (kept) e where "ph = DRemove" "r = None" "only_file {ls i} (jw s) (jw u)"
      "files (fs (jw u)) = files (fs (jw s))" "failed u = failed s + 1"
      "jobs u = reg_update jid (note_error e) (jobs s)"
proof (cases ph)
  case DNote
  with assms(3) show ?thesis by (intro note_file) (auto simp: delete_step_def Let_def)
next
  case DRemove
  have p: "resolve_leaf (jw s) (ps ! i) = Inr (ls i)" "env_ok (jw s)" "ls i \<noteq> []"
    "skel_of (tget (fs (jw s)) (ls i)) = SLeaf"
    using assms(1,2) by (auto simp: del_paths_def resolve_leaf_plain)
  obtain r1 v where rf: "remove_file (ps ! i) (jw s) = (r1, v)" by fastforce
  have o: "only_file {ls i} (jw s) v" using remove_file_only_file(1)[OF p] rf by simp
  show ?thesis
  proof (cases r1)
    case (Inr x)
    with assms(3) DRemove rf have "r = None"
      "u = job_update jid (\<lambda>j. j\<lparr>done_files := done_files j + 1\<rparr>) (s\<lparr>jw := v\<rparr>)"
      by (auto simp: delete_step_def on_world_def Let_def)
    then show ?thesis using DRemove o remove_file_result(1)[OF p(1,3,4) rf] Inr
      by (intro removed) simp_all
  next
    case (Inl e)
    with assms(3) DRemove rf have "r = None"
      "u = job_update jid (note_error (ps ! i @ '': '' @ io_text E e)) (s\<lparr>jw := v, failed := failed s + 1\<rparr>)"
      by (auto simp: delete_step_def on_world_def Let_def)
    then show ?thesis using DRemove o remove_file_result(2)[OF p(1,3,4) rf] Inl
      by (intro kept) simp_all
  qed
qed

lemma d_inv_paths: "d_inv ps ls w0 jid j0 F s \<Longrightarrow> del_paths ps ls (jw s)"
  by (simp add: d_inv_def)

lemma d_inv_world:
  assumes "d_inv ps ls w0 jid j0 F s" and "i < length ps" and "only_file {ls i} (jw s) (jw u)"
  shows "del_paths ps ls (jw u)" and "only_file {ls i | i. i < length ps} w0 (jw u)"
proof -
  show "del_paths ps ls (jw u)" using assms(1,3) by (auto simp: d_inv_def intro: del_paths_frame)
  have "only_file {ls i | i. i < length ps} (jw s) (jw u)"
    by (rule only_file_mono[OF assms(3)]) (use assms(2) in auto)
  then show "only_file {ls i | i. i < length ps} w0 (jw u)"
    using assms(1) by (auto simp: d_inv_def intro: only_file_trans)
qed

lemma d_inv_finite: "d_inv ps ls w0 jid j0 F s \<Longrightarrow> finite F"
  using finite_subset by (auto simp: d_inv_def)

lemma d_others:
  assumes "d_inv ps ls w0 jid j0 F s" and "i < length ps" and "delete_step E jid ps i ph s = (r, u)"
    and "j < length ps" and "j \<noteq> i"
  shows "files (fs (jw u)) (ls j) = files (fs (jw s)) (ls j)" and "failed s \<le> failed u"
proof -
  have "ls j \<noteq> ls i" using d_inv_paths[OF assms(1)] assms(2,4,5) by (auto simp: del_paths_def)
  then show "files (fs (jw u)) (ls j) = files (fs (jw s)) (ls j)"
    by (cases rule: delete_step_cases[OF d_inv_paths[OF assms(1)] assms(2,3)])
       (auto simp: only_file_def)
  show "failed s \<le> failed u"
    by (cases rule: delete_step_cases[OF d_inv_paths[OF assms(1)] assms(2,3)]) simp_all
qed

text \<open>A change of the job's record that counts \<open>k\<close> removed files, or notes an error.\<close>

lemma d_record_step:
  assumes "d_record jid j0 F s" and "jobs u = reg_update jid g (jobs s)"
    and "\<And>j. done_dirs (g j) = done_dirs j"
    and "\<And>j. failed u = 0 \<Longrightarrow> failed s = 0 \<and> done_files (g j) = done_files j + of_nat k \<and> job_error (g j) = job_error j"
    and "\<And>j. 0 < failed u \<Longrightarrow> job_error (g j) \<noteq> None \<or> 0 < failed s \<and> job_error (g j) = job_error j"
    and "failed u = 0 \<longrightarrow> card F' = card F + k"
  shows "d_record jid j0 F' u"
proof -
  obtain j where j: "map_of (jobs s) jid = Some j" "done_dirs j = done_dirs j0"
    "if failed s = 0 then done_files j = done_files j0 + of_nat (card F) \<and> job_error j = job_error j0
     else job_error j \<noteq> None"
    using assms(1) by (auto simp: d_record_def)
  have "map_of (jobs u) jid = Some (g j)" using j(1) assms(2) by (simp add: map_of_reg_update)
  moreover have "if failed u = 0 then done_files (g j) = done_files j0 + of_nat (card F') \<and> job_error (g j) = job_error j0
      else job_error (g j) \<noteq> None"
    using assms(4,5)[of j] assms(6) j(3) by (auto split: if_splits)
  ultimately show ?thesis using assms(3)[of j] j(2) by (auto simp: d_record_def simp del: split_paired_Ex)
qed

interpretation dp: work_pool DNote "delete_step E jid ps" "length ps" "d_inv ps ls w0 jid j0"
  "d_keeps ls w0" "\<lambda>i ph. d_keeps ls w0 i" "d_after ls w0" for E jid ps ls w0 j0
proof (unfold_locales, goal_cases)
  case (1 F s i)
  then show ?case by simp
next
  case (2 F s i a b u)
  show ?case
    using d_inv_paths[OF 2(1)] 2(2,5)
  proof (cases rule: delete_step_cases)
    case note_file
    have "d_record jid j0 F u"
      by (rule d_record_step[OF _ note_file(5), where k = 0]) (use 2(1) note_file in \<open>auto simp: d_inv_def note_current_def Let_def\<close>)
    then show ?thesis using 2(1,4) note_file by (simp add: d_inv_def d_keeps_def)
  qed auto
next
  case (3 F s i a u)
  have c: "card (insert i F) = card F + 1" using d_inv_finite[OF 3(1)] 3(3) by simp
  have F: "insert i F \<subseteq> {..<length ps}" using 3(1,2) by (auto simp: d_inv_def)
  show ?case
    using d_inv_paths[OF 3(1)] 3(2,5)
  proof (cases rule: delete_step_cases)
    case removed
    have "d_record jid j0 (insert i F) u"
      by (rule d_record_step[OF _ removed(6), where k = 1]) (use 3(1) removed c in \<open>auto simp: d_inv_def\<close>)
    then show ?thesis using d_inv_world[OF 3(1,2) removed(3)] F removed(4) by (simp add: d_inv_def d_after_def)
  next
    case (kept e)
    have "d_record jid j0 (insert i F) u"
      by (rule d_record_step[OF _ kept(6), where k = 1])
         (use 3(1) kept c in \<open>auto simp: d_inv_def note_error_def\<close>)
    then show ?thesis using d_inv_world[OF 3(1,2) kept(3)] F kept(4,5) 3(4)
      by (simp add: d_inv_def d_after_def d_keeps_def)
  qed auto
next
  case (4 F s i a r u j)
  then show ?case using d_others[OF 4(1,2,4,5,6)] by (simp add: d_keeps_def)
next
  case (5 F s i a r u j b)
  then show ?case using d_others[OF 5(1,2,4,5,6)] by (simp add: d_keeps_def)
next
  case (6 F s i a r u j)
  then show ?case using d_others[OF 6(1,2,4,5,6)] by (auto simp: d_after_def d_keeps_def)
qed

section \<open>The directories\<close>

lemma remove_dirs_result:
  assumes "remove_dirs jid ds n s = (m, u)"
  shows "shrinks (jw s) (jw u)" and "files (fs (jw u)) = files (fs (jw s))" and "n \<le> m"
    and "m = n \<Longrightarrow> d \<in> set ds \<Longrightarrow> plain_end d \<Longrightarrow> shrinks w (jw s) \<Longrightarrow> resolve False w d = Inr l \<Longrightarrow>
      tget (fs (jw u)) l = None"
    and "map_of (jobs s) jid = Some j \<Longrightarrow> \<exists>j'. map_of (jobs u) jid = Some j' \<and>
      done_files j' = done_files j \<and> job_error j' = job_error j \<and>
      (m = n \<longrightarrow> done_dirs j' = done_dirs j + of_nat (length ds))"
proof -
  have "shrinks (jw s) (jw u) \<and> files (fs (jw u)) = files (fs (jw s)) \<and> n \<le> m \<and>
      (m = n \<longrightarrow> d \<in> set ds \<longrightarrow> plain_end d \<longrightarrow> shrinks w (jw s) \<longrightarrow> resolve False w d = Inr l \<longrightarrow>
        tget (fs (jw u)) l = None) \<and>
      (map_of (jobs s) jid = Some j \<longrightarrow> (\<exists>j'. map_of (jobs u) jid = Some j' \<and>
        done_files j' = done_files j \<and> job_error j' = job_error j \<and>
        (m = n \<longrightarrow> done_dirs j' = done_dirs j + of_nat (length ds))))"
    using assms
  proof (induction jid ds n s arbitrary: j rule: remove_dirs.induct)
    case (1 jid n s)
    then show ?case by (auto simp: shrinks_same)
  next
    case (2 jid e ds n s)
    obtain r v where rd: "remove_dir e (jw s) = (r, v)" by fastforce
    note sh = remove_dir_shrinks[OF rd]
    define s1 where "s1 = job_update jid (note_current e) s"
    have ow: "on_world (remove_dir e) s1 = (r, s1\<lparr>jw := v\<rparr>)"
      using rd by (simp add: on_world_def s1_def)
    show ?case
    proof (cases r)
      case (Inl x)
      with "2.prems" ow have rest: "remove_dirs jid ds (n + 1) (s1\<lparr>jw := v\<rparr>) = (m, u)" by (simp add: s1_def)
      have "jw (s1\<lparr>jw := v\<rparr>) = v" "jobs (s1\<lparr>jw := v\<rparr>) = reg_update jid (note_current e) (jobs s)"
        by (simp_all add: s1_def)
      with "2.IH"(1)[OF ow[unfolded s1_def, symmetric] Inl rest[unfolded s1_def], of "note_current e j"] sh shrinks_trans[OF sh(1)]
      show ?thesis by (auto simp: map_of_reg_update s1_def)
    next
      case (Inr y)
      define s2 where "s2 = job_update jid (\<lambda>j. j\<lparr>done_dirs := done_dirs j + 1\<rparr>) (s1\<lparr>jw := v\<rparr>)"
      have rest: "remove_dirs jid ds n s2 = (m, u)" using "2.prems" ow Inr by (simp add: s1_def s2_def)
      have f: "jw s2 = v"
        "jobs s2 = reg_update jid (\<lambda>j. j\<lparr>done_dirs := done_dirs j + 1\<rparr>) (reg_update jid (note_current e) (jobs s))"
        by (simp_all add: s2_def s1_def)
      note IH = "2.IH"(2)[OF ow[unfolded s1_def, symmetric] Inr rest[unfolded s2_def s1_def],
          of "(note_current e j)\<lparr>done_dirs := done_dirs (note_current e j) + 1\<rparr>", folded s1_def, folded s2_def]
      have gone: "tget (fs (jw u)) l = None" if "plain_end e" "shrinks w (jw s)" "resolve False w e = Inr l"
      proof -
        obtain l' where l': "resolve_leaf (jw s) e = Inr l'" "tget (fs (jw s)) l' \<noteq> None" "tget (fs v) l' = None"
          using sh(3) Inr by auto
        then have "resolve False w e = Inr l'"
          using shrinks_resolve[OF that(2)] that(1) by (simp add: resolve_leaf_plain)
        then have "l' = l" using that(3) by simp
        moreover have "shrinks v (jw u)" using IH f by simp
        ultimately show ?thesis using l'(3) shrinks_None by blast
      qed
      have cur: "done_dirs (note_current e j) = done_dirs j" by (simp add: note_current_def Let_def)
      show ?thesis using IH f sh shrinks_trans[OF sh(1)] shrinks_trans[of w "jw s" v] gone
        by (auto simp: map_of_reg_update cur)
    qed
  qed
  then show "shrinks (jw s) (jw u)" "files (fs (jw u)) = files (fs (jw s))" "n \<le> m"
    "m = n \<Longrightarrow> d \<in> set ds \<Longrightarrow> plain_end d \<Longrightarrow> shrinks w (jw s) \<Longrightarrow> resolve False w d = Inr l \<Longrightarrow>
      tget (fs (jw u)) l = None"
    "map_of (jobs s) jid = Some j \<Longrightarrow> \<exists>j'. map_of (jobs u) jid = Some j' \<and>
      done_files j' = done_files j \<and> job_error j' = job_error j \<and>
      (m = n \<longrightarrow> done_dirs j' = done_dirs j + of_nat (length ds))"
    by blast+
qed

section \<open>The whole job\<close>

lemma delete_pool_result:
  assumes "del_paths (d_files acc) ls (jw s)" and "map_of (jobs s) jid = Some j0"
    and "p = run_pool DNote (delete_step E jid (d_files acc)) (length (d_files acc)) sched
                (new_pool (nthreads cpus) (job_state.extend s (work.fields 0)))" and "all_exited p"
  shows "d_inv (d_files acc) ls (jw s) jid j0 {..<length (d_files acc)} (p_state p)"
    and "i < length (d_files acc) \<Longrightarrow> d_after ls (jw s) i (p_state p)"
proof -
  let ?s = "job_state.extend s (work.fields 0)"
  have i0: "d_inv (d_files acc) ls (jw s) jid j0 {} ?s"
    using assms(1,2) by (simp add: d_inv_def d_record_def)
  have b: "\<forall>i < length (d_files acc). d_keeps ls (jw s) i ?s" by (simp add: d_keeps_def)
  have m: "0 < nthreads cpus" using nthreads_bounds(1)[of cpus] by simp
  note pd = dp.pool_done[OF i0 b m assms(3,4)]
  show "d_inv (d_files acc) ls (jw s) jid j0 {..<length (d_files acc)} (p_state p)" using pd(1) by simp
  show "d_after ls (jw s) i (p_state p)" if "i < length (d_files acc)" using pd(2)[OF that] .
qed

lemma delete_pool_files:
  assumes "d_inv ps ls w0 jid j0 F u" and "\<forall>i < length ps. d_after ls w0 i u"
  shows "(\<forall>i < length ps. q \<noteq> ls i) \<Longrightarrow> files (fs (jw u)) q = files (fs w0) q" and "shrinks w0 (jw u)"
proof -
  have o: "only_file {ls i | i. i < length ps} w0 (jw u)" using assms(1) by (simp add: d_inv_def)
  show other: "files (fs (jw u)) q = files (fs w0) q" if "\<forall>i < length ps. q \<noteq> ls i" for q
    using o that by (auto simp: only_file_def)
  have "files (fs (jw u)) q = None \<or> files (fs (jw u)) q = files (fs w0) q" for q
    using assms(2) other[of q] by (cases "\<forall>i < length ps. q \<noteq> ls i") (fastforce simp: d_after_def d_keeps_def)+
  then show "shrinks w0 (jw u)" by (rule only_file_shrinks[OF o])
qed

text \<open>C8 A delete job, under every interleaving of its workers and every pattern of faults: no file outside
  its list is touched; when it ends with status \<open>done\<close>, every file and every directory of its lists
  is gone and counted and no error was noted; otherwise its status is \<open>error\<close>, and each file is gone or as it was.\<close>

theorem delete_job_correct:
  assumes "del_paths (d_files acc) ls (jw s)" and "map_of (jobs s) jid = Some j0"
    and "delete_all E cpus sched jid acc s = Some s'"
  shows "\<exists>j. map_of (jobs s') jid = Some j \<and>
      (\<forall>q. (\<forall>i < length (d_files acc). q \<noteq> ls i) \<longrightarrow> files (fs (jw s')) q = files (fs (jw s)) q) \<and>
      (if status j = ''done''
       then (\<forall>i < length (d_files acc). files (fs (jw s')) (ls i) = None) \<and>
         (\<forall>d \<in> set (d_dirs acc). \<forall>l. plain_end d \<longrightarrow> resolve False (jw s) d = Inr l \<longrightarrow> tget (fs (jw s')) l = None) \<and>
         done_files j = done_files j0 + of_nat (length (d_files acc)) \<and>
         done_dirs j = done_dirs j0 + of_nat (length (d_dirs acc)) \<and> job_error j = job_error j0
       else status j = ''error'' \<and>
         (\<forall>i < length (d_files acc). files (fs (jw s')) (ls i) \<in> {None, files (fs (jw s)) (ls i)}))"
proof -
  define p where "p = run_pool DNote (delete_step E jid (d_files acc)) (length (d_files acc)) sched
                (new_pool (nthreads cpus) (job_state.extend s (work.fields 0)))"
  obtain m u where e: "all_exited p"
    and r: "remove_dirs jid (rev (d_dirs acc)) (failed (p_state p)) (job_state.truncate (p_state p)) = (m, u)"
    and s': "s' = job_update jid (\<lambda>j. j\<lparr>status := (if m = 0 then ''done'' else ''error'')\<rparr>) u"
    using assms(3) unfolding delete_all_def p_def[symmetric] by (auto simp: Let_def split: if_splits prod.splits)
  note pr = delete_pool_result[OF assms(1,2) p_def e]
  have af: "\<forall>i < length (d_files acc). d_after ls (jw s) i (p_state p)" using pr(2) by blast
  note pf = delete_pool_files[OF pr(1) af]
  obtain j1 where j1: "map_of (jobs (p_state p)) jid = Some j1" "done_dirs j1 = done_dirs j0"
    "if failed (p_state p) = 0 then done_files j1 = done_files j0 + of_nat (length (d_files acc)) \<and> job_error j1 = job_error j0
     else job_error j1 \<noteq> None"
    using pr(1) by (auto simp: d_inv_def d_record_def)
  note rd = remove_dirs_result[OF r, unfolded pool_start_simps]
  obtain j2 where j2: "map_of (jobs u) jid = Some j2" "done_files j2 = done_files j1" "job_error j2 = job_error j1"
    "m = failed (p_state p) \<Longrightarrow> done_dirs j2 = done_dirs j1 + of_nat (length (d_dirs acc))"
    using rd(5)[OF j1(1)] by auto
  define j where "j = j2\<lparr>status := (if m = 0 then ''done'' else ''error'')\<rparr>"
  have js: "map_of (jobs s') jid = Some j" using j2(1) s' by (simp add: map_of_reg_update j_def)
  have fl: "files (fs (jw s')) q = files (fs (jw (p_state p))) q" for q using rd(2) s' by simp
  have other: "files (fs (jw s')) q = files (fs (jw s)) q" if "\<forall>i < length (d_files acc). q \<noteq> ls i" for q
    using pf(1)[OF that] fl by simp
  show ?thesis
  proof (cases "m = 0")
    case True
    then have z: "failed (p_state p) = 0" using rd(3) by simp
    have "files (fs (jw s')) (ls i) = None" if "i < length (d_files acc)" for i
      using af that z fl by (simp add: d_after_def)
    moreover have "tget (fs (jw s')) l = None"
      if "d \<in> set (d_dirs acc)" "plain_end d" "resolve False (jw s) d = Inr l" for d l
      using rd(4)[of d "jw s" l] that True z pf(2) s' by simp
    ultimately show ?thesis using js other j1(2,3) j2(2-4) z True by (intro exI[of _ j]) (auto simp: j_def)
  next
    case False
    have "files (fs (jw s')) (ls i) \<in> {None, files (fs (jw s)) (ls i)}" if "i < length (d_files acc)" for i
      using af that fl by (auto simp: d_after_def d_keeps_def)
    then show ?thesis using js other False by (intro exI[of _ j]) (auto simp: j_def)
  qed
qed

section \<open>A job on the sample tree\<close>

definition sample_del :: del_acc where
  "sample_del = \<lparr>d_files = [''/src/a.txt'', ''/src/sub/b.txt''], d_dirs = [''/src'', ''/src/sub''], d_bytes = 4\<rparr>"

definition sample_del_state :: job_state where
  "sample_del_state = \<lparr>jw = sample_world, jobs = [(1, new_job ''delete'' ''/src'' [])]\<rparr>"

definition sample_ls :: "nat \<Rightarrow> loc" where
  "sample_ls i = (if i = 0 then [''src'', ''a.txt''] else [''src'', ''sub'', ''b.txt''])"

lemma sample_del_paths: "del_paths (d_files sample_del) sample_ls (jw sample_del_state)"
proof -
  have p: "plain_end ''/src/a.txt''" "plain_end ''/src/sub/b.txt''"
    "resolve False sample_world ''/src/a.txt'' = Inr [''src'', ''a.txt'']"
    "resolve False sample_world ''/src/sub/b.txt'' = Inr [''src'', ''sub'', ''b.txt'']"
    "skel_of (tget (fs sample_world) [''src'', ''a.txt'']) = SLeaf"
    "skel_of (tget (fs sample_world) [''src'', ''sub'', ''b.txt'']) = SLeaf"
    by code_simp+
  have n: "length (d_files sample_del) = 2" by (simp add: sample_del_def)
  show ?thesis
    using p sample_env_ok unfolding del_paths_def n
    by (auto simp: sample_del_def sample_del_state_def sample_ls_def less_2_cases_iff)
qed

lemma sample_delete_status:
  "map_option (\<lambda>s'. map_option status (map_of (jobs s') 1))
     (delete_all sample_env (Some 2) (concat (replicate 4 [0, 1])) 1 sample_del sample_del_state) = Some (Some ''done'')"
  by code_simp

lemma delete_job_correct_witness:
  "\<exists>s'. delete_all sample_env (Some 2) (concat (replicate 4 [0, 1])) 1 sample_del sample_del_state = Some s' \<and>
     tget (fs (jw s')) [''src'', ''sub''] = None \<and>
     files (fs (jw s')) [''ext'', ''keep.txt''] = files sample_tree [''ext'', ''keep.txt'']"
proof -
  obtain s' j' where s': "delete_all sample_env (Some 2) (concat (replicate 4 [0, 1])) 1 sample_del sample_del_state = Some s'"
    and j': "map_of (jobs s') 1 = Some j'" "status j' = ''done''"
    using sample_delete_status by auto
  have m: "map_of (jobs sample_del_state) 1 = Some (new_job ''delete'' ''/src'' [])" by (simp add: sample_del_state_def)
  have n: "length (d_files sample_del) = 2" by (simp add: sample_del_def)
  have r: "plain_end ''/src/sub''" "resolve False sample_world ''/src/sub'' = Inr [''src'', ''sub'']" by code_simp+
  from delete_job_correct[OF sample_del_paths m s'] j'
  have a: "files (fs (jw s')) [''ext'', ''keep.txt''] = files (fs (jw sample_del_state)) [''ext'', ''keep.txt'']"
    and b: "\<forall>d \<in> set (d_dirs sample_del). \<forall>l. plain_end d \<longrightarrow> resolve False (jw sample_del_state) d = Inr l \<longrightarrow> tget (fs (jw s')) l = None"
    by (auto simp: n less_2_cases_iff sample_ls_def)
  have "tget (fs (jw s')) [''src'', ''sub''] = None"
    using b r by (simp add: sample_del_def sample_del_state_def)
  moreover have "fs (jw sample_del_state) = sample_tree" by (simp add: sample_del_state_def sample_world_def)
  ultimately show ?thesis using s' a by auto
qed

end
