(* ===== verification/Tree_Delete.thy ===== *)
theory Tree_Delete
  imports Tree_Copy Delete_Laws
begin

text \<open>
  A whole delete job on a tree without faults: the walk lists it, the workers remove its files in
  any order, and the directories go after them, children before their parents.
\<close>

section \<open>\<open>walk_delete\<close>\<close>

definition listed :: "path \<Rightarrow> node \<Rightarrow> del_acc \<Rightarrow> del_acc" where
  "listed src n acc = acc\<lparr>
     d_files := d_files acc @ map (path_at src) (tree_files n),
     d_dirs := d_dirs acc @ map (path_at src) (tree_dirs n),
     d_bytes := d_bytes acc + of_nat (tree_bytes n)\<rparr>"

definition listed_entries :: "path \<Rightarrow> (string \<times> node) list \<Rightarrow> del_acc \<Rightarrow> del_acc" where
  "listed_entries src es acc = foldl (\<lambda>a e. listed (path_join src (fst e)) (snd e) a) acc es"

lemma listed_dir: "listed src (Dir es) acc = listed_entries src es (acc\<lparr>d_dirs := d_dirs acc @ [src]\<rparr>)"
proof -
  have "listed_entries src es a = a\<lparr>
     d_files := d_files a @ map (path_at src) (tree_files (Dir es)),
     d_dirs := d_dirs a @ map (path_at src) (tl (tree_dirs (Dir es))),
     d_bytes := d_bytes a + of_nat (tree_bytes (Dir es))\<rparr>" for a
    unfolding listed_entries_def
    by (induction es arbitrary: a) (simp_all add: listed_def o_def add.assoc)
  then show ?thesis by (simp add: listed_def)
qed

lemma walk_delete_finds:
  assumes "faults w = []" and "resolve True w src = Inr l" and "tget (fs w) l = Some n" and "plain_tree n"
    and "tree_height n < depth" and "is_filen (Some n) \<Longrightarrow> resolve False w src = Inr l"
  shows "walk_delete depth src acc w = Some (Inr (), listed src n acc, w)"
  using assms
proof (induction n arbitrary: src acc l depth)
  case (File d)
  then obtain k where "depth = Suc k" by (cases depth) auto
  with File show ?case
    by (simp add: quiet_queries node_at_def is_dirn_def listed_def)
next
  case (Symlink x)
  then show ?case by simp
next
  case (Dir es)
  obtain k where k: "depth = Suc k" using Dir.prems(5) by (cases depth) auto
  have ents: "walk_delete_entries k src xs a w = Some (Inr (), listed_entries src xs a, w)"
    if "set xs \<subseteq> set es" for xs a
    using that
  proof (induction xs arbitrary: a)
    case Nil
    then show ?case by (simp add: listed_entries_def)
  next
    case (Cons e xs)
    then have e: "e \<in> set es" by simp
    have p: "plain_name (fst e)" "plain_tree (snd e)" "distinct (map fst es)" using Dir.prems(4) e by auto
    have g: "tget (fs w) (l @ [fst e]) = Some (snd e)" using child_node[OF Dir.prems(3) p(3) e] .
    have nl: "tget (fs w) (l @ [fst e]) \<noteq> Some (Symlink x)" for x using g p(2) by auto
    have r: "resolve f w (path_join src (fst e)) = Inr (l @ [fst e])" for f
      using resolve_name[OF Dir.prems(2,3) p(1)] nl by blast
    have "walk_delete k (path_join src (fst e)) a w = Some (Inr (), listed (path_join src (fst e)) (snd e) a, w)"
    proof (rule Dir.IH)
      show "e \<in> set es" by (rule e)
      show "snd e \<in> Basic_BNFs.snds e" by (cases e) simp
      show "faults w = []" by (rule Dir.prems(1))
      show "tree_height (snd e) < k" using child_height[OF e] Dir.prems(5) k by blast
    qed (use r g p in auto)
    then show ?case
      using Cons by (simp add: quiet_queries(4)[OF Dir.prems(1)] listed_entries_def)
  qed
  have d: "path_is_dir src w = (True, w)"
    using Dir.prems(1-3) by (simp add: quiet_queries node_at_def)
  show ?case
    using k d read_dir_quiet[OF Dir.prems(1-3)] ents[of es] by (simp add: listed_dir Let_def)
qed

section \<open>The workers without faults\<close>

lemma delete_step_calm:
  assumes "del_paths ps ls (jw s)" and "i < length ps" and "calm s" and "files (fs (jw s)) (ls i) \<noteq> None"
    and "delete_step E jid ps i ph s = (r, u)"
  shows "calm u"
proof (cases ph)
  case DNote
  with assms(3,5) show ?thesis by (auto simp: delete_step_def calm_def Let_def)
next
  case DRemove
  have q: "faults (jw s) = []" "failed s = 0" using assms(3) by (simp_all add: calm_def)
  have l: "resolve_leaf (jw s) (ps ! i) = Inr (ls i)" using assms(1,2) by (simp add: del_paths_def resolve_leaf_plain)
  obtain d where "files (fs (jw s)) (ls i) = Some d" using assms(4) by blast
  then have h: "holds (ls i) (fbytes d) (jw s)" by (simp add: holds_def)
  obtain r1 v where rf: "remove_file (ps ! i) (jw s) = (r1, v)" by fastforce
  from remove_file_quiet[OF l h q(1) rf] rf assms(5) DRemove q show ?thesis
    by (auto simp: delete_step_def on_world_def calm_def Let_def)
qed

definition all_there :: "path list \<Rightarrow> (nat \<Rightarrow> loc) \<Rightarrow> world \<Rightarrow> bool" where
  "all_there ps ls w \<longleftrightarrow> (\<forall>i < length ps. files (fs w) (ls i) \<noteq> None)"

interpretation fd: work_pool DNote "delete_step E jid ps" "length ps"
  "\<lambda>F s. d_inv ps ls w0 jid j0 F s \<and> calm s \<and> all_there ps ls w0"
  "d_keeps ls w0" "\<lambda>i ph. d_keeps ls w0 i" "d_after ls w0" for E jid ps ls w0 j0
proof (unfold_locales, goal_cases)
  case (1 F s i)
  then show ?case by simp
next
  case (2 F s i a b u)
  have i: "d_inv ps ls w0 jid j0 F s" "calm s" "all_there ps ls w0" and k: "d_keeps ls w0 i s" using 2 by simp_all
  have "files (fs (jw s)) (ls i) \<noteq> None" using i(3) k 2(2) by (simp add: all_there_def d_keeps_def)
  then have "calm u" using delete_step_calm[OF d_inv_paths[OF i(1)] 2(2) i(2) _ 2(5)] by blast
  with dp.goes[OF i(1) 2(2,3) k 2(5)] i(3) show ?case by simp
next
  case (3 F s i a u)
  have i: "d_inv ps ls w0 jid j0 F s" "calm s" "all_there ps ls w0" and k: "d_keeps ls w0 i s" using 3 by simp_all
  have "files (fs (jw s)) (ls i) \<noteq> None" using i(3) k 3(2) by (simp add: all_there_def d_keeps_def)
  then have "calm u" using delete_step_calm[OF d_inv_paths[OF i(1)] 3(2) i(2) _ 3(5)] by blast
  with dp.stops[OF i(1) 3(2,3) k 3(5)] i(3) show ?case by simp
next
  case (4 F s i a r u j)
  then show ?case using dp.before_stable by blast
next
  case (5 F s i a r u j b)
  then show ?case using dp.during_stable by blast
next
  case (6 F s i a r u j)
  then show ?case using dp.after_stable by blast
qed

lemma quiet_delete_result:
  assumes "del_paths (d_files acc) ls (jw s)" and "all_there (d_files acc) ls (jw s)" and "faults (jw s) = []"
    and "map_of (jobs s) jid = Some j0"
    and "p = run_pool DNote (delete_step E jid (d_files acc)) (length (d_files acc)) sched
                (new_pool (nthreads cpus) (job_state.extend s (work.fields 0)))" and "all_exited p"
  shows "d_inv (d_files acc) ls (jw s) jid j0 {..<length (d_files acc)} (p_state p)" and "calm (p_state p)"
    and "i < length (d_files acc) \<Longrightarrow> files (fs (jw (p_state p))) (ls i) = None"
proof -
  let ?s = "job_state.extend s (work.fields 0)"
  have i0: "d_inv (d_files acc) ls (jw s) jid j0 {} ?s \<and> calm ?s \<and> all_there (d_files acc) ls (jw s)"
    using assms(1-4) by (simp add: d_inv_def d_record_def calm_def)
  have b: "\<forall>i < length (d_files acc). d_keeps ls (jw s) i ?s" by (simp add: d_keeps_def)
  have m: "0 < nthreads cpus" using nthreads_bounds(1)[of cpus] by simp
  note pd = fd.pool_done[OF i0 b m assms(5,6)]
  show "d_inv (d_files acc) ls (jw s) jid j0 {..<length (d_files acc)} (p_state p)" "calm (p_state p)" using pd(1) by simp_all
  then show "files (fs (jw (p_state p))) (ls i) = None" if "i < length (d_files acc)"
    using pd(2)[OF that] by (simp add: d_after_def calm_def)
qed

section \<open>The directories, children first\<close>

text \<open>What is left below \<open>l\<close>: the directories of \<open>A\<close>.\<close>

definition cleared :: "loc \<Rightarrow> loc set \<Rightarrow> world \<Rightarrow> bool" where
  "cleared l A w \<longleftrightarrow> faults w = [] \<and>
     (\<forall>r. (r \<in> A \<longrightarrow> is_dirn (tget (fs w) (l @ r))) \<and> (r \<notin> A \<longrightarrow> tget (fs w) (l @ r) = None))"

lemma parents_first_in: "parents_first A xs \<Longrightarrow> x \<in> set xs \<Longrightarrow> strict_prefix q x \<Longrightarrow> q \<in> A \<union> set xs"
proof (induction xs arbitrary: A)
  case (Cons a xs)
  then show ?case using Cons.IH[of "insert a A"] by auto
qed simp

text \<open>The path of a location that names neither links nor dots.\<close>

definition straight :: "loc \<Rightarrow> path" where
  "straight l = path_at [slash] l"

lemma straight_below: "path_at (straight l) r = straight (l @ r)"
  by (simp add: straight_def path_at_def)

lemma resolve_straight:
  assumes "\<forall>s \<in> set l. plain_name s" and "l \<noteq> []" and "tget (fs w) l = Some n" and "\<And>x. n \<noteq> Symlink x"
  shows "resolve f w (straight l) = Inr l" and "plain_end (straight l)"
proof -
  have d: "is_dirn (tget (fs w) q)" if q: "strict_prefix q l" for q
  proof -
    obtain z zs where l: "l = q @ z # zs" using q by (rule strict_prefixE')
    then obtain m where "tget (fs w) q = Some m" "tget m (z # zs) = Some n"
      using assms(3) by (auto simp: tget_append split: option.splits)
    then show ?thesis by (cases m) auto
  qed
  have root: "resolve True w [slash] = Inr []" by code_simp
  show "resolve f w (straight l) = Inr l"
    using resolve_below[OF root assms(1,2)] d assms(3,4) by (simp add: straight_def)
  show "plain_end (straight l)"
    using assms(1,2) by (cases l rule: rev_cases) (auto simp: straight_def intro: plain_end_join)
qed

lemma remove_dir_quiet:
  assumes "cleared l (set (rs @ [r])) w" and "parents_first {} (rs @ [r])" and "distinct (rs @ [r])"
    and "\<forall>s \<in> set (l @ r). plain_name s" and "l \<noteq> []"
  shows "remove_dir (straight (l @ r)) w = (Inr (), w\<lparr>fs := tdel (fs w) (l @ r)\<rparr>)"
    and "cleared l (set rs) (w\<lparr>fs := tdel (fs w) (l @ r)\<rparr>)"
proof -
  obtain es where es: "tget (fs w) (l @ r) = Some (Dir es)"
    using assms(1) by (force simp: cleared_def is_dirn_iff)
  have "es = []"
  proof (rule ccontr)
    assume "es \<noteq> []"
    then obtain x m es' where "es = (x, m) # es'" by (cases es) auto
    then have "map_of es x = Some m" by simp
    then have g: "tget (fs w) (l @ (r @ [x])) = Some m"
      using es by (simp flip: append_assoc add: tget_append[of _ "l @ r"])
    then have "r @ [x] \<in> set (rs @ [r])" using assms(1) by (metis cleared_def option.distinct(1))
    then have i: "r @ [x] \<in> set rs" by auto
    have "parents_first {} rs" using assms(2) by (simp add: parents_first_append)
    then have "r \<in> set rs" using parents_first_in[OF _ i, of "{}" r] by (simp add: strict_prefix_def)
    then show False using assms(3) by simp
  qed
  then have leaf: "resolve_leaf w (straight (l @ r)) = Inr (l @ r)" "\<not> ends_in_dots (straight (l @ r))"
    using resolve_straight[OF assms(4) _ es] assms(5) by (simp_all add: resolve_leaf_plain, simp add: plain_end_def)
  show "remove_dir (straight (l @ r)) w = (Inr (), w\<lparr>fs := tdel (fs w) (l @ r)\<rparr>)"
    using assms(1,5) es \<open>es = []\<close> leaf by (simp add: remove_dir_def sys_simps cleared_def)
  have d: "tget (tdel (fs w) (l @ r)) (l @ q) = (if q = r then None else tget (fs w) (l @ q))"
    if "\<not> strict_prefix q r" for q
  proof (cases "prefix r q")
    case True
    then obtain z where z: "q = r @ z" by (auto simp: prefix_def)
    have "tget (fs w) (l @ r @ z) = None" if "z \<noteq> []"
      using that es \<open>es = []\<close> by (cases z) (simp_all flip: append_assoc add: tget_append[of _ "l @ r"])
    then show ?thesis
      using z nt.get_del_below[of "l @ r" "fs w" z] assms(5) by auto
  next
    case False
    with that have "l @ r \<parallel> l @ q" "q \<noteq> r" by (auto simp: strict_prefix_def parallel_def)
    then show ?thesis by (simp add: nt.get_del_par)
  qed
  have a: "is_dirn (tget (tdel (fs w) (l @ r)) (l @ q)) = is_dirn (tget (fs w) (l @ q))" if "strict_prefix q r" for q
    by (rule nt.dir_del_above) (use that in \<open>auto simp: strict_prefix_def\<close>)
  have above: "q \<in> set rs" if "strict_prefix q r" for q
    using parents_first_in[OF assms(2), of r q] that by auto
  show "cleared l (set rs) (w\<lparr>fs := tdel (fs w) (l @ r)\<rparr>)"
    unfolding cleared_def
  proof (intro conjI allI impI)
    show "faults (w\<lparr>fs := tdel (fs w) (l @ r)\<rparr>) = []" using assms(1) by (simp add: cleared_def)
    fix q
    show "is_dirn (tget (fs (w\<lparr>fs := tdel (fs w) (l @ r)\<rparr>)) (l @ q))" if "q \<in> set rs"
    proof (cases "strict_prefix q r")
      case True
      with a[OF True] that assms(1) show ?thesis by (simp add: cleared_def)
    next
      case False
      have "q \<noteq> r" using that assms(3) by auto
      with d[OF False] that assms(1) show ?thesis by (simp add: cleared_def)
    qed
    show "tget (fs (w\<lparr>fs := tdel (fs w) (l @ r)\<rparr>)) (l @ q) = None" if "q \<notin> set rs"
    proof -
      have n: "\<not> strict_prefix q r" using above that by blast
      from d[OF n] that assms(1) show ?thesis by (simp add: cleared_def)
    qed
  qed
qed

lemma remove_dirs_quiet:
  assumes "cleared l (set rs) (jw s)" and "parents_first {} rs" and "distinct rs"
    and "\<forall>r \<in> set rs. \<forall>s \<in> set (l @ r). plain_name s" and "l \<noteq> []"
    and "remove_dirs jid (rev (map (path_at (straight l)) rs)) n s = (m, u)"
  shows "m = n \<and> cleared l {} (jw u) \<and> (\<forall>q. \<not> prefix l q \<longrightarrow> entry_in (fs (jw u)) q = entry_in (fs (jw s)) q)"
  using assms
proof (induction rs arbitrary: s rule: rev_induct)
  case (snoc r rs)
  define s1 where "s1 = job_update jid (note_current (straight (l @ r))) s"
  note rq = remove_dir_quiet[OF snoc.prems(1-3) _ snoc.prems(5)]
  have nm: "\<forall>s \<in> set (l @ r). plain_name s" using snoc.prems(4) by simp
  let ?v = "(jw s)\<lparr>fs := tdel (fs (jw s)) (l @ r)\<rparr>"
  have "on_world (remove_dir (straight (l @ r))) s1 = (Inr (), s1\<lparr>jw := ?v\<rparr>)"
    using rq(1)[OF nm] by (simp add: on_world_simps s1_def)
  then have "remove_dirs jid (rev (map (path_at (straight l)) rs)) n
      (job_update jid (\<lambda>j. j\<lparr>done_dirs := done_dirs j + 1\<rparr>) (s1\<lparr>jw := ?v\<rparr>)) = (m, u)"
    using snoc.prems(6) by (simp add: straight_below[of l r] s1_def)
  moreover have "parents_first {} rs" using snoc.prems(2) by (simp add: parents_first_append)
  ultimately have "m = n \<and> cleared l {} (jw u) \<and> (\<forall>q. \<not> prefix l q \<longrightarrow> entry_in (fs (jw u)) q = entry_in (fs ?v) q)"
    using snoc.IH[of "job_update jid (\<lambda>j. j\<lparr>done_dirs := done_dirs j + 1\<rparr>) (s1\<lparr>jw := ?v\<rparr>)"] rq(2)[OF nm] snoc.prems(3-5)
    by simp
  moreover have "entry_in (fs ?v) q = entry_in (fs (jw s)) q" if "\<not> prefix l q" for q
    using entry_tdel[of "l @ r" q] that append_prefixD by fastforce
  ultimately show ?case by simp
qed simp

section \<open>The job\<close>

lemma only_file_files: "only_file ls w v \<Longrightarrow> q \<notin> ls \<Longrightarrow> files (fs v) q = files (fs w) q"
  by (simp add: only_file_def)

definition deletable :: "loc \<Rightarrow> node \<Rightarrow> world \<Rightarrow> bool" where
  "deletable l n w \<longleftrightarrow>
     env_ok w \<and> faults w = [] \<and> l \<noteq> [] \<and> (\<forall>s \<in> set l. plain_name s) \<and> tget (fs w) l = Some n \<and> plain_tree n"

lemma deletable_resolve:
  assumes "deletable l n w" and "tget n r = Some m"
  shows "resolve f w (path_at (straight l) r) = Inr (l @ r)" and "plain_end (path_at (straight l) r)"
    and "\<forall>s \<in> set (l @ r). plain_name s"
proof -
  have p: "plain_tree n" using assms(1) by (simp add: deletable_def)
  show names: "\<forall>s \<in> set (l @ r). plain_name s"
    using assms tree_names[OF p assms(2)] by (auto simp: deletable_def)
  have g: "tget (fs w) (l @ r) = Some m" using assms by (simp add: deletable_def tget_append)
  have "m \<noteq> Symlink x" for x using plain_no_link[OF p] assms(2) by auto
  from resolve_straight[OF names _ g this] assms(1)
  show "resolve f w (path_at (straight l) r) = Inr (l @ r)" "plain_end (path_at (straight l) r)"
    by (simp_all add: straight_below deletable_def)
qed

lemma tree_del_paths:
  assumes "deletable l n w"
  shows "del_paths (map (path_at (straight l)) (tree_files n)) (tree_at l n) w"
    and "all_there (map (path_at (straight l)) (tree_files n)) (tree_at l n) w"
proof -
  have p: "plain_tree n" and w: "env_ok w" "l \<noteq> []" "tget (fs w) l = Some n" using assms by (simp_all add: deletable_def)
  have f: "\<exists>d. tget n (tree_files n ! i) = Some (File d)" if "i < length (tree_files n)" for i
    using tree_file(1)[OF p that] by auto
  have "files (fs w) (tree_at l n i) \<noteq> None" if "i < length (tree_files n)" for i
    using f[OF that] w(3) by (auto simp: tree_at_def files_Some tget_append)
  then show "all_there (map (path_at (straight l)) (tree_files n)) (tree_at l n) w" by (simp add: all_there_def)
  have leaf: "skel_of (tget (fs w) (tree_at l n i)) = SLeaf" if "i < length (tree_files n)" for i
    using f[OF that] w(3) by (auto simp: tree_at_def skel_of_def tget_append)
  have "plain_end (path_at (straight l) (tree_files n ! i))"
    "resolve False w (path_at (straight l) (tree_files n ! i)) = Inr (tree_at l n i)" if "i < length (tree_files n)" for i
    using f[OF that] deletable_resolve[OF assms] by (auto simp: tree_at_def)
  moreover have "tree_at l n i \<noteq> tree_at l n j" if "i < length (tree_files n)" "j < length (tree_files n)" "i \<noteq> j" for i j
    using distinct_tree_files[OF p] that by (simp add: tree_at_def nth_eq_iff_index_eq)
  ultimately show "del_paths (map (path_at (straight l)) (tree_files n)) (tree_at l n) w"
    using w leaf by (simp add: del_paths_def tree_at_def)
qed

text \<open>The files gone, only the directories are left.\<close>

lemma files_gone_cleared:
  assumes "deletable l n w" and "only_file {tree_at l n i | i. i < length (tree_files n)} w v" and "faults v = []"
    and "\<And>i. i < length (tree_files n) \<Longrightarrow> files (fs v) (tree_at l n i) = None"
  shows "cleared l (set (tree_dirs n)) v"
proof -
  have p: "plain_tree n" and g: "tget (fs w) l = Some n" using assms(1) by (simp_all add: deletable_def)
  have at: "tget (fs w) (l @ r) = tget n r" for r using g by (simp add: tget_append)
  have sk: "skel_of (tget (fs v) (l @ r)) = skel_of (tget n r)" for r using only_file_leaf[OF assms(2)] at by metis
  have "is_dirn (tget (fs v) (l @ r))" if "r \<in> set (tree_dirs n)" for r
    using tree_dirs_sound[OF p that] sk by (metis skel_of_cases(1))
  moreover have "tget (fs v) (l @ r) = None" if nd: "r \<notin> set (tree_dirs n)" for r
  proof -
    have "\<not> is_dirn (tget n r)" using nd tree_dirs_complete by blast
    then have leaf: "skel_of (tget (fs v) (l @ r)) = SLeaf"
      using sk plain_no_link[OF p] by (auto simp: skel_of_def is_dirn_def split: option.splits node.splits)
    have "files (fs v) (l @ r) = None"
    proof (cases "r \<in> set (tree_files n)")
      case True
      then obtain i where "i < length (tree_files n)" "tree_files n ! i = r" by (auto simp: in_set_conv_nth)
      with assms(4)[of i] show ?thesis by (simp add: tree_at_def)
    next
      case False
      then have "tget n r \<noteq> Some (File d)" for d using tree_files_complete[OF p] by blast
      then have "files (fs w) (l @ r) = None" using at by (cases "files (fs w) (l @ r)") (auto simp: files_Some)
      moreover have "l @ r \<notin> {tree_at l n i | i. i < length (tree_files n)}"
        using False by (auto simp: tree_at_def)
      ultimately show ?thesis using only_file_files[OF assms(2)] by simp
    qed
    with leaf show ?thesis by (auto simp: skel_of_cases is_filen_iff files_def)
  qed
  ultimately show ?thesis using assms(3) by (simp add: cleared_def)
qed

text \<open>What a handler finds out about such a tree before it starts a job.\<close>

lemma deletable_metadata: "deletable l n w \<Longrightarrow> symlink_metadata (straight l) w = (Inr n, w)"
  using deletable_resolve(1)[of l n w "[]"] by (auto simp: deletable_def quiet_queries node_at_def)

text \<open>The plan: a file is removed at once, a directory through its lists.\<close>

lemma run_delete_plan:
  assumes "deletable l n (jw s)" and "tree_height n < depth"
  shows "n = File d \<Longrightarrow> run_delete_job E depth cpus sched jid (straight l) s =
      Some (job_update jid (\<lambda>j. j\<lparr>done_files := done_files j + 1, total_files := 1, status := ''done''\<rparr>)
        (job_update jid (\<lambda>j. j\<lparr>status := ''running''\<rparr>) (s\<lparr>jw := (jw s)\<lparr>fs := tdel (fs (jw s)) l\<rparr>\<rparr>)))"
    and "n = Dir es \<Longrightarrow> run_delete_job E depth cpus sched jid (straight l) s =
      delete_all E cpus sched jid (listed (straight l) n no_paths)
        (job_update jid (\<lambda>j. j\<lparr>total_files := of_nat (length (tree_files n)), total_dirs := of_nat (length (tree_dirs n)),
             total_bytes := of_nat (tree_bytes n)\<rparr>) (job_update jid (\<lambda>j. j\<lparr>status := ''running''\<rparr>) s))"
proof -
  have w: "faults (jw s) = []" "l \<noteq> []" "tget (fs (jw s)) l = Some n" "plain_tree n"
    using assms(1) by (simp_all add: deletable_def)
  have r: "resolve f (jw s) (straight l) = Inr l" "plain_end (straight l)" for f
    using deletable_resolve(1,2)[OF assms(1), of "[]"] by simp_all
  have md: "metadata (straight l) (jw s) = (Inr n, jw s)" "symlink_metadata (straight l) (jw s) = (Inr n, jw s)"
    using w r by (simp_all add: quiet_queries node_at_def)
  have same: "s\<lparr>jw := jw s\<rparr> = s" by simp
  show "run_delete_job E depth cpus sched jid (straight l) s =
      Some (job_update jid (\<lambda>j. j\<lparr>done_files := done_files j + 1, total_files := 1, status := ''done''\<rparr>)
        (job_update jid (\<lambda>j. j\<lparr>status := ''running''\<rparr>) (s\<lparr>jw := (jw s)\<lparr>fs := tdel (fs (jw s)) l\<rparr>\<rparr>)))" if "n = File d"
    using md w r that
    by (simp add: run_delete_job_def path_is_file_def on_world_simps remove_file_def sys_simps resolve_leaf_plain job_update_def)
  have "walk_delete depth (straight l) no_paths (jw s) = Some (Inr (), listed (straight l) n no_paths, jw s)"
    using walk_delete_finds[OF w(1) r(1) w(3,4) assms(2)] r(1) by blast
  then show "run_delete_job E depth cpus sched jid (straight l) s =
      delete_all E cpus sched jid (listed (straight l) n no_paths)
        (job_update jid (\<lambda>j. j\<lparr>total_files := of_nat (length (tree_files n)), total_dirs := of_nat (length (tree_dirs n)),
             total_bytes := of_nat (tree_bytes n)\<rparr>) (job_update jid (\<lambda>j. j\<lparr>status := ''running''\<rparr>) s))" if "n = Dir es"
    using md that
    by (simp add: run_delete_job_def path_is_file_def path_is_symlink_def on_world_simps listed_def no_paths_def job_update_def)
qed

text \<open>The two stages of a directory's deletion.\<close>

lemma delete_stages:
  assumes "deletable l n (jw s)" and "map_of (jobs s) jid = Some j0" and "is_dirn (Some n)"
    and "delete_all E cpus sched jid (listed (straight l) n no_paths) s = Some s'"
  shows "\<exists>j. map_of (jobs s') jid = Some j \<and> status j = ''done'' \<and> job_error j = job_error j0 \<and>
      done_files j = done_files j0 + of_nat (length (tree_files n)) \<and>
      done_dirs j = done_dirs j0 + of_nat (length (tree_dirs n))"
    and "tget (fs (jw s')) l = None" and "\<not> prefix l q \<Longrightarrow> entry_in (fs (jw s')) q = entry_in (fs (jw s)) q"
proof -
  define acc where "acc = listed (straight l) n no_paths"
  have a: "d_files acc = map (path_at (straight l)) (tree_files n)" "d_dirs acc = map (path_at (straight l)) (tree_dirs n)"
    by (simp_all add: acc_def listed_def no_paths_def)
  define p where "p = run_pool DNote (delete_step E jid (d_files acc)) (length (d_files acc)) sched
                (new_pool (nthreads cpus) (job_state.extend s (work.fields 0)))"
  obtain m u where e: "all_exited p"
    and r: "remove_dirs jid (rev (d_dirs acc)) (failed (p_state p)) (job_state.truncate (p_state p)) = (m, u)"
    and s': "s' = job_update jid (\<lambda>j. j\<lparr>status := (if m = 0 then ''done'' else ''error'')\<rparr>) u"
    using assms(4) unfolding delete_all_def acc_def[symmetric] p_def[symmetric] by (auto simp: Let_def split: if_splits prod.splits)
  have w: "faults (jw s) = []" "l \<noteq> []" "plain_tree n" using assms(1) by (simp_all add: deletable_def)
  note dp = tree_del_paths[OF assms(1), folded a(1)]
  note qd = quiet_delete_result[OF dp w(1) assms(2) p_def e]
  have len: "length (d_files acc) = length (tree_files n)" by (simp add: a)
  have o: "only_file {tree_at l n i | i. i < length (tree_files n)} (jw s) (jw (p_state p))"
    using qd(1) by (simp add: d_inv_def len)
  have z: "failed (p_state p) = 0" "faults (jw (p_state p)) = []" using qd(2) by (simp_all add: calm_def)
  have c: "cleared l (set (tree_dirs n)) (jw (job_state.truncate (p_state p)))"
    using files_gone_cleared[OF assms(1) o z(2)] qd(3) len by simp
  have names: "\<forall>r \<in> set (tree_dirs n). \<forall>s \<in> set (l @ r). plain_name s"
    using tree_dirs_sound[OF w(3)] deletable_resolve(3)[OF assms(1)] by (metis is_dirn_iff)
  have m: "m = 0" and cu: "cleared l {} (jw u)"
    and eu: "\<And>q. \<not> prefix l q \<Longrightarrow> entry_in (fs (jw u)) q = entry_in (fs (jw (p_state p))) q"
    using remove_dirs_quiet[OF c tree_dirs_parents_first distinct_tree_dirs[OF w(3)] names w(2) r[unfolded a(2)]] z(1) by simp_all
  obtain j1 where j1: "map_of (jobs (p_state p)) jid = Some j1" "done_dirs j1 = done_dirs j0"
    "done_files j1 = done_files j0 + of_nat (length (tree_files n))" "job_error j1 = job_error j0"
    using qd(1) z(1) len by (auto simp: d_inv_def d_record_def)
  note rd = remove_dirs_result[OF r, unfolded pool_start_simps]
  obtain j2 where j2: "map_of (jobs u) jid = Some j2" "done_files j2 = done_files j1" "job_error j2 = job_error j1"
    "done_dirs j2 = done_dirs j1 + of_nat (length (tree_dirs n))"
    using rd(5)[OF j1(1)] m z(1) a(2) by auto
  show "\<exists>j. map_of (jobs s') jid = Some j \<and> status j = ''done'' \<and> job_error j = job_error j0 \<and>
      done_files j = done_files j0 + of_nat (length (tree_files n)) \<and>
      done_dirs j = done_dirs j0 + of_nat (length (tree_dirs n))"
    using j1 j2 m s' by (intro exI[of _ "j2\<lparr>status := ''done''\<rparr>"]) (simp add: map_of_reg_update)
  have "tget (fs (jw u)) (l @ []) = None" using cu unfolding cleared_def by blast
  then show "tget (fs (jw s')) l = None" using s' by simp
  show "entry_in (fs (jw s')) q = entry_in (fs (jw s)) q" if "\<not> prefix l q"
  proof -
    have "q \<notin> {tree_at l n i | i. i < length (tree_files n)}" using that by (auto simp: tree_at_def)
    from only_file_entry[OF o this] show ?thesis using eu[OF that] s' by simp
  qed
qed

text \<open>A whole delete job.\<close>

lemma tree_job_deletes:
  assumes "deletable l n (jw s)" and "tree_height n < depth" and "map_of (jobs s) jid = Some j0"
    and "run_delete_job E depth cpus sched jid (straight l) s = Some s'"
  shows "(\<exists>j. map_of (jobs s') jid = Some j \<and> status j = ''done'' \<and> job_error j = job_error j0 \<and>
      done_files j = done_files j0 + of_nat (length (tree_files n)) \<and>
      done_dirs j = done_dirs j0 + of_nat (length (tree_dirs n))) \<and>
    tget (fs (jw s')) l = None \<and> (\<forall>q. \<not> prefix l q \<longrightarrow> entry_in (fs (jw s')) q = entry_in (fs (jw s)) q)"
proof (cases n)
  case (File d)
  have "l \<noteq> []" using assms(1) by (simp add: deletable_def)
  then show ?thesis
    using run_delete_plan(1)[OF assms(1,2) File] assms(3,4) File
    by (auto simp: map_of_reg_update entry_tdel tget_tdel_same)
next
  case (Dir es)
  define s1 where "s1 = job_update jid (\<lambda>j. j\<lparr>total_files := of_nat (length (tree_files n)), total_dirs := of_nat (length (tree_dirs n)),
             total_bytes := of_nat (tree_bytes n)\<rparr>) (job_update jid (\<lambda>j. j\<lparr>status := ''running''\<rparr>) s)"
  have da: "delete_all E cpus sched jid (listed (straight l) n no_paths) s1 = Some s'"
    using run_delete_plan(2)[OF assms(1,2) Dir, of E cpus sched jid] assms(4) by (simp add: s1_def)
  have d: "deletable l n (jw s1)" using assms(1) by (simp add: s1_def)
  obtain j1 where j1: "map_of (jobs s1) jid = Some j1" "job_error j1 = job_error j0" "done_files j1 = done_files j0"
    "done_dirs j1 = done_dirs j0"
    using assms(3) by (auto simp: s1_def map_of_reg_update)
  have "jw s1 = jw s" by (simp add: s1_def)
  with delete_stages[OF d j1(1) _ da] j1(2-4) Dir show ?thesis by auto
next
  case (Symlink x)
  then show ?thesis using assms(1) by (simp add: deletable_def)
qed

text \<open>C31 Deleting a file or a tree of files and directories, without links, at the path that spells out its
  location (no links or dots on the way), when no faults occur: whenever the job ends, under every
  interleaving of its workers, nothing is left at its place; at every location that is not at or
  below it there is exactly what was there before, be it nothing, a directory, a link or a file with
  its data, mode and attributes; every file and every directory is counted (a single file: the file), no
  error is noted and the status is \<open>done\<close>.\<close>

theorem delete_tree:
  assumes "deletable l n (jw s)" and "tree_height n < depth" and "map_of (jobs s) jid = Some j0"
    and "run_delete_job E depth cpus sched jid (straight l) s = Some s'"
  shows "(\<exists>j. map_of (jobs s') jid = Some j \<and> status j = ''done'' \<and> job_error j = job_error j0 \<and>
      done_files j = done_files j0 + of_nat (length (tree_files n)) \<and>
      done_dirs j = done_dirs j0 + of_nat (length (tree_dirs n))) \<and>
    tget (fs (jw s')) l = None \<and> (\<forall>q. \<not> prefix l q \<longrightarrow> entry_in (fs (jw s')) q = entry_in (fs (jw s)) q)"
  using assms by (rule tree_job_deletes)

text \<open>Deleting \<open>/src\<close> of the sample tree with two workers.\<close>

lemma sample_deletable: "deletable [''src''] sample_src (jw sample_del_state)"
proof -
  have "plain_tree sample_src"
    by (simp add: sample_src_def plain_file_def plain_name_def)
  then show ?thesis
    using sample_env_ok
    by (simp add: deletable_def sample_del_state_def plain_name_def, simp add: sample_world_def sample_tree_def sample_src_def)
qed

lemma sample_straight: "straight [''src''] = ''/src''"
  by code_simp

lemma sample_delete_ends:
  "run_delete_job sample_env 4 (Some 2) (concat (replicate 4 [0, 1])) 1 ''/src'' sample_del_state \<noteq> None"
proof -
  have h: "tree_height sample_src < 4" by (simp add: sample_src_def plain_file_def)
  show ?thesis
    unfolding sample_straight[symmetric] run_delete_plan(2)[OF sample_deletable h sample_src_def] by code_simp
qed

lemma delete_tree_witness:
  "\<exists>s'. run_delete_job sample_env 4 (Some 2) (concat (replicate 4 [0, 1])) 1 ''/src'' sample_del_state = Some s' \<and>
     tget (fs (jw s')) [''src''] = None \<and>
     files (fs (jw s')) [''ext'', ''keep.txt''] = files sample_tree [''ext'', ''keep.txt'']"
proof -
  obtain s' where s': "run_delete_job sample_env 4 (Some 2) (concat (replicate 4 [0, 1])) 1 ''/src'' sample_del_state = Some s'"
    using sample_delete_ends by auto
  have h: "tree_height sample_src < 4" by (simp add: sample_src_def plain_file_def)
  have m: "map_of (jobs sample_del_state) 1 = Some (new_job ''delete'' ''/src'' [])" by (simp add: sample_del_state_def)
  note dt = delete_tree[OF sample_deletable h m s'[folded sample_straight]]
  have "files (fs (jw s')) [''ext'', ''keep.txt''] = files (fs (jw sample_del_state)) [''ext'', ''keep.txt'']"
    by (rule entry_files) (use dt in simp)
  then show ?thesis using dt s' by (simp add: sample_del_state_def sample_world_def)
qed

end
