(* ===== verification/Mover_Search.thy ===== *)
theory Mover_Search
  imports Mover_Jobs
begin

text \<open>
  The streaming search of \<open>src/bin/file-mover.rs\<close>: \<open>walk_search\<close> pushes matches into the shared
  record of the search while it walks, \<open>run_search\<close> sorts them at the end.  The walk has a depth
  limit as its first argument; entries are the directory's own, links are not followed.
\<close>

definition max_results :: nat where "max_results = 1000"

record search =
  s_root :: string
  s_q :: string
  s_status :: string
  s_done_dirs :: u64
  s_matches :: "json list"
  s_truncated :: bool
  s_error :: "string option"

record search_state = job_state +
  searches :: "(u64 \<times> search) list"

definition search_update :: "u64 \<Rightarrow> (search \<Rightarrow> search) \<Rightarrow> 'a search_state_scheme \<Rightarrow> 'a search_state_scheme" where
  "search_update sid f s = s\<lparr>searches := reg_update sid f (searches s)\<rparr>"

definition new_search :: "string \<Rightarrow> string \<Rightarrow> search" where
  "new_search root q = \<lparr>s_root = root, s_q = q, s_status = ''running'', s_done_dirs = 0,
     s_matches = [], s_truncated = False, s_error = None\<rparr>"

text \<open>The test of a name against the query.\<close>

definition name_matches :: "mover_env \<Rightarrow> string \<Rightarrow> string list \<Rightarrow> string \<Rightarrow> bool" where
  "name_matches E sub sfxs name =
     (let lower = lowercase E name in
      if sfxs = [] then sub = [] \<or> sublist sub lower
      else (\<exists>s \<in> set sfxs. suffix s lower))"

definition match_json :: "string \<Rightarrow> path \<Rightarrow> node option \<Rightarrow> json" where
  "match_json name fp md =
     JObject [(''name'', JString name),
              (''path'', JString fp),
              (''is_dir'', JBool (is_dirn md)),
              (''size'', JU64 (case md of None \<Rightarrow> 0
                                | Some n \<Rightarrow> if is_dirn md then 0 else of_nat (node_len n)))]"

text \<open>Adding one match; \<open>True\<close>: the limit was reached and the loop over the directory stops.\<close>

definition push_match :: "u64 \<Rightarrow> json \<Rightarrow> 'a search_state_scheme \<Rightarrow> bool \<times> 'a search_state_scheme" where
  "push_match sid m s =
     (case map_of (searches s) sid of
        None \<Rightarrow> (False, s)
      | Some r \<Rightarrow>
          if max_results \<le> length (s_matches r)
          then (True, search_update sid (\<lambda>r. r\<lparr>s_truncated := True\<rparr>) s)
          else (False, search_update sid (\<lambda>r. r\<lparr>s_matches := s_matches r @ [m]\<rparr>) s))"

definition search_full :: "u64 \<Rightarrow> 'a search_state_scheme \<Rightarrow> bool" where
  "search_full sid s =
     (case map_of (searches s) sid of
        None \<Rightarrow> False
      | Some r \<Rightarrow> s_truncated r \<or> max_results \<le> length (s_matches r))"

definition visit :: "mover_env \<Rightarrow> u64 \<Rightarrow> path \<Rightarrow> string \<Rightarrow> string list \<Rightarrow> string \<Rightarrow>
    'a search_state_scheme \<Rightarrow> bool \<times> 'a search_state_scheme" where
  "visit E sid dir sub sfxs name s =
     (if name_matches E sub sfxs name then
        (let fp = path_join dir name in
         case on_world (symlink_metadata fp) s of
           (Inr md, s1) \<Rightarrow> push_match sid (match_json name fp (Some md)) s1
         | (Inl e, s1) \<Rightarrow> push_match sid (match_json name fp None) s1)
      else (False, s))"

function walk_search :: "mover_env \<Rightarrow> nat \<Rightarrow> u64 \<Rightarrow> path \<Rightarrow> string \<Rightarrow> string list \<Rightarrow>
    'a search_state_scheme \<Rightarrow> 'a search_state_scheme option"
  and search_entries :: "mover_env \<Rightarrow> nat \<Rightarrow> u64 \<Rightarrow> path \<Rightarrow> string \<Rightarrow> string list \<Rightarrow>
    (string \<times> node) list \<Rightarrow> 'a search_state_scheme \<Rightarrow> 'a search_state_scheme option"
where
  "walk_search E 0 sid dir sub sfxs s = None"
| "walk_search E (Suc n) sid dir sub sfxs s =
     (if search_full sid s then Some s
      else case on_world (read_dir dir) s of
             (Inl e, s1) \<Rightarrow> Some s1
           | (Inr es, s1) \<Rightarrow> search_entries E n sid dir sub sfxs es s1)"
| "search_entries E n sid dir sub sfxs [] s = Some s"
| "search_entries E n sid dir sub sfxs (e # es) s =
     (case on_world (next_entry e) s of
        (Inl x, s1) \<Rightarrow> Some s1
      | (Inr e1, s1) \<Rightarrow>
          (case visit E sid dir sub sfxs (fst e1) s1 of
             (True, s2) \<Rightarrow> Some s2
           | (False, s2) \<Rightarrow>
               if is_dirn (Some (snd e1)) then
                 (case walk_search E n sid (path_join dir (fst e1)) sub sfxs
                         (search_update sid (\<lambda>r. r\<lparr>s_done_dirs := s_done_dirs r + 1\<rparr>) s2) of
                    None \<Rightarrow> None
                  | Some s3 \<Rightarrow> search_entries E n sid dir sub sfxs es s3)
               else search_entries E n sid dir sub sfxs es s2))"
  by pat_completeness auto
termination
  by (relation "measures [\<lambda>x. case x of Inl (E, n, _) \<Rightarrow> n | Inr (E, n, _) \<Rightarrow> n,
                          \<lambda>x. case x of Inl _ \<Rightarrow> 0 | Inr (E, n, i, d, u, f, es, _) \<Rightarrow> Suc (length es)]") auto

definition match_path :: "json \<Rightarrow> string" where
  "match_path m = str_field ''path'' m"

definition run_search :: "mover_env \<Rightarrow> nat \<Rightarrow> u64 \<Rightarrow> path \<Rightarrow> string \<Rightarrow>
    'a search_state_scheme \<Rightarrow> 'a search_state_scheme option" where
  "run_search E depth sid root q s =
     (case parse_search_query E q of
        (sub, sfxs) \<Rightarrow>
          map_option (search_update sid (\<lambda>r. r\<lparr>s_matches := sort_key match_path (s_matches r),
                                               s_status := ''done''\<rparr>))
            (walk_search E depth sid root sub sfxs s))"

end
