(* ===== verification/Mover_Handlers.thy ===== *)
theory Mover_Handlers
  imports Mover_Search
begin

text \<open>
  The HTTP handlers of \<open>src/bin/file-mover.rs\<close> and \<open>route\<close>, over the daemon's state: the world,
  the registries of jobs and searches with their id counters, the background tasks the handlers
  have started, and the shell commands they have spawned.

  The request body is what \<open>collect\<close> returns (an error text or the bytes), for an upload the
  frames.  \<open>sudo\<close> is a child process, an argument: from its arguments and standard input to its
  outcome and what it did to the world.
\<close>

section \<open>State, requests, responses\<close>

datatype task = CopyTask u64 string path path | DeleteTask u64 path | SearchTask u64 path string

record mover = search_state +
  next_id :: u64
  next_search :: u64
  tasks :: "task list"
  shells :: "string list"

record response =
  r_status :: nat
  r_type :: string
  r_body :: string

record daemon =
  d_env :: mover_env
  d_helper :: path
  d_html :: string
  d_commit :: string
  d_version :: string
  d_update_script :: "string option"
  d_tmp_dir :: path
  d_pid :: nat

definition text_resp :: "nat \<Rightarrow> string \<Rightarrow> string \<Rightarrow> response" where
  "text_resp st ct data = \<lparr>r_status = st, r_type = ct, r_body = data\<rparr>"

definition json_resp :: "daemon \<Rightarrow> nat \<Rightarrow> json \<Rightarrow> response" where
  "json_resp D st v = text_resp st ''application/json'' (json_text (d_env D) v)"

definition error_json :: "string \<Rightarrow> json" where
  "error_json e = JObject [(''error'', JString e)]"

text \<open>The two answers of the handlers that can be elevated.\<close>

definition denied :: "daemon \<Rightarrow> response" where
  "denied D = json_resp D 403 (error_json ''permission denied / bad password'')"

definition needs_password :: "daemon \<Rightarrow> response" where
  "needs_password D = json_resp D 403
     (JObject [(''error'', JString ''permission denied''), (''elevation'', JBool True)])"

definition ok_dst :: "daemon \<Rightarrow> string \<Rightarrow> response" where
  "ok_dst D d = json_resp D 200 (JObject [(''ok'', JBool True), (''dst'', JString d)])"

text \<open>\<open>params.get(k).cloned().unwrap_or_default()\<close>.\<close>

definition param :: "(string \<rightharpoonup> string) \<Rightarrow> string \<Rightarrow> string" where
  "param ps k = (case ps k of None \<Rightarrow> [] | Some v \<Rightarrow> v)"

definition newline :: string where "newline = [CHR 0x0A]"

section \<open>Elevation\<close>

datatype child = SpawnFailed | WaitFailed | Exit "int option" string

type_synonym sudo = "string list \<Rightarrow> string \<Rightarrow> world \<Rightarrow> child \<times> world"

definition sudo_run :: "daemon \<Rightarrow> sudo \<Rightarrow> string \<Rightarrow> json \<Rightarrow> world \<Rightarrow> (int \<times> string) \<times> world" where
  "sudo_run D S passwd req w =
     (case S [''-S'', ''-p'', [], d_helper D, json_text (d_env D) req] (passwd @ newline) w of
        (SpawnFailed, w1) \<Rightarrow> ((1, []), w1)
      | (WaitFailed, w1) \<Rightarrow> ((1, []), w1)
      | (Exit code out, w1) \<Rightarrow> ((case code of Some c \<Rightarrow> c | None \<Rightarrow> 1, out), w1))"

section \<open>Listing and directories\<close>

definition handle_ls :: "daemon \<Rightarrow> sudo \<Rightarrow> (string \<rightharpoonup> string) \<Rightarrow> 'a job_state_scheme \<Rightarrow> response \<times> 'a job_state_scheme" where
  "handle_ls D S ps s =
     (let E = d_env D;
          p = (case map_option trim (ps ''p'') of
                 Some t \<Rightarrow> if t = [] then fst (roots E) else t
               | None \<Rightarrow> fst (roots E));
          pp = resolve_path E p in
      case on_world (list_entries E pp) s of
        (Inr js, s1) \<Rightarrow>
          (json_resp D 200 (JObject [(''path'', JString pp), (''entries'', JArray js)]), s1)
      | (Inl e, s1) \<Rightarrow>
          if kind_of e = PermissionDenied then
            (let sp = param ps ''sudopass'' in
             if sp \<noteq> [] then
               (case on_world (sudo_run D S sp (JObject [(''op'', JString ''ls''), (''p'', JString pp)])) s1 of
                  ((rc, out), s2) \<Rightarrow>
                    (case (if rc = 0 then json_parse E out else Inl []) of
                       Inr v \<Rightarrow>
                         (json_resp D 200 (JObject [(''path'', JString pp), (''entries'', json_index v ''entries'')]), s2)
                     | Inl x \<Rightarrow> (denied D, s2)))
             else (needs_password D, s1))
          else (json_resp D 500 (error_json (io_text E e)), s1))"

definition handle_mkdir :: "daemon \<Rightarrow> sudo \<Rightarrow> (string \<rightharpoonup> string) \<Rightarrow> 'a job_state_scheme \<Rightarrow> response \<times> 'a job_state_scheme" where
  "handle_mkdir D S ps s =
     (let dst = param ps ''dst''; sp = param ps ''sudopass'' in
      case on_world (create_dir_all dst) s of
        (Inr u, s1) \<Rightarrow> (ok_dst D dst, s1)
      | (Inl e, s1) \<Rightarrow>
          if kind_of e = PermissionDenied then
            (if sp \<noteq> [] then
               (case on_world (sudo_run D S sp (JObject [(''op'', JString ''mkdir''), (''dst'', JString dst)])) s1 of
                  ((rc, out), s2) \<Rightarrow> (if rc = 0 then ok_dst D dst else denied D, s2))
             else (needs_password D, s1))
          else (json_resp D 500 (error_json (io_text (d_env D) e)), s1))"

section \<open>Uploads through the mover\<close>

text \<open>
  A \<open>tokio::fs::File\<close>: a write is handed to another thread, at most 2 MiB at a time; its error
  is reported by the next write or flush.
\<close>

record tokio_file =
  tf_loc :: loc
  tf_off :: nat
  tf_error :: "io_error option"

definition tokio_buf :: nat where "tokio_buf = 2 * 1024 * 1024"

definition tokio_write :: "tokio_file \<Rightarrow> bytes \<Rightarrow> world \<Rightarrow> (io_error + nat) \<times> tokio_file \<times> world" where
  "tokio_write f data w =
     (case tf_error f of
        Some e \<Rightarrow> (Inl e, f\<lparr>tf_error := None\<rparr>, w)
      | None \<Rightarrow>
          (let part = take tokio_buf data in
           case write_all (tf_loc f) (tf_off f) part w of
             (Inr u, w1) \<Rightarrow> (Inr (length part), f\<lparr>tf_off := tf_off f + length part\<rparr>, w1)
           | (Inl e, w1) \<Rightarrow> (Inr (length part), f\<lparr>tf_error := Some e\<rparr>, w1)))"

lemma tokio_write_count: "tokio_write f data w = (Inr n, g, v) \<Longrightarrow> n = min tokio_buf (length data)"
  by (auto simp: tokio_write_def Let_def split: option.splits prod.splits sum.splits)

function tokio_write_all :: "tokio_file \<Rightarrow> bytes \<Rightarrow> world \<Rightarrow> (io_error + unit) \<times> tokio_file \<times> world" where
  "tokio_write_all f data w =
     (if data = [] then (Inr (), f, w)
      else case tokio_write f data w of
             (Inl e, g, w1) \<Rightarrow> (Inl e, g, w1)
           | (Inr n, g, w1) \<Rightarrow> tokio_write_all g (drop n data) w1)"
  by pat_completeness auto
termination
  by (relation "measure (\<lambda>(f, data, w). length data)") (auto dest!: tokio_write_count[OF sym] simp: tokio_buf_def)

declare tokio_write_all.simps [simp del]

definition tokio_flush :: "tokio_file \<Rightarrow> io_error + unit" where
  "tokio_flush f = (case tf_error f of Some e \<Rightarrow> Inl e | None \<Rightarrow> Inr ())"

text \<open>A frame of the body: an error of the connection, data, or trailers.\<close>

datatype frame = FrameError string | Data bytes | Trailers

fun receive :: "mover_env \<Rightarrow> frame list \<Rightarrow> tokio_file \<Rightarrow> world \<Rightarrow> (string + tokio_file) \<times> world" where
  "receive E [] f w =
     (case tokio_flush f of Inl e \<Rightarrow> (Inl (io_text E e), w) | Inr u \<Rightarrow> (Inr f, w))"
| "receive E (FrameError e # frs) f w = (Inl e, w)"
| "receive E (Trailers # frs) f w = receive E frs f w"
| "receive E (Data d # frs) f w =
     (case tokio_write_all f d w of
        (Inl e, g, w1) \<Rightarrow> (Inl (io_text E e), w1)
      | (Inr u, g, w1) \<Rightarrow> receive E frs g w1)"

definition put_tmp :: "daemon \<Rightarrow> nat \<Rightarrow> path" where
  "put_tmp D nanos = path_join (d_tmp_dir D) (''mover-'' @ show_nat (d_pid D) @ ''-'' @ show_nat nanos)"

text \<open>From the received temporary file to the destination.\<close>

definition place_upload :: "daemon \<Rightarrow> sudo \<Rightarrow> path \<Rightarrow> string \<Rightarrow> string \<Rightarrow> 'a job_state_scheme \<Rightarrow> response \<times> 'a job_state_scheme" where
  "place_upload D S tmp dst sp s0 =
     (let E = d_env D;
          s = (case path_parent dst of None \<Rightarrow> s0 | Some q \<Rightarrow> snd (on_world (create_dir_all q) s0));
          clean = (\<lambda>t. snd (on_world (remove_file tmp) t));
          elevate = (\<lambda>t. if sp \<noteq> [] then
              (case on_world (sudo_run D S sp (JObject [(''op'', JString ''put''), (''dst'', JString dst),
                                                        (''tmp'', JString tmp)])) t of
                 ((rc, out), t1) \<Rightarrow> if rc = 0 then (ok_dst D dst, t1) else (denied D, clean t1))
            else (needs_password D, clean t)) in
      case on_world (rename_path tmp dst) s of
        (Inr u, s1) \<Rightarrow> (ok_dst D dst, s1)
      | (Inl e, s1) \<Rightarrow>
          if kind_of e = CrossesDevices then
            (case on_world (copy_file tmp dst) s1 of
               (Inr n, s2) \<Rightarrow> (ok_dst D dst, clean s2)
             | (Inl e2, s2) \<Rightarrow>
                 if kind_of e2 = PermissionDenied then elevate s2
                 else (json_resp D 500 (error_json (io_text E e2)), clean s2))
          else if kind_of e = PermissionDenied then elevate s1
          else (json_resp D 500 (error_json (io_text E e)), clean s1))"

definition handle_put :: "daemon \<Rightarrow> sudo \<Rightarrow> nat \<Rightarrow> frame list \<Rightarrow> (string \<rightharpoonup> string) \<Rightarrow>
    'a job_state_scheme \<Rightarrow> response \<times> 'a job_state_scheme" where
  "handle_put D S nanos body ps s =
     (let tmp = put_tmp D nanos; E = d_env D in
      case on_world (file_create tmp) s of
        (Inl e, s1) \<Rightarrow> (json_resp D 500 (error_json (io_text E e)), s1)
      | (Inr l, s1) \<Rightarrow>
          (case on_world (receive E body \<lparr>tf_loc = l, tf_off = 0, tf_error = None\<rparr>) s1 of
             (Inl e, s2) \<Rightarrow> (json_resp D 500 (error_json e), snd (on_world (remove_file tmp) s2))
           | (Inr f, s2) \<Rightarrow> place_upload D S tmp (param ps ''dst'') (param ps ''sudopass'') s2))"

section \<open>Moving and copying\<close>

text \<open>Reading a JSON body: the two answers of every handler that does.\<close>

definition with_json :: "daemon \<Rightarrow> string + string \<Rightarrow> 's \<Rightarrow> (json \<Rightarrow> 's \<Rightarrow> response \<times> 's) \<Rightarrow> response \<times> 's" where
  "with_json D body s k =
     (case body of
        Inl e \<Rightarrow> (json_resp D 400 (error_json e), s)
      | Inr b \<Rightarrow> (case json_parse (d_env D) b of
                    Inl e \<Rightarrow> (json_resp D 400 (error_json ''bad json''), s)
                  | Inr v \<Rightarrow> k v s))"

definition active :: "job \<Rightarrow> bool" where
  "active j \<longleftrightarrow> status j = ''queued'' \<or> status j = ''running''"

definition same_work :: "string \<Rightarrow> string \<Rightarrow> string \<Rightarrow> job \<Rightarrow> bool" where
  "same_work opn src dst j \<longleftrightarrow>
     active j \<and> j_op j = opn \<and> j_src j = src \<and> (opn = ''move'' \<or> j_dst j = dst)"

text \<open>The critical section: look for the same work, else insert and start the job.\<close>

definition register_job :: "daemon \<Rightarrow> string \<Rightarrow> string \<Rightarrow> path \<Rightarrow> mover \<Rightarrow> response \<times> mover" where
  "register_job D opn src final_dst s =
     (let jid = next_id s; s1 = s\<lparr>next_id := next_id s + 1\<rparr> in
      case find (\<lambda>(i, j). same_work opn src final_dst j) (jobs s1) of
        Some (eid, j) \<Rightarrow>
          (json_resp D 202 (JObject [(''ok'', JBool True), (''job_id'', JU64 eid), (''op'', JString opn),
                                     (''deduped'', JBool True)]), s1)
      | None \<Rightarrow>
          (json_resp D 202 (JObject [(''ok'', JBool True), (''job_id'', JU64 jid), (''op'', JString opn)]),
           s1\<lparr>jobs := AList.update jid (new_job opn src final_dst) (jobs s1),
              tasks := tasks s1 @ [CopyTask jid opn src final_dst]\<rparr>))"

definition elevated_move_copy :: "daemon \<Rightarrow> sudo \<Rightarrow> string \<Rightarrow> string \<Rightarrow> string \<Rightarrow> path \<Rightarrow> string \<Rightarrow>
    'a job_state_scheme \<Rightarrow> response \<times> 'a job_state_scheme" where
  "elevated_move_copy D S sp opn src final_dst strategy s =
     (case on_world (sudo_run D S sp
              (JObject [(''op'', JString opn), (''src'', JString src), (''dst'', JString final_dst),
                        (''strategy'', JString strategy)])) s of
        ((rc, out), s1) \<Rightarrow>
          (case (if rc = 0 then json_parse (d_env D) out else Inl []) of
             Inl x \<Rightarrow> (denied D, s1)
           | Inr j \<Rightarrow>
               (case Option.bind (json_get ''dst'' j) as_str of
                  Some d \<Rightarrow>
                    (json_resp D 200 (JObject [(''ok'', JBool True), (''op'', JString opn), (''dst'', JString d)]), s1)
                | None \<Rightarrow>
                    if json_get ''conflict'' j \<noteq> None
                    then (json_resp D 409
                            (JObject [(''error'', JString ''destination exists''), (''conflict'', JBool True),
                                      (''dst'', JString (str_field ''dst'' j))]), s1)
                    else (denied D, s1))))"

definition move_copy_request :: "daemon \<Rightarrow> sudo \<Rightarrow> bool \<Rightarrow> json \<Rightarrow> mover \<Rightarrow> response \<times> mover" where
  "move_copy_request D S is_move v s =
     (let src = str_field ''src'' v; dst = str_field ''dst'' v; sp = str_field ''sudopass'' v;
          strategy = str_field ''strategy'' v;
          opn = (if is_move then ''move'' else ''copy'') in
      if src = [] \<or> dst = [] then (json_resp D 400 (error_json ''bad path''), s)
      else case on_world (dest_for src dst) s of
        (dst0, s1) \<Rightarrow>
          if path_eq src dst0
          then (json_resp D 400 (error_json ''source and destination are the same''), s1)
          else case on_world (path_exists src) s1 of
            (False, s2) \<Rightarrow> (json_resp D 404 (error_json ''source missing''), s2)
          | (True, s2) \<Rightarrow>
              (case on_world (path_exists dst0) s2 of
                 (ex, s3) \<Rightarrow>
                   if ex \<and> strategy \<noteq> ''rename'' \<and> strategy \<noteq> ''merge'' \<and> strategy \<noteq> ''overwrite''
                   then (json_resp D 409
                           (JObject [(''error'', JString (''destination exists: '' @ dst0)),
                                     (''conflict'', JBool True), (''dst'', JString dst0)]), s3)
                   else case (if ex \<and> strategy = ''rename'' then on_world (free_dst dst0) s3 else (dst0, s3)) of
                     (final_dst, s4) \<Rightarrow>
                       if sp \<noteq> [] then elevated_move_copy D S sp opn src final_dst strategy s4
                       else register_job D opn src final_dst s4))"

definition handle_move_copy :: "daemon \<Rightarrow> sudo \<Rightarrow> string + string \<Rightarrow> bool \<Rightarrow> mover \<Rightarrow> response \<times> mover" where
  "handle_move_copy D S body is_move s = with_json D body s (move_copy_request D S is_move)"

definition job_json :: "u64 \<times> job \<Rightarrow> json" where
  "job_json p = (case p of (jid, j) \<Rightarrow>
     JObject [(''id'', JU64 jid), (''op'', JString (j_op j)), (''src'', JString (j_src j)),
              (''dst'', JString (j_dst j)), (''total_files'', JU64 (total_files j)),
              (''done_files'', JU64 (done_files j)), (''total_dirs'', JU64 (total_dirs j)),
              (''done_dirs'', JU64 (done_dirs j)), (''total_bytes'', JU64 (total_bytes j)),
              (''done_bytes'', JU64 (done_bytes j)), (''current'', JArray (map JString (current j))),
              (''status'', JString (status j)), (''error'', jopt (job_error j))])"

definition handle_status :: "daemon \<Rightarrow> 'a job_state_scheme \<Rightarrow> response" where
  "handle_status D s = json_resp D 200 (JObject [(''jobs'', JArray (map job_json (jobs s)))])"

section \<open>Renaming and deleting\<close>

definition rename_request :: "daemon \<Rightarrow> sudo \<Rightarrow> json \<Rightarrow> 'a job_state_scheme \<Rightarrow> response \<times> 'a job_state_scheme" where
  "rename_request D S v s =
     (let E = d_env D; src = str_field ''src'' v; name = str_field ''name'' v; sp = str_field ''sudopass'' v in
      if src = [] \<or> name = [] \<or> slash \<in> set name \<or> name = ''.'' \<or> name = ''..''
      then (json_resp D 400 (error_json ''invalid name''), s)
      else let src_p = resolve_path E src in
        case path_parent src_p of
          None \<Rightarrow> (json_resp D 400 (error_json ''no parent''), s)
        | Some parent \<Rightarrow>
            (let dst = path_join parent name in
             case on_world (path_exists dst) s of
               (True, s1) \<Rightarrow> (json_resp D 409 (error_json (''destination exists: '' @ dst)), s1)
             | (False, s1) \<Rightarrow>
                 (case on_world (rename_path src_p dst) s1 of
                    (Inr u, s2) \<Rightarrow> (ok_dst D dst, s2)
                  | (Inl e, s2) \<Rightarrow>
                      if kind_of e = PermissionDenied then
                        (if sp \<noteq> [] then
                           (case on_world (sudo_run D S sp
                                 (JObject [(''op'', JString ''rename''), (''src'', JString src_p),
                                           (''name'', JString name)])) s2 of
                              ((rc, out), s3) \<Rightarrow>
                                (case (if rc = 0 then json_parse E out else Inl []) of
                                   Inl x \<Rightarrow> (denied D, s3)
                                 | Inr j \<Rightarrow>
                                     (case Option.bind (json_get ''dst'' j) as_str of
                                        Some d \<Rightarrow> (ok_dst D d, s3)
                                      | None \<Rightarrow> (denied D, s3))))
                         else (needs_password D, s2))
                      else (json_resp D 500 (error_json (io_text E e)), s2))))"

definition handle_rename :: "daemon \<Rightarrow> sudo \<Rightarrow> string + string \<Rightarrow> 'a job_state_scheme \<Rightarrow> response \<times> 'a job_state_scheme" where
  "handle_rename D S body s = with_json D body s (rename_request D S)"

definition delete_request :: "daemon \<Rightarrow> sudo \<Rightarrow> json \<Rightarrow> mover \<Rightarrow> response \<times> mover" where
  "delete_request D S v s =
     (let E = d_env D; src = str_field ''src'' v; sp = str_field ''sudopass'' v in
      if src = [] then (json_resp D 400 (error_json ''bad request''), s)
      else let p = resolve_path E src in
        case on_world (symlink_metadata p) s of
          (Inl e, s1) \<Rightarrow> (json_resp D 404 (error_json (io_text E e)), s1)
        | (Inr md, s1) \<Rightarrow>
            if sp \<noteq> [] then
              (case on_world (sudo_run D S sp (JObject [(''op'', JString ''delete''), (''src'', JString p)])) s1 of
                 ((rc, out), s2) \<Rightarrow>
                   (case (if rc = 0 then json_parse E out else Inl []) of
                      Inl x \<Rightarrow> (denied D, s2)
                    | Inr j \<Rightarrow>
                        if json_get ''ok'' j \<noteq> None
                        then (json_resp D 200 (JObject [(''ok'', JBool True)]), s2)
                        else (denied D, s2)))
            else
              (let jid = next_id s1 in
               (json_resp D 202 (JObject [(''ok'', JBool True), (''job_id'', JU64 jid), (''op'', JString ''delete'')]),
                s1\<lparr>next_id := next_id s1 + 1,
                   jobs := AList.update jid (new_job ''delete'' p []) (jobs s1),
                   tasks := tasks s1 @ [DeleteTask jid p]\<rparr>)))"

definition handle_delete :: "daemon \<Rightarrow> sudo \<Rightarrow> string + string \<Rightarrow> mover \<Rightarrow> response \<times> mover" where
  "handle_delete D S body s = with_json D body s (delete_request D S)"

section \<open>Searching\<close>

definition search_request :: "daemon \<Rightarrow> json \<Rightarrow> mover \<Rightarrow> response \<times> mover" where
  "search_request D v s =
     (let root = str_field ''root'' v; q = str_field ''q'' v in
      if root = [] \<or> q = [] then (json_resp D 400 (error_json ''bad request''), s)
      else let sid = next_search s in
        (json_resp D 202 (JObject [(''search_id'', JU64 sid)]),
         s\<lparr>next_search := next_search s + 1,
           searches := AList.update sid (new_search root q) (searches s),
           tasks := tasks s @ [SearchTask sid (resolve_path (d_env D) root) q]\<rparr>))"

definition handle_search_start :: "daemon \<Rightarrow> string + string \<Rightarrow> mover \<Rightarrow> response \<times> mover" where
  "handle_search_start D body s = with_json D body s (search_request D)"

text \<open>\<open>str::parse::<u64>()\<close>: an optional plus sign and at least one digit, below 2 to the 64.\<close>

definition parse_u64 :: "string \<Rightarrow> u64 option" where
  "parse_u64 s =
     (let ds = (case s of [] \<Rightarrow> [] | c # cs \<Rightarrow> if c = CHR ''+'' \<and> cs \<noteq> [] then cs else s) in
      if ds \<noteq> [] \<and> (\<forall>c \<in> set ds. 48 \<le> (of_char c :: nat) \<and> (of_char c :: nat) \<le> 57)
         \<and> nat_of_digits 0 ds < 2 ^ 64
      then Some (of_nat (nat_of_digits 0 ds)) else None)"

definition search_json :: "u64 \<Rightarrow> search \<Rightarrow> json" where
  "search_json sid r =
     JObject [(''search_id'', JU64 sid), (''root'', JString (s_root r)), (''q'', JString (s_q r)),
              (''status'', JString (s_status r)), (''done_dirs'', JU64 (s_done_dirs r)),
              (''matches'', JArray (s_matches r)), (''truncated'', JBool (s_truncated r)),
              (''error'', jopt (s_error r))]"

definition handle_search :: "daemon \<Rightarrow> (string \<rightharpoonup> string) \<Rightarrow> 'a search_state_scheme \<Rightarrow> response" where
  "handle_search D ps s =
     (case Option.bind (ps ''id'') parse_u64 of
        None \<Rightarrow> json_resp D 400 (error_json ''missing id'')
      | Some sid \<Rightarrow>
          (case map_of (searches s) sid of
             Some r \<Rightarrow> json_resp D 200 (search_json sid r)
           | None \<Rightarrow> json_resp D 404 (error_json ''no such search'')))"

section \<open>The router\<close>

record request =
  q_method :: string
  q_path :: string
  q_query :: string
  q_body :: "string + string"
  q_frames :: "frame list"
  q_nanos :: nat

definition update_command :: "daemon \<Rightarrow> string" where
  "update_command D =
     ''nohup '' @ [CHR 0x27] @
     (case d_update_script D of Some p \<Rightarrow> p | None \<Rightarrow> ''./scripts/update-file-mover.sh'') @
     [CHR 0x27] @ '' >/tmp/file-mover-update.log 2>&1 &''"

definition route :: "daemon \<Rightarrow> sudo \<Rightarrow> request \<Rightarrow> mover \<Rightarrow> response \<times> mover" where
  "route D S q s =
     (let m = q_method q; p = q_path q; ps = parse_query (d_env D) (q_query q) in
      if m = ''GET'' \<and> p = ''/'' then (text_resp 200 ''text/html; charset=utf-8'' (d_html D), s)
      else if m = ''GET'' \<and> p = ''/api/roots'' then
        (let (a, b) = roots (d_env D) in
         (json_resp D 200 (JObject [(''root_a'', JString a), (''root_b'', JString b),
                                    (''target_pc'', JString a), (''this_pc'', JString b)]), s))
      else if m = ''GET'' \<and> p = ''/api/version'' then
        (json_resp D 200 (JObject [(''commit'', JString (d_commit D)), (''version'', JString (d_version D)),
                                   (''port'', JU64 8787)]), s)
      else if m = ''POST'' \<and> p = ''/api/update'' then
        (json_resp D 202 (JObject [(''updating'', JBool True), (''from'', JString (d_commit D)),
                                   (''log'', JString ''/tmp/file-mover-update.log'')]),
         s\<lparr>shells := shells s @ [update_command D]\<rparr>)
      else if m = ''GET'' \<and> p = ''/api/status'' then (handle_status D s, s)
      else if m = ''GET'' \<and> p = ''/api/ls'' then handle_ls D S ps s
      else if m = ''POST'' \<and> p = ''/api/mkdir'' then handle_mkdir D S ps s
      else if m = ''POST'' \<and> p = ''/api/put'' then handle_put D S (q_nanos q) (q_frames q) ps s
      else if m = ''POST'' \<and> (p = ''/api/move'' \<or> p = ''/api/copy'') then
        handle_move_copy D S (q_body q) (p = ''/api/move'') s
      else if m = ''POST'' \<and> p = ''/api/rename'' then handle_rename D S (q_body q) s
      else if m = ''POST'' \<and> p = ''/api/delete'' then handle_delete D S (q_body q) s
      else if m = ''POST'' \<and> p = ''/api/search'' then handle_search_start D (q_body q) s
      else if m = ''GET'' \<and> p = ''/api/search'' then (handle_search D ps s, s)
      else (json_resp D 404 (error_json ''not found''), s))"

section \<open>The daemon\<close>

text \<open>
  \<open>main\<close>: each accepted connection is a task of its own, whose requests go to \<open>route\<close> as they
  come and whose failure is only printed; a failed accept ends the program.
\<close>

datatype listen_event = Connected | Requested request | ConnFailed string | ListenFailed string

fun accept_loop :: "daemon \<Rightarrow> sudo \<Rightarrow> listen_event list \<Rightarrow> mover \<Rightarrow> string option \<times> response list \<times> mover" where
  "accept_loop D S [] s = (None, [], s)"
| "accept_loop D S (Connected # es) s = accept_loop D S es s"
| "accept_loop D S (Requested q # es) s =
     (case route D S q s of (r, s1) \<Rightarrow>
        (case accept_loop D S es s1 of (e, rs, s2) \<Rightarrow> (e, r # rs, s2)))"
| "accept_loop D S (ConnFailed m # es) s = accept_loop D S es s"
| "accept_loop D S (ListenFailed m # es) s = (Some m, [], s)"

definition mover_main :: "daemon \<Rightarrow> sudo \<Rightarrow> (string + unit) \<Rightarrow> listen_event list \<Rightarrow> mover \<Rightarrow>
    string option \<times> response list \<times> mover" where
  "mover_main D S bound es s =
     (case bound of Inl e \<Rightarrow> (Some e, [], s) | Inr u \<Rightarrow> accept_loop D S es s)"

end
