(* ===== verification/Mover_Registry.thy ===== *)
theory Mover_Registry
  imports Mover_Handlers Job_Laws Samples Step_Systems
begin

text \<open>
  The daemon as a step system: requests go through \<open>route\<close>, background jobs change their own
  record, the file system changes.  Whatever comes, no two active jobs do the same work.
\<close>

section \<open>What a request does to the registry of jobs\<close>

text \<open>A handler that leaves jobs, ids and tasks alone.\<close>

definition same_jobs :: "mover \<Rightarrow> mover \<Rightarrow> bool" where
  "same_jobs s t \<longleftrightarrow> jobs t = jobs s \<and> next_id t = next_id s \<and> tasks t = tasks s"

lemma same_jobs_refl [simp]: "same_jobs s s"
  by (simp add: same_jobs_def)

lemma on_world_same: "on_world f s = (r, t) \<Longrightarrow> same_jobs s t"
  by (auto simp: on_world_def same_jobs_def split: prod.splits)

lemma on_world_snd [simp]: "same_jobs s (snd (on_world f t)) \<longleftrightarrow> same_jobs s t"
  by (auto simp: on_world_def same_jobs_def split: prod.splits)

lemma same_jobs_trans: "same_jobs s t \<Longrightarrow> same_jobs t u \<Longrightarrow> same_jobs s u"
  by (simp add: same_jobs_def)

lemma on_world_jobs:
  "on_world f s = (r, t) \<Longrightarrow> jobs t = jobs s \<and> next_id t = next_id s \<and> tasks t = tasks s"
  for s :: mover
  by (auto simp: on_world_def split: prod.splits)

lemma quiet_handlers:
  "handle_ls D S ps s = (r, t) \<Longrightarrow> same_jobs s t"
  "handle_mkdir D S ps s = (r, t) \<Longrightarrow> same_jobs s t"
  "rename_request D S v s = (r, t) \<Longrightarrow> same_jobs s t"
  "elevated_move_copy D S sp opn src fd strategy s = (r, t) \<Longrightarrow> same_jobs s t"
  by (auto simp: handle_ls_def handle_mkdir_def rename_request_def elevated_move_copy_def same_jobs_def Let_def
      dest!: on_world_jobs split: prod.splits sum.splits option.splits if_splits bool.splits)

lemma place_upload_quiet: "place_upload D S tmp dst sp s = (r, t) \<Longrightarrow> same_jobs s t"
  unfolding place_upload_def Let_def
  by (auto simp: on_world_simps same_jobs_def split: prod.splits sum.splits option.splits if_splits)

lemma handle_put_quiet: "handle_put D S nanos body ps s = (r, t) \<Longrightarrow> same_jobs s t"
  by (auto simp: handle_put_def Let_def same_jobs_def dest!: on_world_jobs place_upload_quiet[unfolded same_jobs_def]
      split: prod.splits sum.splits)
     (auto simp: on_world_def split: prod.splits)

text \<open>The other handlers: at most one job is added, under the id that was next.\<close>

definition adds_job :: "daemon \<Rightarrow> mover \<Rightarrow> mover \<Rightarrow> bool" where
  "adds_job D s t \<longleftrightarrow>
     (\<exists>opn src dst r s1. (opn = ''move'' \<or> opn = ''copy'') \<and> same_jobs s s1 \<and> register_job D opn src dst s1 = (r, t)) \<or>
     (\<exists>p. next_id t = next_id s + 1 \<and> jobs t = AList.update (next_id s) (new_job ''delete'' p []) (jobs s) \<and>
          tasks t = tasks s @ [DeleteTask (next_id s) p])"

definition search_only :: "mover \<Rightarrow> mover \<Rightarrow> bool" where
  "search_only s t \<longleftrightarrow> jobs t = jobs s \<and> next_id t = next_id s"

lemma move_copy_adds:
  assumes "move_copy_request D S m v s = (r, t)"
  shows "same_jobs s t \<or> adds_job D s t"
proof -
  define opn where "opn = (if m then ''move'' else ''copy'')"
  have opn: "opn = ''move'' \<or> opn = ''copy''" by (simp add: opn_def)
  note st = assms[unfolded move_copy_request_def Let_def, folded opn_def]
  obtain dst0 s1 where d: "on_world (dest_for (str_field ''src'' v) (str_field ''dst'' v)) s = (dst0, s1)" by fastforce
  obtain b s2 where e: "on_world (path_exists (str_field ''src'' v)) s1 = (b, s2)" by fastforce
  obtain ex s3 where x: "on_world (path_exists dst0) s2 = (ex, s3)" by fastforce
  obtain fd s4 where f: "(if ex \<and> str_field ''strategy'' v = ''rename'' then on_world (free_dst dst0) s3 else (dst0, s3)) = (fd, s4)"
    by fastforce
  have q: "same_jobs s s1" "same_jobs s s2" "same_jobs s s3" "same_jobs s s4"
    using on_world_same[OF d] on_world_same[OF e] on_world_same[OF x] f
    by (auto simp: same_jobs_def dest: on_world_jobs split: if_splits)
  consider "same_jobs s t" | "register_job D opn (str_field ''src'' v) fd s4 = (r, t)"
    | "elevated_move_copy D S (str_field ''sudopass'' v) opn (str_field ''src'' v) fd (str_field ''strategy'' v) s4 = (r, t)"
    using st q by (auto simp: d e x f split: if_splits bool.splits)
  then show ?thesis
  proof cases
    case 2
    then show ?thesis using opn q(4) unfolding adds_job_def by blast
  next
    case 3
    then show ?thesis using quiet_handlers(4) q(4) same_jobs_trans by blast
  qed simp
qed

lemma delete_adds:
  assumes "delete_request D S v s = (r, t)"
  shows "same_jobs s t \<or> adds_job D s t"
proof (cases "str_field ''src'' v = []")
  case True
  with assms show ?thesis by (simp add: delete_request_def)
next
  case False
  define p where "p = resolve_path (d_env D) (str_field ''src'' v)"
  note st = assms[unfolded delete_request_def Let_def, folded p_def]
  obtain x s1 where e: "on_world (symlink_metadata p) s = (x, s1)" by fastforce
  have q: "jobs s1 = jobs s" "next_id s1 = next_id s" "tasks s1 = tasks s"
    using on_world_same[OF e] by (simp_all add: same_jobs_def)
  show ?thesis
  proof (cases "isl x \<or> str_field ''sudopass'' v \<noteq> []")
    case True
    with st False e q have "same_jobs s t"
      by (auto simp: same_jobs_def dest!: on_world_jobs split: sum.splits prod.splits if_splits)
    then show ?thesis by simp
  next
    case no: False
    then obtain md where "x = Inr md" by (cases x) auto
    with st False e q no show ?thesis by (auto simp: adds_job_def)
  qed
qed

lemma with_json_cases:
  assumes "with_json D body s k = (r, t)"
  obtains (bad) "t = s" | (good) v where "k v s = (r, t)"
  using assms by (auto simp: with_json_def split: sum.splits)

lemma route_jobs:
  assumes "route D S q s = (r, t)"
  shows "search_only s t \<or> adds_job D s t"
proof -
  let ?ps = "parse_query (d_env D) (q_query q)"
  consider "handle_ls D S ?ps s = (r, t)" | "handle_mkdir D S ?ps s = (r, t)"
    | "handle_put D S (q_nanos q) (q_frames q) ?ps s = (r, t)"
    | "handle_move_copy D S (q_body q) (q_path q = ''/api/move'') s = (r, t)"
    | "handle_rename D S (q_body q) s = (r, t)" | "handle_delete D S (q_body q) s = (r, t)"
    | "handle_search_start D (q_body q) s = (r, t)"
    | "search_only s t"
    using assms unfolding route_def Let_def
    by (auto simp: search_only_def split: if_splits prod.splits)
  then show ?thesis
  proof cases
    case 4
    then show ?thesis
      by (auto simp: handle_move_copy_def search_only_def elim!: with_json_cases dest!: move_copy_adds)
         (auto simp: same_jobs_def)
  next
    case 5
    then show ?thesis
      by (auto simp: handle_rename_def search_only_def elim!: with_json_cases dest!: quiet_handlers(3))
         (auto simp: same_jobs_def)
  next
    case 6
    then show ?thesis
      by (auto simp: handle_delete_def search_only_def elim!: with_json_cases dest!: delete_adds)
         (auto simp: same_jobs_def)
  next
    case 7
    then show ?thesis
      by (auto simp: handle_search_start_def search_only_def search_request_def Let_def elim!: with_json_cases split: if_splits)
  qed (auto simp: search_only_def same_jobs_def
        dest!: quiet_handlers(1,2)[unfolded same_jobs_def] handle_put_quiet[unfolded same_jobs_def])
qed

section \<open>The daemon's steps\<close>

text \<open>
  \<open>progress\<close> is any update of its record by a background job: it keeps what the job is about, and
  a job that has ended stays so.  Ids are taken from a 64-bit counter that does not wrap around.
\<close>

inductive daemon_step :: "daemon \<Rightarrow> sudo \<Rightarrow> mover \<Rightarrow> mover \<Rightarrow> bool" for D S where
  request: "next_id s + 1 \<noteq> 0 \<Longrightarrow> route D S q s = (r, t) \<Longrightarrow> daemon_step D S s t"
| progress: "map_of (jobs s) k = Some j \<Longrightarrow> j_op (f j) = j_op j \<Longrightarrow> j_src (f j) = j_src j \<Longrightarrow>
     j_dst (f j) = j_dst j \<Longrightarrow> (active (f j) \<longrightarrow> active j) \<Longrightarrow> daemon_step D S s (job_update k f s)"
| environment: "daemon_step D S s (s\<lparr>jw := w\<rparr>)"

definition conflict :: "job \<Rightarrow> job \<Rightarrow> bool" where
  "conflict i j \<longleftrightarrow> active i \<and> active j \<and> j_op i = j_op j \<and> j_op i \<noteq> ''delete'' \<and> j_src i = j_src j \<and>
     (j_op i = ''move'' \<or> j_dst i = j_dst j)"

definition reg_inv :: "mover \<Rightarrow> bool" where
  "reg_inv s \<longleftrightarrow>
     distinct (map fst (jobs s)) \<and> (\<forall>k j. map_of (jobs s) k = Some j \<longrightarrow> k < next_id s) \<and>
     (\<forall>k l i j. map_of (jobs s) k = Some i \<longrightarrow> map_of (jobs s) l = Some j \<longrightarrow> conflict i j \<longrightarrow> k = l)"

lemma conflict_sym: "conflict i j \<Longrightarrow> conflict j i"
  by (auto simp: conflict_def)

lemma reg_invD:
  assumes "reg_inv s"
  shows "distinct (map fst (jobs s))" and "map_of (jobs s) k = Some i \<Longrightarrow> k < next_id s"
    and "map_of (jobs s) k = Some i \<Longrightarrow> map_of (jobs s) l = Some j \<Longrightarrow> conflict i j \<Longrightarrow> k = l"
  using assms unfolding reg_inv_def by blast+

lemma next_greater: "n + 1 \<noteq> 0 \<Longrightarrow> n < n + 1" for n :: u64
  using unatSuc[of n] by (simp add: word_less_nat_alt add.commute)

text \<open>Inserting a job that is in conflict with none.\<close>

lemma insert_inv:
  assumes "reg_inv s" and "next_id s + 1 \<noteq> 0" and "next_id t = next_id s + 1"
    and "jobs t = AList.update (next_id s) x (jobs s)"
    and "\<And>k j. map_of (jobs s) k = Some j \<Longrightarrow> \<not> conflict x j"
  shows "reg_inv t"
proof -
  have m: "map_of (jobs t) k = (if k = next_id s then Some x else map_of (jobs s) k)" for k
    using assms(4) by (simp add: reg.look_put)
  have lt: "next_id s < next_id t" using assms(2,3) by (simp add: next_greater)
  have bound: "k < next_id t" if "map_of (jobs t) k = Some j" for k j
    using that lt reg_invD(2)[OF assms(1), of k j] by (auto simp: m split: if_splits)
  have uniq: "k = l" if "map_of (jobs t) k = Some i" "map_of (jobs t) l = Some j" "conflict i j" for k l i j
  proof (cases "k = next_id s \<or> l = next_id s")
    case True
    then show ?thesis using that assms(5) conflict_sym by (fastforce simp: m split: if_splits)
  next
    case False
    then show ?thesis using that reg_invD(3)[OF assms(1)] by (simp add: m)
  qed
  have "distinct (map fst (jobs t))" using reg_invD(1)[OF assms(1)] assms(4) by (simp add: distinct_update)
  with bound uniq show ?thesis unfolding reg_inv_def by blast
qed

lemma next_only_inv:
  assumes "reg_inv s" and "next_id s + 1 \<noteq> 0" and "jobs t = jobs s" and "next_id t = next_id s + 1"
  shows "reg_inv t"
proof -
  have "next_id s < next_id t" using assms(2,4) by (simp add: next_greater)
  then have "k < next_id t" if "map_of (jobs s) k = Some j" for k j
    using reg_invD(2)[OF assms(1) that] by (rule order.strict_trans[rotated])
  then show ?thesis using assms(1,3) unfolding reg_inv_def by metis
qed

lemma register_inv:
  assumes "reg_inv s" and "next_id s + 1 \<noteq> 0" and "opn = ''move'' \<or> opn = ''copy''"
    and "register_job D opn src dst s = (r, t)"
  shows "reg_inv t"
proof (cases "find (\<lambda>(i, j). same_work opn src dst j) (jobs s)")
  case (Some p)
  with assms(4) have "jobs t = jobs s" "next_id t = next_id s + 1"
    by (auto simp: register_job_def Let_def split: prod.splits)
  with assms show ?thesis by (blast intro: next_only_inv)
next
  case None
  have "\<not> conflict (new_job opn src dst) j" if "map_of (jobs s) k = Some j" for k j
    using None map_of_SomeD[OF that] by (auto simp: find_None_iff conflict_def same_work_def new_job_def)
  moreover have "jobs t = AList.update (next_id s) (new_job opn src dst) (jobs s)" "next_id t = next_id s + 1"
    using assms(4) None by (auto simp: register_job_def Let_def)
  ultimately show ?thesis using assms(1,2) by (blast intro: insert_inv)
qed

lemma request_inv:
  assumes "reg_inv s" and "next_id s + 1 \<noteq> 0" and "route D S q s = (r, t)"
  shows "reg_inv t"
  using route_jobs[OF assms(3)] unfolding adds_job_def
proof (elim disjE exE conjE)
  assume "search_only s t"
  then show ?thesis using assms(1) by (simp add: search_only_def reg_inv_def)
next
  fix opn src dst r' s1
  assume "opn = ''move''" and s1: "same_jobs s s1" and reg: "register_job D opn src dst s1 = (r', t)"
  then show ?thesis using assms(1,2) register_inv[of s1 opn D src dst r' t] by (simp add: same_jobs_def reg_inv_def)
next
  fix opn src dst r' s1
  assume "opn = ''copy''" and s1: "same_jobs s s1" and reg: "register_job D opn src dst s1 = (r', t)"
  then show ?thesis using assms(1,2) register_inv[of s1 opn D src dst r' t] by (simp add: same_jobs_def reg_inv_def)
next
  fix p
  assume "next_id t = next_id s + 1" and "jobs t = AList.update (next_id s) (new_job ''delete'' p []) (jobs s)"
  moreover have "\<not> conflict (new_job ''delete'' p []) j" for j by (simp add: conflict_def new_job_def)
  ultimately show ?thesis using assms(1,2) by (blast intro: insert_inv)
qed

lemma progress_inv:
  assumes "reg_inv s" and "map_of (jobs s) k = Some j" and "j_op (f j) = j_op j" and "j_src (f j) = j_src j"
    and "j_dst (f j) = j_dst j" and "active (f j) \<longrightarrow> active j"
  shows "reg_inv (job_update k f s)"
proof -
  let ?t = "job_update k f s"
  have n: "next_id ?t = next_id s" by (simp add: job_update_def)
  have old: "\<exists>y. map_of (jobs s) l = Some y \<and> (conflict x z \<longrightarrow> conflict y z)" if "map_of (jobs ?t) l = Some x" for l x z
    using that assms(2-6) by (cases "l = k") (auto simp: map_of_reg_update conflict_def)
  have "l < next_id ?t" if "map_of (jobs ?t) l = Some x" for l x
    using old[OF that] reg_invD(2)[OF assms(1)] n by auto
  moreover have "l = m" if xy: "map_of (jobs ?t) l = Some x" "map_of (jobs ?t) m = Some y" "conflict x y" for l m x y
  proof -
    obtain x0 where x0: "map_of (jobs s) l = Some x0" "conflict x0 y" using old[OF xy(1), of y] xy(3) by blast
    obtain y0 where y0: "map_of (jobs s) m = Some y0" "conflict y0 x0"
      using old[OF xy(2), of x0] conflict_sym[OF x0(2)] by auto
    show ?thesis using reg_invD(3)[OF assms(1) x0(1) y0(1) conflict_sym[OF y0(2)]] .
  qed
  moreover have "distinct (map fst (jobs ?t))" using reg_invD(1)[OF assms(1)] by simp
  ultimately show ?thesis unfolding reg_inv_def by blast
qed

interpretation mover_site: step_system "\<lambda>s. jobs s = []" "daemon_step D S" reg_inv for D S
proof
  show "jobs s = [] \<Longrightarrow> reg_inv s" for s by (simp add: reg_inv_def)
  show "reg_inv t" if "reg_inv s" "daemon_step D S s t" for s t
    using that(2)
  proof (cases rule: daemon_step.cases)
    case (request q r)
    then show ?thesis using request_inv[OF that(1)] by blast
  next
    case (progress k j f)
    then show ?thesis using progress_inv[OF that(1)] by simp
  next
    case (environment w)
    then show ?thesis using that(1) by (simp add: reg_inv_def)
  qed
qed

text \<open>C9 Whatever requests arrive, in any order and interleaved with the progress of running jobs: at no
  time are there two active moves of one source, nor two active copies of one source to one
  destination.\<close>

theorem no_duplicate_jobs:
  assumes "jobs s0 = []" and "(daemon_step D S)\<^sup>*\<^sup>* s0 s"
    and "map_of (jobs s) k = Some i" and "map_of (jobs s) l = Some j" and "k \<noteq> l" and "active i" and "active j"
    and "j_op i = j_op j" and "j_op i = ''move'' \<or> j_op i = ''copy''" and "j_src i = j_src j"
  shows "j_op i = ''copy'' \<and> j_dst i \<noteq> j_dst j"
proof -
  have inv: "reg_inv s" by (rule mover_site.reach_inv[OF assms(1,2)])
  have "\<not> conflict i j" using reg_invD(3)[OF inv assms(3,4)] assms(5) by blast
  with assms(6-10) show ?thesis by (auto simp: conflict_def)
qed

text \<open>Two requests to copy \<open>/src\<close>, to two places; the body of a request is taken as its destination.\<close>

definition sample_daemon :: daemon where
  "sample_daemon =
     \<lparr>d_env = sample_env\<lparr>json_parse := (\<lambda>b. Inr (JObject [(''src'', JString ''/src''), (''dst'', JString b)]))\<rparr>,
      d_helper = ''/opt/file-mover-sudo'', d_html = [], d_commit = ''abc'', d_version = ''1'',
      d_update_script = None, d_tmp_dir = ''/tmp'', d_pid = 7\<rparr>"

definition no_sudo :: sudo where
  "no_sudo args inp w = (SpawnFailed, w)"

definition copy_to :: "string \<Rightarrow> request" where
  "copy_to b = \<lparr>q_method = ''POST'', q_path = ''/api/copy'', q_query = [], q_body = Inr b, q_frames = [], q_nanos = 0\<rparr>"

definition sample_mover :: "(u64 \<times> job) list \<Rightarrow> u64 \<Rightarrow> task list \<Rightarrow> mover" where
  "sample_mover js n ts =
     \<lparr>jw = sample_world, jobs = js, searches = [], next_id = n, next_search = 1, tasks = ts, shells = []\<rparr>"

lemma sample_requests:
  "snd (route sample_daemon no_sudo (copy_to ''/dst/x'') (sample_mover [] 1 [])) =
     sample_mover [(1, new_job ''copy'' ''/src'' ''/dst/x'')] 2 [CopyTask 1 ''copy'' ''/src'' ''/dst/x'']"
  "snd (route sample_daemon no_sudo (copy_to ''/dst/y'')
       (sample_mover [(1, new_job ''copy'' ''/src'' ''/dst/x'')] 2 [CopyTask 1 ''copy'' ''/src'' ''/dst/x''])) =
     sample_mover [(1, new_job ''copy'' ''/src'' ''/dst/x''), (2, new_job ''copy'' ''/src'' ''/dst/y'')] 3
       [CopyTask 1 ''copy'' ''/src'' ''/dst/x'', CopyTask 2 ''copy'' ''/src'' ''/dst/y'']"
  by code_simp+

lemma request_step: "snd (route D S q s) = t \<Longrightarrow> next_id s + 1 \<noteq> 0 \<Longrightarrow> daemon_step D S s t"
  by (rule daemon_step.request[of s D S q "fst (route D S q s)"]) (simp_all add: prod_eq_iff)

lemma no_duplicate_jobs_witness:
  "\<exists>s. (daemon_step sample_daemon no_sudo)\<^sup>*\<^sup>* (sample_mover [] 1 []) s \<and>
     map_of (jobs s) 1 = Some (new_job ''copy'' ''/src'' ''/dst/x'') \<and>
     map_of (jobs s) 2 = Some (new_job ''copy'' ''/src'' ''/dst/y'') \<and>
     j_dst (new_job ''copy'' ''/src'' ''/dst/x'') \<noteq> j_dst (new_job ''copy'' ''/src'' ''/dst/y'')"
proof -
  let ?R = "daemon_step sample_daemon no_sudo"
  let ?t = "sample_mover [(1, new_job ''copy'' ''/src'' ''/dst/x'')] 2 [CopyTask 1 ''copy'' ''/src'' ''/dst/x'']"
  let ?u = "sample_mover [(1, new_job ''copy'' ''/src'' ''/dst/x''), (2, new_job ''copy'' ''/src'' ''/dst/y'')] 3
       [CopyTask 1 ''copy'' ''/src'' ''/dst/x'', CopyTask 2 ''copy'' ''/src'' ''/dst/y'']"
  have n: "next_id (sample_mover js n ts) = n" "jobs (sample_mover js n ts) = js" for js n ts
    by (simp_all add: sample_mover_def)
  have "?R (sample_mover [] 1 []) ?t" "?R ?t ?u"
    by (rule request_step[OF sample_requests(1)], simp add: n)
       (rule request_step[OF sample_requests(2)], simp add: n)
  then have r: "?R\<^sup>*\<^sup>* (sample_mover [] 1 []) ?u" by auto
  have a: "active (new_job ''copy'' ''/src'' d)" for d by (simp add: active_def new_job_def)
  have m: "map_of (jobs ?u) 1 = Some (new_job ''copy'' ''/src'' ''/dst/x'')"
    "map_of (jobs ?u) 2 = Some (new_job ''copy'' ''/src'' ''/dst/y'')" by (simp_all add: n)
  have "j_op (new_job ''copy'' ''/src'' ''/dst/x'') = ''copy'' \<and>
      j_dst (new_job ''copy'' ''/src'' ''/dst/x'') \<noteq> j_dst (new_job ''copy'' ''/src'' ''/dst/y'')"
    by (rule no_duplicate_jobs[OF n(2) r m]) (simp_all add: a, simp_all add: new_job_def)
  with r m show ?thesis by blast
qed

end
