(* ===== verification/Put_Laws.thy ===== *)
theory Put_Laws
  imports Mover_Registry Copy_Laws Dir_Laws
begin

text \<open>
  The upload handler of the mover, \<open>handle_put\<close>: the body's frames go to a temporary file through
  a \<open>tokio\<close> file, whose errors come late, and from there to the destination.
\<close>

section \<open>The tokio file\<close>

text \<open>As long as no error is pending, the file holds what was written and the offset is its end.\<close>

definition tokio_ok :: "tokio_file \<Rightarrow> loc \<Rightarrow> bytes \<Rightarrow> world \<Rightarrow> bool" where
  "tokio_ok f l bs w \<longleftrightarrow>
     env_ok w \<and> tf_loc f = l \<and> (tf_error f = None \<longrightarrow> holds l bs w \<and> tf_off f = length bs)"

lemma tokio_write_result:
  assumes "tokio_ok f l bs w" and "tokio_write f data w = (r, g, v)"
  shows "only_file {l} w v" and "r = Inr n \<Longrightarrow> tf_error f = None \<and> tokio_ok g l (bs @ take n data) v"
proof -
  have a: "env_ok w" "tf_loc f = l" using assms(1) by (auto simp: tokio_ok_def)
  show o: "only_file {l} w v"
    using assms(2) a write_all_outcome[of l "tf_off f" "take tokio_buf data" w]
    by (auto simp: tokio_write_def Let_def split: option.splits prod.splits sum.splits)
  have e: "env_ok v" using only_file_env[OF o a(1)] .
  show "tf_error f = None \<and> tokio_ok g l (bs @ take n data) v" if n: "r = Inr n"
  proof -
    have f: "tf_error f = None" using assms(2) n by (auto simp: tokio_write_def split: option.splits)
    then have h: "holds l bs w" "tf_off f = length bs" using assms(1) by (auto simp: tokio_ok_def)
    obtain r1 w1 where wa: "write_all l (tf_off f) (take tokio_buf data) w = (r1, w1)" by fastforce
    have n': "n = length (take tokio_buf data)" and v: "v = w1"
      and g: "g = (case r1 of Inr u \<Rightarrow> f\<lparr>tf_off := tf_off f + length (take tokio_buf data)\<rparr> | Inl e \<Rightarrow> f\<lparr>tf_error := Some e\<rparr>)"
      using assms(2) n f wa a by (auto simp: tokio_write_def Let_def split: sum.splits)
    show ?thesis
    proof (cases r1)
      case (Inl x)
      with g v e a f show ?thesis by (simp add: tokio_ok_def)
    next
      case (Inr u)
      with write_all_holds[OF wa a(1) h] v have "holds l (bs @ take tokio_buf data) v" by (auto simp: min_def split: if_splits)
      moreover have "take n data = take tokio_buf data" using n' by (auto simp: min_def)
      ultimately show ?thesis using g Inr e a f h(2) n' by (simp add: tokio_ok_def)
    qed
  qed
qed

lemma tokio_write_all_result:
  assumes "tokio_ok f l bs w" and "tokio_write_all f data w = (r, g, v)"
  shows "only_file {l} w v"
    and "r = Inr () \<Longrightarrow> tokio_ok g l (bs @ data) v \<and> (tf_error g = None \<longrightarrow> tf_error f = None)"
proof -
  have "only_file {l} w v \<and>
      (r = Inr () \<longrightarrow> tokio_ok g l (bs @ data) v \<and> (tf_error g = None \<longrightarrow> tf_error f = None))"
    using assms
  proof (induction f data w arbitrary: bs rule: tokio_write_all.induct)
    case (1 f data w)
    show ?case
    proof (cases "data = []")
      case True
      with "1.prems" show ?thesis by (auto simp: tokio_write_all.simps)
    next
      case False
      obtain r1 g1 w1 where w: "tokio_write f data w = (r1, g1, w1)" by (metis prod_cases3)
      note wr = tokio_write_result[OF "1.prems"(1) w]
      show ?thesis
      proof (cases r1)
        case (Inl x)
        with False w "1.prems"(2) wr(1) show ?thesis by (subst (asm) tokio_write_all.simps) auto
      next
        case (Inr n)
        then have rest: "tokio_write_all g1 (drop n data) w1 = (r, g, v)"
          using False w "1.prems"(2) by (subst (asm) tokio_write_all.simps) simp
        have "tokio_ok g1 l (bs @ take n data) w1" using wr(2)[OF Inr] by simp
        from "1.IH"[OF False w[symmetric] Inr refl this rest]
        have "only_file {l} w1 v \<and> (r = Inr () \<longrightarrow> tokio_ok g l (bs @ data) v)" by auto
        with wr Inr show ?thesis by (auto intro: only_file_trans)
      qed
    qed
  qed
  then show "only_file {l} w v"
    and "r = Inr () \<Longrightarrow> tokio_ok g l (bs @ data) v \<and> (tf_error g = None \<longrightarrow> tf_error f = None)" by auto
qed

section \<open>The body\<close>

definition frame_data :: "frame \<Rightarrow> bytes" where
  "frame_data x = (case x of Data d \<Rightarrow> d | _ \<Rightarrow> [])"

definition body_data :: "frame list \<Rightarrow> bytes" where
  "body_data xs = concat (map frame_data xs)"

lemma receive_result:
  assumes "tokio_ok f l bs w" and "receive E xs f w = (r, v)"
  shows "only_file {l} w v" and "r = Inr g \<Longrightarrow> holds l (bs @ body_data xs) v"
proof -
  have "only_file {l} w v \<and> (\<forall>g. r = Inr g \<longrightarrow> tf_error f = None \<and> holds l (bs @ body_data xs) v)"
    using assms
  proof (induction E xs f w arbitrary: bs rule: receive.induct)
    case (1 E f w)
    then show ?case by (auto simp: tokio_flush_def tokio_ok_def body_data_def split: option.splits)
  next
    case (3 E xs f w)
    then show ?case by (simp add: body_data_def frame_data_def)
  next
    case (4 E d xs f w)
    obtain r1 g1 w1 where w: "tokio_write_all f d w = (r1, g1, w1)" by (metis prod_cases3)
    note wr = tokio_write_all_result[OF "4.prems"(1) w]
    show ?case
    proof (cases r1)
      case (Inl x)
      with w "4.prems"(2) wr(1) show ?thesis by auto
    next
      case (Inr u)
      with w "4.prems"(2) have rest: "receive E xs g1 w1 = (r, v)" by simp
      have "tokio_ok g1 l (bs @ d) w1" using wr(2) Inr by simp
      from "4.IH"[OF w[symmetric] Inr refl this rest]
      have "only_file {l} w1 v \<and> (\<forall>g. r = Inr g \<longrightarrow> tf_error g1 = None \<and> holds l ((bs @ d) @ body_data xs) v)" by simp
      with wr Inr show ?thesis by (auto intro: only_file_trans simp: body_data_def frame_data_def)
    qed
  qed auto
  then show "only_file {l} w v" and "r = Inr g \<Longrightarrow> holds l (bs @ body_data xs) v" by auto
qed

section \<open>From the temporary file to the destination\<close>

lemma two_paths_sym: "two_paths a b p q w \<Longrightarrow> two_paths b a q p w"
  by (auto simp: two_paths_def)

text \<open>
  Creating the destination's parents may put a directory where the destination leads; then the
  upload fails.
\<close>

definition placing :: "loc \<Rightarrow> loc \<Rightarrow> path \<Rightarrow> path \<Rightarrow> world \<Rightarrow> bool" where
  "placing a b p q w \<longleftrightarrow> two_paths a b p q w \<or>
     env_ok w \<and> plain_end p \<and> plain_end q \<and> a \<noteq> [] \<and> b \<noteq> [] \<and> a \<noteq> b \<and>
     resolve False w p = Inr a \<and> resolve False w q = Inr b \<and>
     skel_of (tget (fs w) a) = SLeaf \<and> is_dirn (tget (fs w) b)"

lemma placing_grows:
  assumes "two_paths a b p q w" and "holds a bs w" and "grows w v"
  shows "placing a b p q v"
proof -
  have a: "skel_of (tget (fs v) a) = SLeaf"
  proof -
    obtain d where "files (fs w) a = Some d" using assms(2) by (auto simp: holds_def)
    then have "files (fs v) a = Some d" using assms(3) by (simp add: grows_def)
    then show ?thesis by (rule files_leaf)
  qed
  have b: "skel_of (tget (fs v) b) = SLeaf \<or> is_dirn (tget (fs v) b)"
  proof -
    have "tget (fs w) b \<noteq> Some (Symlink x)" for x
      using assms(1) by (auto simp: two_paths_def skel_of_def)
    then have "tget (fs v) b \<noteq> Some (Symlink x)" for x using assms(3) by (auto simp: grows_def)
    then show ?thesis by (auto simp: skel_of_def is_dirn_iff split: option.splits node.splits)
  qed
  show ?thesis
    using assms(1,3) a b resolve_grows_any[OF assms(3)] grows_env[OF assms(3)]
    by (auto simp: placing_def two_paths_def)
qed

lemma rename_onto_dir:
  assumes "env_ok w" and "plain_end p" and "plain_end q" and "resolve False w p = Inr a" and "resolve False w q = Inr b"
    and "skel_of (tget (fs w) a) = SLeaf" and "is_dirn (tget (fs w) b)" and "a \<noteq> b" and "rename_path p q w = (r, v)"
  shows "fs v = fs w \<and> cwd v = cwd w \<and> r \<noteq> Inr ()"
  using assms(9) unfolding rename_path_def
proof (cases rule: sys_cases)
  case (run t)
  have l: "resolve_leaf w p = Inr a" "resolve_leaf w q = Inr b" "\<not> ends_in_dots p" "\<not> ends_in_dots q"
    using assms(2-5) by (simp_all add: resolve_leaf_plain) (simp_all add: plain_end_def)
  from run l have "rename_locs (fs w) a b = (r, t)" by simp
  then have "t = fs w \<and> r \<noteq> Inr ()"
    using assms(6-8) by (auto simp: rename_locs_def is_dirn_iff skel_of_def split: option.splits node.splits if_splits)
  with run show ?thesis by simp
qed simp

lemma copy_onto_dir:
  assumes "env_ok w" and "plain_end q" and "resolve False w q = Inr b" and "is_dirn (tget (fs w) b)"
    and "copy_file p q w = (r, v)"
  shows "fs v = fs w \<and> cwd v = cwd w \<and> \<not> (\<exists>n. r = Inr n)"
proof -
  obtain r1 w1 where o: "file_open p w = (r1, w1)" by fastforce
  note fo = file_open_result(1,2)[OF o]
  show ?thesis
  proof (cases r1)
    case (Inl e)
    with o fo assms(5) show ?thesis by (auto simp: copy_file_def copy_open_def)
  next
    case (Inr x)
    obtain r2 w2 where c: "file_create q w1 = (r2, w2)" by fastforce
    have d: "is_dirn (tget (fs w1) b)" using assms(4) fo by simp
    then have "resolve True w1 q = Inr b"
      using assms(3) fo resolve_follow[of w q b] by (auto simp: is_dirn_iff resolve_def split: if_splits)
    then have "fs w2 = fs w1 \<and> cwd w2 = cwd w1 \<and> (\<exists>e. r2 = Inl e)"
      using d assms(2)
      by (cases rule: sys_cases[OF c[unfolded file_create_def]]) (auto simp: is_dirn_iff plain_end_def)
    with Inr o c fo assms(5) show ?thesis by (auto simp: copy_file_def copy_open_def)
  qed
qed

lemma resp_status [simp]:
  "r_status (json_resp D n v) = n" "r_status (ok_dst D d) = 200" "r_status (denied D) = 403"
  "r_status (needs_password D) = 403" "r_status (text_resp n c b) = n"
  by (simp_all add: json_resp_def text_resp_def ok_dst_def denied_def needs_password_def)

text \<open>Removing the temporary file, whatever comes of it.\<close>

lemma clean_result:
  assumes "placing a b p q w"
  shows "only_file {a} w (snd (remove_file p w))"
proof -
  have "resolve_leaf w p = Inr a" "env_ok w" "a \<noteq> []" "skel_of (tget (fs w) a) = SLeaf"
    using assms by (auto simp: placing_def two_paths_def resolve_leaf_plain)
  then show ?thesis by (rule remove_file_only_file(1))
qed

lemma placing_frame: "placing a b p q w \<Longrightarrow> only_file L w v \<Longrightarrow> placing a b p q v"
  using only_file_env[of L w v] only_file_resolve[of L w v] only_file_leaf[of L w v] two_paths_frame[of a b p q w L v]
  by (auto simp: placing_def simp flip: skel_of_cases(1))

text \<open>What the rename and the copy after it can end in.\<close>

lemma place_moves:
  assumes "placing a b p q w" and "holds a bs w" and "rename_path p q w = (r, v)"
  shows "only_file {a, b} w v" and "r = Inr () \<Longrightarrow> holds b bs v" and "r \<noteq> Inr () \<Longrightarrow> holds a bs v"
proof -
  have "only_file {a, b} w v \<and> (r = Inr () \<longrightarrow> holds b bs v) \<and> (r \<noteq> Inr () \<longrightarrow> holds a bs v)"
  proof (cases "two_paths a b p q w")
    case True
    obtain d where d: "files (fs w) a = Some d" "fbytes d = bs" using assms(2) by (auto simp: holds_def)
    from rename_two[OF True d(1) assms(3)] d assms(2) show ?thesis
      by (auto simp: only_file_def holds_def)
  next
    case False
    then have "env_ok w" "plain_end p" "plain_end q" "resolve False w p = Inr a" "resolve False w q = Inr b"
      "skel_of (tget (fs w) a) = SLeaf" "is_dirn (tget (fs w) b)" "a \<noteq> b"
      using assms(1) by (auto simp: placing_def)
    from rename_onto_dir[OF this assms(3)] assms(2) show ?thesis by (simp add: only_file_same holds_def)
  qed
  then show "only_file {a, b} w v" "r = Inr () \<Longrightarrow> holds b bs v" "r \<noteq> Inr () \<Longrightarrow> holds a bs v" by auto
qed

lemma place_copies:
  assumes "placing a b p q w" and "holds a bs w" and "copy_file p q w = (r, v)"
  shows "only_file {a, b} w v" and "r = Inr n \<Longrightarrow> holds b bs v"
proof -
  have "only_file {a, b} w v \<and> (\<forall>n. r = Inr n \<longrightarrow> holds b bs v)"
  proof (cases "two_paths a b p q w")
    case True
    from copy_file_result[OF True assms(2,3)] show ?thesis by (blast intro: only_file_mono)
  next
    case False
    then have "env_ok w" "plain_end q" "resolve False w q = Inr b" "is_dirn (tget (fs w) b)"
      using assms(1) by (auto simp: placing_def)
    from copy_onto_dir[OF this assms(3)] show ?thesis by (auto simp: only_file_same)
  qed
  then show "only_file {a, b} w v" "r = Inr n \<Longrightarrow> holds b bs v" by auto
qed

definition placed :: "loc \<Rightarrow> loc \<Rightarrow> bytes \<Rightarrow> world \<Rightarrow> nat \<Rightarrow> world \<Rightarrow> bool" where
  "placed a b bs w st v \<longleftrightarrow>
     (\<forall>q. q \<noteq> a \<longrightarrow> q \<noteq> b \<longrightarrow> files (fs v) q = files (fs w) q) \<and> (st = 200 \<longrightarrow> holds b bs v)"

lemma placed_cleaned:
  assumes "placing a b p q w" and "only_file {a, b} w v" and "st = 200 \<longrightarrow> holds b bs v"
  shows "placed a b bs w st (snd (remove_file p v))"
proof -
  have "a \<noteq> b" using assms(1) by (auto simp: placing_def two_paths_def)
  moreover have "only_file {a} v (snd (remove_file p v))"
    by (rule clean_result) (rule placing_frame[OF assms(1,2)])
  ultimately show ?thesis using assms(2,3) holds_frame[of "{a}" v "snd (remove_file p v)" b bs]
    by (auto simp: placed_def only_file_def)
qed

lemma place_upload_result:
  assumes "two_paths a b p q (jw s)" and "holds a bs (jw s)" and "place_upload D S p q [] s = (r, t)"
  shows "placed a b bs (jw s) (r_status r) (jw t)"
proof -
  define s1 where "s1 = (case path_parent q of None \<Rightarrow> s | Some d \<Rightarrow> snd (on_world (create_dir_all d) s))"
  have e: "env_ok (jw s)" using assms(1) by (simp add: two_paths_def)
  have g: "grows (jw s) (jw s1)"
    using create_dir_all_grows[OF _ e]
    by (cases "path_parent q") (auto simp: s1_def on_world_simps intro: prod.collapse[symmetric])
  have pl: "placing a b p q (jw s1)" by (rule placing_grows[OF assms(1,2) g])
  have f: "files (fs (jw s1)) = files (fs (jw s))" using g by (simp add: grows_def)
  then have h: "holds a bs (jw s1)" using assms(2) by (simp add: holds_def)
  obtain r1 v where rn: "rename_path p q (jw s1) = (r1, v)" by fastforce
  note pm = place_moves[OF pl h rn]
  note cl = placed_cleaned[OF pl]
  have "placed a b bs (jw s1) (r_status r) (jw t)"
  proof (cases r1)
    case (Inr u)
    with assms(3) rn pm show ?thesis
      by (auto simp: place_upload_def Let_def s1_def[symmetric] on_world_simps placed_def only_file_def)
  next
    case (Inl x)
    show ?thesis
    proof (cases "kind_of x = CrossesDevices")
      case False
      with Inl assms(3) rn have "jw t = snd (remove_file p v)" "r_status r \<noteq> 200"
        by (auto simp: place_upload_def Let_def s1_def[symmetric] on_world_simps split: if_splits)
      with cl[OF pm(1)] show ?thesis by simp
    next
      case True
      obtain r2 u where cp: "copy_file p q v = (r2, u)" by fastforce
      have pv: "placing a b p q v" by (rule placing_frame[OF pl pm(1)])
      note pc = place_copies[OF pv _ cp]
      have hv: "holds a bs v" using pm(3) Inl by simp
      have o: "only_file {a, b} (jw s1) u" using only_file_trans[OF pm(1) pc(1)[OF hv]] .
      have "jw t = snd (remove_file p u)" "r_status r = 200 \<longrightarrow> \<not> isl r2"
        using assms(3) Inl True rn cp
        by (auto simp: place_upload_def Let_def s1_def[symmetric] on_world_simps split: sum.splits if_splits)
      moreover have "\<not> isl r2 \<Longrightarrow> holds b bs u" using pc(2)[OF hv] by (cases r2) auto
      ultimately show ?thesis using cl[OF o, of "r_status r"] by auto
    qed
  qed
  with f show ?thesis by (simp add: placed_def)
qed

text \<open>C10 An upload to the mover without a password, whatever frames arrive and whatever faults occur: only
  the destination and the temporary file change, and the answer 200 means that the destination
  holds exactly the data of the body.\<close>

theorem handle_put_correct:
  assumes "two_paths lt ld (put_tmp D nanos) dst (jw s)" and "ps ''dst'' = Some dst" and "param ps ''sudopass'' = []"
    and "handle_put D S nanos body ps s = (r, t)"
  shows "(\<forall>q. q \<noteq> lt \<longrightarrow> q \<noteq> ld \<longrightarrow> files (fs (jw t)) q = files (fs (jw s)) q) \<and>
    (r_status r = 200 \<longrightarrow> holds ld (body_data body) (jw t))"
proof -
  define tmp where "tmp = put_tmp D nanos"
  have dst: "param ps ''dst'' = dst" using assms(2) by (simp add: param_def)
  have tp: "two_paths ld lt dst tmp (jw s)" using two_paths_sym[OF assms(1)] by (simp add: tmp_def)
  have e: "env_ok (jw s)" using tp by (simp add: two_paths_def)
  obtain r1 w1 where c: "file_create tmp (jw s) = (r1, w1)" by fastforce
  note fc = file_create_result[OF tp c]
  show ?thesis
  proof (cases r1)
    case (Inl x)
    with c assms(4) fc(1) show ?thesis
      by (auto simp: handle_put_def Let_def tmp_def[symmetric] on_world_def only_file_def)
  next
    case (Inr l)
    note l = fc(2)[OF Inr]
    obtain r2 w2 where rc: "receive (d_env D) body \<lparr>tf_loc = l, tf_off = 0, tf_error = None\<rparr> w1 = (r2, w2)" by fastforce
    have "tokio_ok \<lparr>tf_loc = l, tf_off = 0, tf_error = None\<rparr> lt [] w1"
      using l only_file_env[OF fc(1) e] by (simp add: tokio_ok_def)
    note rr = receive_result[OF this rc]
    have o: "only_file {lt} (jw s) w2" using only_file_trans[OF fc(1) rr(1)] .
    have tp2: "two_paths lt ld tmp dst w2" using two_paths_frame[OF two_paths_sym[OF tp] o] .
    show ?thesis
    proof (cases r2)
      case (Inl x)
      have "placing lt ld tmp dst w2" using tp2 by (simp add: placing_def)
      from clean_result[OF this] o Inl assms(4) c Inr rc show ?thesis
        by (auto simp: handle_put_def Let_def tmp_def[symmetric] on_world_def only_file_def split: prod.splits)
    next
      case (Inr f)
      then have "holds lt (body_data body) w2" using rr(2) by simp
      moreover have "place_upload D S tmp dst [] (s\<lparr>jw := w2\<rparr>) = (r, t)"
        using assms(3,4) c \<open>r1 = Inr l\<close> rc Inr dst
        by (simp add: handle_put_def Let_def tmp_def[symmetric] on_world_def)
      ultimately have "placed lt ld (body_data body) w2 (r_status r) (jw t)"
        using place_upload_result[of lt ld tmp dst "s\<lparr>jw := w2\<rparr>"] tp2 by simp
      with o show ?thesis by (auto simp: placed_def only_file_def)
    qed
  qed
qed

text \<open>An upload with an empty body on the sample tree.\<close>

definition put_daemon :: daemon where
  "put_daemon = sample_daemon\<lparr>d_tmp_dir := ''/ext''\<rparr>"

lemma put_sample:
  "two_paths [''ext'', ''mover-7-5''] [''dst'', ''new''] (put_tmp put_daemon 5) ''/dst/new'' sample_world"
  "r_status (fst (handle_put put_daemon no_sudo 5 [Trailers] [''dst'' \<mapsto> ''/dst/new''] (sample_mover [] 1 []))) = 200"
  by code_simp+

lemma handle_put_correct_witness:
  "holds [''dst'', ''new''] []
     (jw (snd (handle_put put_daemon no_sudo 5 [Trailers] [''dst'' \<mapsto> ''/dst/new''] (sample_mover [] 1 []))))"
proof -
  let ?s = "sample_mover [] 1 []"
  obtain r t where h: "handle_put put_daemon no_sudo 5 [Trailers] [''dst'' \<mapsto> ''/dst/new''] ?s = (r, t)" by fastforce
  have w: "jw ?s = sample_world" by (simp add: sample_mover_def)
  have "param [''dst'' \<mapsto> ''/dst/new''] ''sudopass'' = []" by (simp add: param_def)
  from handle_put_correct[OF put_sample(1)[folded w] _ this h] put_sample(2) h
  show ?thesis by (simp add: body_data_def frame_data_def)
qed

end
