(* ===== verification/Tree_Move.thy ===== *)
theory Tree_Move
  imports Tree_Copy
begin

text \<open>
  A whole move job: on one drive the tree is renamed, across drives it is copied and then removed.
\<close>

section \<open>Removing the source tree\<close>

lemma del_each_quiet: "faults w = [] \<Longrightarrow> del_each ls w = (Inr (), w\<lparr>fs := foldl tdel (fs w) ls\<rparr>)"
  by (induction ls arbitrary: w) (simp_all add: sys_simps)

lemma tget_tdels: "\<forall>m \<in> set ls. m \<parallel> q \<Longrightarrow> tget (foldl tdel t ls) q = tget t q"
  by (induction ls arbitrary: t) (simp_all add: nt.get_del_par)

lemma remove_dir_all_quiet:
  assumes "faults w = []" and "resolve_leaf w p = Inr l" and "\<not> ends_in_dots p" and "l \<noteq> []"
    and "skel_of (tget (fs w) l) = SLeaf \<and> files (fs w) l = None \<or> is_dirn (tget (fs w) l)"
  shows "\<exists>r v. remove_dir_all p w = (r, v) \<and> tget (fs v) l = None \<and> (\<forall>q. l \<parallel> q \<longrightarrow> tget (fs v) q = tget (fs w) q) \<and>
    (\<forall>q. \<not> prefix l q \<longrightarrow> entry_in (fs v) q = entry_in (fs w) q)"
proof (cases "tget (fs w) l")
  case None
  with assms(1,2) show ?thesis by (simp add: remove_dir_all_def sys_simps)
next
  case (Some n)
  then obtain es where n: "n = Dir es"
    using assms(5) by (auto simp: skel_of_cases is_filen_iff files_def is_dirn_iff)
  define ls where "ls = post_order l (Dir es)"
  have rd: "remove_dir_all p w = (Inr (), w\<lparr>fs := foldl tdel (fs w) ls\<rparr>)"
    using assms(1-4) Some n by (simp add: remove_dir_all_def sys_simps del_each_quiet ls_def)
  have "foldl tdel (fs w) ls = tdel (foldl tdel (fs w) (concat (map (\<lambda>(s, n). post_order (l @ [s]) n) es))) l"
    by (simp add: ls_def)
  then have "tget (foldl tdel (fs w) ls) l = None" using assms(4) by (simp add: tget_tdel_same)
  moreover have below: "prefix l m" if "m \<in> set ls" for m
    using that unfolding ls_def by (rule post_order_below)
  have "tget (foldl tdel (fs w) ls) q = tget (fs w) q" if "l \<parallel> q" for q
    by (rule tget_tdels) (use that below in \<open>metis parallel_append prefix_def append_Nil2\<close>)
  moreover have "entry_in (foldl tdel (fs w) ls) q = entry_in (fs w) q" if "\<not> prefix l q" for q
    by (rule entry_tdels) (use that below prefix_order.trans in blast)
  ultimately show ?thesis using rd by simp
qed

section \<open>The rename of the whole tree\<close>

lemma fast_move_quiet:
  assumes "copyable src l n dst L (jw s)" and "\<not> prefix l L"
  shows "fast_move ''move'' True src dst s = (True, s\<lparr>jw := (jw s)\<lparr>fs := nt.move (fs (jw s)) l L\<rparr>\<rparr>)"
    and "l \<parallel> L" and "l \<noteq> []" and "L \<noteq> []"
proof -
  note c = copyableD[OF assms(1)]
  have nL: "\<not> prefix L l"
  proof
    assume "prefix L l"
    then obtain x where "l = L @ x" by (auto simp: prefix_def)
    with c(5,9) nt.get_below_None[of "fs (jw s)" L x] show False by simp
  qed
  with assms(2) show par: "l \<parallel> L" by (simp add: parallel_def)
  then show ne: "l \<noteq> []" "L \<noteq> []" by auto
  have "resolve True (jw s) dst = Inr L" using c(8,9) by (intro resolve_follow) auto
  then have ex: "path_exists dst (jw s) = (False, jw s)"
    using c(2,9) by (simp add: quiet_queries node_at_def)
  have "l \<noteq> L" using par by auto
  then have "rename_locs (fs (jw s)) l L = (Inr (), nt.move (fs (jw s)) l L)"
    using c(5,9) ne assms(2) nL by (simp add: rename_locs_def nt.move_def split: node.splits)
  then have "rename_path src dst (jw s) = (Inr (), (jw s)\<lparr>fs := nt.move (fs (jw s)) l L\<rparr>)"
    using c by (simp add: rename_path_def sys_simps resolve_leaf_plain, simp add: plain_end_def)
  then show "fast_move ''move'' True src dst s = (True, s\<lparr>jw := (jw s)\<lparr>fs := nt.move (fs (jw s)) l L\<rparr>\<rparr>)"
    using ex by (simp add: fast_move_def on_world_def)
qed

definition tree_moved :: "node \<Rightarrow> loc \<Rightarrow> loc \<Rightarrow> world \<Rightarrow> world \<Rightarrow> bool" where
  "tree_moved n l L w v \<longleftrightarrow> tree_copied n L v \<and> tget (fs v) l = None \<and>
     (\<forall>q. \<not> prefix L q \<longrightarrow> \<not> prefix l q \<longrightarrow> entry_in (fs v) q = entry_in (fs w) q)"

lemma renamed_moved:
  assumes "copyable src l n dst L w" and "\<not> prefix l L" and "fs v = nt.move (fs w) l L" and "l \<parallel> L" "l \<noteq> []" "L \<noteq> []"
  shows "tree_moved n l L w v"
proof -
  note c = copyableD[OF assms(1)]
  have d: "is_dirn (tget (fs w) (butlast L))"
    using resolve_dir_above[OF c(1,8)] assms(6) by (simp add: dir_above_def)
  have L: "tget (fs v) L = Some n" using nt.move_dest[OF c(5) assms(4,6) d] assms(3) by simp
  then have at: "tget (fs v) (L @ r) = tget n r" for r by (simp add: tget_append)
  have nl: "tget n r \<noteq> Some (Symlink x)" for r x using c(6) plain_no_link by blast
  have "tree_copied n L v"
    unfolding tree_copied_def using at nl
    by (auto simp: holds_def files_Some is_dirn_iff split: option.splits node.splits)
  moreover have "tget (fs v) l = None" using nt.move_source[OF c(5) assms(4,5)] assms(3) by simp
  moreover have "entry_in (fs v) q = entry_in (fs w) q" if "\<not> prefix L q" "\<not> prefix l q" for q
    using entry_move[OF that(2,1) d assms(4,6)] assms(3) by simp
  ultimately show ?thesis by (simp add: tree_moved_def)
qed

text \<open>The source of a copied tree, removed once every file has arrived.\<close>

lemma emptied_moved:
  assumes "copyable src l n dst L w" and "\<not> prefix l L" and "tree_copied n L u"
    and "\<And>q. \<not> prefix L q \<Longrightarrow> \<not> prefix l q \<Longrightarrow> entry_in (fs u) q = entry_in (fs w) q"
    and "faults u = []" and "resolve False u src = Inr l" and "l \<parallel> L" and "l \<noteq> []"
    and "skel_of (tget (fs u) l) = SLeaf \<and> files (fs u) l = None \<or> is_dirn (tget (fs u) l)"
  shows "tree_moved n l L w (snd (remove_dir_all src u))"
proof -
  note c = copyableD[OF assms(1)]
  have leaf: "resolve_leaf u src = Inr l" "\<not> ends_in_dots src"
    using c(3) assms(6) by (simp_all add: resolve_leaf_plain, simp add: plain_end_def)
  obtain r v where rv: "remove_dir_all src u = (r, v)" "tget (fs v) l = None"
    "\<And>q. l \<parallel> q \<Longrightarrow> tget (fs v) q = tget (fs u) q" "\<And>q. \<not> prefix l q \<Longrightarrow> entry_in (fs v) q = entry_in (fs u) q"
    using remove_dir_all_quiet[OF assms(5) leaf assms(8,9)] by blast
  have par: "l \<parallel> L @ x" for x using assms(7) using parallel_append[of l L "[]" x] by simp
  have "tree_copied n L v"
    using assms(3) unfolding tree_copied_def holds_def files_def rv(3)[OF par] .
  moreover have "entry_in (fs v) q = entry_in (fs w) q" if "\<not> prefix L q" "\<not> prefix l q" for q
    using rv(4)[OF that(2)] assms(4)[OF that] by simp
  ultimately show ?thesis using rv by (simp add: tree_moved_def)
qed

section \<open>The job\<close>

text \<open>The copy stage of a move across drives.\<close>

lemma move_across:
  assumes "copyable src l n dst L (jw s)" and "map_of (jobs s) jid = Some j0" and "\<not> prefix l L" and "l \<parallel> L" "l \<noteq> []"
    and "tree_height n < depth" and "done_files j0 = 0"
    and "path_drive [fst (roots E), snd (roots E)] src \<noteq> path_drive [fst (roots E), snd (roots E)] dst"
    and "run_job E depth cpus sched jid ''move'' src dst s = Some s'"
  shows "\<exists>j. map_of (jobs s') jid = Some j \<and> status j = ''done'' \<and> job_error j = job_error j0 \<and>
            done_files j = of_nat (length (tree_files n))"
    and "tree_moved n l L (jw s) (jw s')"
proof -
  note c = copyableD[OF assms(1)]
  define t where "t = tree_transfer jid ''move'' False src dst n"
  define s2 where "s2 = make_dirs jid dst (map (path_at []) (tree_dirs n))
        (job_update jid (\<lambda>j. j\<lparr>total_files := of_nat (length (tree_files n)),
             total_dirs := of_nat (length (tree_dirs n)), total_bytes := of_nat (tree_bytes n)\<rparr>)
          (job_update jid (\<lambda>j. j\<lparr>status := ''running''\<rparr>) s))"
  have ta: "transfer_all E cpus sched t src s2 = Some s'"
    using run_job_plan[OF assms(1,6), where same = False and opn = "''move''" and E = E] assms(8,9) by (simp add: t_def s2_def)
  have B: "built dst L (jw s) (set (tree_dirs n)) (jw s2)"
    by (rule planned(1)[OF assms(1,2) s2_def]) simp
  obtain j1 where j1: "map_of (jobs s2) jid = Some j1" "done_files j1 = done_files j0" "job_error j1 = job_error j0"
    using planned(2)[OF assms(1,2) s2_def] by auto
  define p where "p = final_pool E cpus sched t s2"
  have len: "t_id t = jid" "t_op t = ''move''" by (simp_all add: t_def tree_transfer_def)
  have e: "all_exited p"
    using ta unfolding transfer_all_def final_pool_def[symmetric] p_def[symmetric] by (auto simp: Let_def split: if_splits)
  note tp = tree_pool[OF assms(1) B j1(1) p_def[unfolded t_def] e]
  have failed: "failed (p_state p) = 0" and q: "faults (jw (p_state p)) = []" using tp(3) by (simp_all add: calm_def)
  have s': "s' = job_update jid (\<lambda>j. j\<lparr>status := ''done''\<rparr>) (snd (on_world (remove_dir_all src) (job_state.truncate (p_state p))))"
    using ta e failed len unfolding transfer_all_def final_pool_def[symmetric] p_def[symmetric] by (simp add: Let_def)
  obtain j where "map_of (jobs (p_state p)) jid = Some j" "job_error j = job_error j1"
    "done_files j = done_files j1 + of_nat (length (tree_files n))" using tp(2) by blast
  then show "\<exists>j. map_of (jobs s') jid = Some j \<and> status j = ''done'' \<and> job_error j = job_error j0 \<and>
            done_files j = of_nat (length (tree_files n))"
    using j1 s' assms(7) by (intro exI[of _ "j\<lparr>status := ''done''\<rparr>"]) (simp add: map_of_reg_update on_world_simps)
  have "resolve False (jw s2) src = Inr l" using B c(4) by (auto simp: built_def intro: resolve_grows_any)
  then have rs: "resolve False (jw (p_state p)) src = Inr l" using tp(4,5) resolve_skel by blast
  have g: "grows (jw s) (jw s2)" using B by (simp add: built_def)
  have sk: "skel_of (tget (fs (jw (p_state p))) l) = skel_of (tget (fs (jw s2)) l)"
    using tp(4) by (simp add: skel_eq_def)
  have src: "skel_of (tget (fs (jw (p_state p))) l) = SLeaf \<and> files (fs (jw (p_state p))) l = None \<or>
      is_dirn (tget (fs (jw (p_state p))) l)"
  proof (cases n)
    case (File d)
    then have "files (fs (jw s2)) l = Some d" using g c(5) by (simp add: grows_def files_Some)
    then have "skel_of (tget (fs (jw s2)) l) = SLeaf" by (rule files_leaf)
    moreover have "files (fs (jw (p_state p))) (l @ []) = None" using tp(7)[of "[]"] File by simp
    ultimately show ?thesis using sk by simp
  next
    case (Dir es)
    then have "is_dirn (tget (fs (jw s2)) l)" using g c(5) by (simp add: grows_def)
    then show ?thesis using sk by (metis skel_of_cases(1))
  next
    case (Symlink x)
    then show ?thesis using c(6) by simp
  qed
  have "tree_moved n l L (jw s) (snd (remove_dir_all src (jw (p_state p))))"
    by (rule emptied_moved[OF assms(1,3) tp(1) tp(6)[OF _ disjI2] q rs assms(4,5) src])
  then show "tree_moved n l L (jw s) (jw s')" using s' by (simp add: on_world_simps)
qed

text \<open>C5 Moving a tree of files and directories without links to a place where nothing is yet and which is
  not inside the tree itself, on the same drive or across drives, when no faults occur: whenever the
  job ends, under every interleaving of its workers, the destination holds exactly the tree, nothing
  is left at the source; at every location that is neither at or below the source nor at or below
  the destination there is exactly what was there before, be it nothing, a directory, a link or a file
  with its data, mode and attributes; every file is counted and no error is noted.\<close>

theorem move_tree:
  assumes "copyable src l n dst L (jw s)" and "\<not> prefix l L" and "tree_height n < depth"
    and "map_of (jobs s) jid = Some j0" and "done_files j0 = 0"
    and "run_job E depth cpus sched jid ''move'' src dst s = Some s'"
  shows "(\<exists>j. map_of (jobs s') jid = Some j \<and> status j = ''done'' \<and> job_error j = job_error j0 \<and>
            done_files j = of_nat (length (tree_files n))) \<and>
    (\<forall>r. case tget n r of
       Some (File d) \<Rightarrow> holds (L @ r) (fbytes d) (jw s')
     | Some (Dir es) \<Rightarrow> is_dirn (tget (fs (jw s')) (L @ r))
     | _ \<Rightarrow> tget (fs (jw s')) (L @ r) = None) \<and>
    tget (fs (jw s')) l = None \<and>
    (\<forall>q. \<not> prefix L q \<longrightarrow> \<not> prefix l q \<longrightarrow> entry_in (fs (jw s')) q = entry_in (fs (jw s)) q)"
proof -
  note fm = fast_move_quiet[OF assms(1,2)]
  have "(\<exists>j. map_of (jobs s') jid = Some j \<and> status j = ''done'' \<and> job_error j = job_error j0 \<and>
            done_files j = of_nat (length (tree_files n))) \<and> tree_moved n l L (jw s) (jw s')"
  proof (cases "path_drive [fst (roots E), snd (roots E)] src = path_drive [fst (roots E), snd (roots E)] dst")
    case True
    note c = copyableD[OF assms(1)]
    define s1 where "s1 = job_update jid (\<lambda>j. j\<lparr>total_files := of_nat (length (tree_files n)),
             total_dirs := of_nat (length (tree_dirs n)), total_bytes := of_nat (tree_bytes n)\<rparr>)
          (job_update jid (\<lambda>j. j\<lparr>status := ''running''\<rparr>) s)"
    have wf: "walk_files depth src [] no_files (jw s) = Some (Inr (), found src [] n no_files, jw s)"
      using walk_files_finds[OF c(2,10,5,6) assms(3)] c(4) by blast
    have same: "s\<lparr>jw := jw s\<rparr> = s" by simp
    have w1: "jw s1 = jw s" by (simp add: s1_def)
    have "fast_move ''move'' True src dst s1 = (True, s1\<lparr>jw := (jw s)\<lparr>fs := nt.move (fs (jw s)) l L\<rparr>\<rparr>)"
      using fast_move_quiet(1)[of src l n dst L s1] assms(1,2) w1 by simp
    then have s': "s' = job_update jid (\<lambda>j. j\<lparr>done_files := total_files j, done_dirs := total_dirs j,
           done_bytes := total_bytes j, status := ''done''\<rparr>) (s1\<lparr>jw := (jw s)\<lparr>fs := nt.move (fs (jw s)) l L\<rparr>\<rparr>)"
      using assms(6) wf unfolding run_job_def Let_def True s1_def
      by (simp add: found_def no_files_def job_update_def)
    have "tree_moved n l L (jw s) (jw s')"
      by (rule renamed_moved[OF assms(1,2) _ fm(2,3,4)]) (simp add: s')
    moreover have "\<exists>j. map_of (jobs s') jid = Some j \<and> status j = ''done'' \<and> job_error j = job_error j0 \<and>
            done_files j = of_nat (length (tree_files n))"
      using assms(4) by (simp add: s' s1_def map_of_reg_update)
    ultimately show ?thesis by blast
  next
    case False
    show ?thesis
      using move_across[OF assms(1,4,2) fm(2,3) assms(3,5) False assms(6)] by blast
  qed
  then show ?thesis unfolding tree_moved_def tree_copied_def by blast
qed

text \<open>Moving a tree from one drive below the mount to another with two workers.\<close>

definition drives_world :: world where
  "drives_world = \<lparr>fs = Dir [(''webdav'', Dir [(''one'', Dir [(''d'', sample_src)]), (''two'', Dir [])])],
     cwd = [], umask = 0x12, faults = []\<rparr>"

definition drives_env :: mover_env where
  "drives_env = sample_env\<lparr>env_home := Some ''/''\<rparr>"

definition drives_state :: job_state where
  "drives_state = \<lparr>jw = drives_world, jobs = [(1, new_job ''move'' ''/webdav/one/d'' ''/webdav/two/d'')]\<rparr>"

lemma drives_copyable:
  "copyable ''/webdav/one/d'' [''webdav'', ''one'', ''d''] sample_src ''/webdav/two/d'' [''webdav'', ''two'', ''d''] (jw drives_state)"
proof -
  have "plain_end ''/webdav/one/d''" "resolve False drives_world ''/webdav/one/d'' = Inr [''webdav'', ''one'', ''d'']"
    "plain_end ''/webdav/two/d''" "resolve False drives_world ''/webdav/two/d'' = Inr [''webdav'', ''two'', ''d'']"
    "tget (fs drives_world) [''webdav'', ''two'', ''d''] = None" "env_ok drives_world"
    by code_simp+
  moreover have "plain_tree sample_src"
    by (simp add: sample_src_def plain_file_def plain_name_def)
  ultimately show ?thesis
    by (simp add: copyable_def drives_state_def, simp add: drives_world_def)
qed

lemma drives_differ:
  "path_drive [fst (roots drives_env), snd (roots drives_env)] ''/webdav/one/d'' \<noteq>
   path_drive [fst (roots drives_env), snd (roots drives_env)] ''/webdav/two/d''"
  by code_simp

lemma drives_move_ends:
  "run_job drives_env 4 (Some 2) sample_sched 1 ''move'' ''/webdav/one/d'' ''/webdav/two/d'' drives_state \<noteq> None"
proof -
  have h: "tree_height sample_src < 4" by (simp add: sample_src_def plain_file_def)
  have same: "False = (path_drive [fst (roots drives_env), snd (roots drives_env)] ''/webdav/one/d'' =
      path_drive [fst (roots drives_env), snd (roots drives_env)] ''/webdav/two/d'')"
    using drives_differ by simp
  have op: "''move'' \<noteq> ''move'' \<or> \<not> False" by simp
  show ?thesis
    unfolding run_job_plan[OF drives_copyable h op same] by code_simp
qed

lemma move_tree_witness:
  "\<exists>s'. run_job drives_env 4 (Some 2) sample_sched 1 ''move'' ''/webdav/one/d'' ''/webdav/two/d'' drives_state = Some s' \<and>
     holds [''webdav'', ''two'', ''d'', ''sub'', ''b.txt''] [4] (jw s') \<and> tget (fs (jw s')) [''webdav'', ''one'', ''d''] = None"
proof -
  obtain s' where s': "run_job drives_env 4 (Some 2) sample_sched 1 ''move'' ''/webdav/one/d'' ''/webdav/two/d'' drives_state = Some s'"
    using drives_move_ends by auto
  have h: "tree_height sample_src < 4" by (simp add: sample_src_def plain_file_def)
  have m: "map_of (jobs drives_state) 1 = Some (new_job ''move'' ''/webdav/one/d'' ''/webdav/two/d'')"
    by (simp add: drives_state_def)
  have nl: "\<not> prefix [''webdav'', ''one'', ''d''] [''webdav'', ''two'', ''d'']" by simp
  have d: "done_files (new_job ''move'' ''/webdav/one/d'' ''/webdav/two/d'') = 0" by (simp add: new_job_def)
  have g: "tget sample_src [''sub'', ''b.txt''] = Some (plain_file [4])" by (simp add: sample_src_def)
  note mt = move_tree[OF drives_copyable nl h m d s']
  from mt have "case tget sample_src [''sub'', ''b.txt''] of
       Some (File d) \<Rightarrow> holds ([''webdav'', ''two'', ''d''] @ [''sub'', ''b.txt'']) (fbytes d) (jw s')
     | Some (Dir es) \<Rightarrow> is_dirn (tget (fs (jw s')) ([''webdav'', ''two'', ''d''] @ [''sub'', ''b.txt'']))
     | _ \<Rightarrow> tget (fs (jw s')) ([''webdav'', ''two'', ''d''] @ [''sub'', ''b.txt'']) = None" by blast
  moreover have "tget (fs (jw s')) [''webdav'', ''one'', ''d''] = None" using mt by blast
  ultimately show ?thesis using g s' by (simp add: plain_file_def)
qed

end
