(* ===== verification/Auth.thy ===== *)
theory Auth
  imports Prelude
begin

text \<open>
  \<open>src/auth.rs\<close>: HTTP Basic authentication.  Headers are a map from lower-case names to values.
  The crates are the fields of \<open>auth_libs\<close>: \<open>HeaderValue::to_str\<close>, base64 decoding and the
  constant-time comparison of \<open>subtle\<close>, whose documented behaviour is \<open>ct_eq_ok\<close>.
\<close>

section \<open>Model\<close>

type_synonym headers = "string \<rightharpoonup> bytes"

record auth_libs =
  al_to_str :: "bytes \<Rightarrow> string option"
  al_base64 :: "string \<Rightarrow> bytes option"
  al_ct_eq :: "bytes \<Rightarrow> bytes \<Rightarrow> bool"

record basic_auth =
  ba_user :: bytes
  ba_pass :: bytes
  ba_realm :: string

record http_reply =
  h_status :: nat
  h_headers :: "(string \<times> string) list"
  h_body :: bytes

definition auth_new :: "bytes \<Rightarrow> bytes \<Rightarrow> string \<Rightarrow> basic_auth" where
  "auth_new user pass realm = \<lparr>ba_user = user, ba_pass = pass, ba_realm = realm\<rparr>"

definition is_authorized :: "auth_libs \<Rightarrow> basic_auth \<Rightarrow> headers \<Rightarrow> bool" where
  "is_authorized L a hs =
     (case Option.bind (hs ''authorization'') (al_to_str L) of
        None \<Rightarrow> False
      | Some v \<Rightarrow>
          (case strip_prefix ''Basic '' v of
             None \<Rightarrow> False
           | Some encoded \<Rightarrow>
               (case al_base64 L encoded of
                  None \<Rightarrow> False
                | Some decoded \<Rightarrow>
                    (case split_once 58 decoded of
                       None \<Rightarrow> False
                     | Some (user, pass) \<Rightarrow>
                         (let user_ok = (length user = length (ba_user a) \<and> al_ct_eq L user (ba_user a));
                              pass_ok = (length pass = length (ba_pass a) \<and> al_ct_eq L pass (ba_pass a))
                          in user_ok \<and> pass_ok)))))"

definition challenge :: "basic_auth \<Rightarrow> http_reply" where
  "challenge a = \<lparr>h_status = 401,
     h_headers = [(''www-authenticate'', ''Basic realm='' @ [CHR 0x22] @ ba_realm a @ [CHR 0x22] @
                                         '', charset='' @ [CHR 0x22] @ ''UTF-8'' @ [CHR 0x22]),
                  (''content-length'', ''0'')],
     h_body = []\<rparr>"

text \<open>\<open>subtle\<close>: \<open>ct_eq\<close> of slices is true exactly on equal slices.\<close>

definition ct_eq_ok :: "auth_libs \<Rightarrow> bool" where
  "ct_eq_ok L \<longleftrightarrow> (\<forall>a b. al_ct_eq L a b = (a = b))"

section \<open>Who is let in\<close>

text \<open>The credentials a request carries.\<close>

definition credentials :: "auth_libs \<Rightarrow> headers \<Rightarrow> bytes option" where
  "credentials L hs =
     Option.bind (Option.bind (Option.bind (hs ''authorization'') (al_to_str L)) (strip_prefix ''Basic '')) (al_base64 L)"

lemma is_authorized_credentials:
  assumes "ct_eq_ok L"
  shows "is_authorized L a hs \<longleftrightarrow>
    credentials L hs = Some (ba_user a @ 58 # ba_pass a) \<and> 58 \<notin> set (ba_user a)"
proof -
  have "is_authorized L a hs \<longleftrightarrow> (\<exists>d. credentials L hs = Some d \<and> split_once 58 d = Some (ba_user a, ba_pass a))"
    using assms
    by (auto simp: is_authorized_def credentials_def ct_eq_ok_def Let_def split: option.splits Option.bind_splits)
  then show ?thesis by (auto simp: split_once_Some)
qed

text \<open>C25 A request passes exactly when its Basic credentials decode to user, colon, password with a user
  name free of colons: a user name with a colon never passes, whatever the client sends.\<close>

theorem authorized_iff:
  assumes "ct_eq_ok L"
  shows "is_authorized L (auth_new user pass realm) hs \<longleftrightarrow>
    credentials L hs = Some (user @ 58 # pass) \<and> 58 \<notin> set user"
  using is_authorized_credentials[OF assms] by (simp add: auth_new_def)

text \<open>A concrete instance: base64 as the identity on bytes.\<close>

definition plain_auth_libs :: auth_libs where
  "plain_auth_libs = \<lparr>al_to_str = (\<lambda>v. Some (bytes_str v)), al_base64 = (\<lambda>s. Some (str_bytes s)),
     al_ct_eq = (=)\<rparr>"

lemma plain_auth_libs_ok: "ct_eq_ok plain_auth_libs"
  by (simp add: ct_eq_ok_def plain_auth_libs_def)

definition sample_headers :: headers where
  "sample_headers = [''authorization'' \<mapsto> str_bytes ''Basic kio:p:w'']"

lemma sample_credentials: "credentials plain_auth_libs sample_headers = Some (str_bytes ''kio:p:w'')"
  by code_simp

lemma authorized_iff_witness:
  "is_authorized plain_auth_libs (auth_new (str_bytes ''kio'') (str_bytes ''p:w'') []) sample_headers"
  by (subst authorized_iff[OF plain_auth_libs_ok]) (simp add: sample_credentials str_bytes_def)

end
