(* ===== verification/Config.thy ===== *)
theory Config
  imports Paths
begin

text \<open>
  \<open>src/config.rs\<close>: the configuration record (parsed by \<open>clap\<close>, which also fills in the defaults)
  and its validation.  Strings that are compared as credentials are kept as they are.
\<close>

record config =
  bind_addr :: string
  root :: path
  prefix_opt :: string
  cert :: path
  key :: path
  no_tls :: bool
  gen_cert :: bool
  cert_san :: string
  auth_user :: "string option"
  auth_pass :: "string option"
  principal :: string
  create_parents :: bool
  atomic_writes :: bool
  fsync :: bool
  keepalive_secs :: u64
  log_file :: "path option"
  target_ip :: "string option"
  update_secret :: "string option"
  update_cmd :: path
  verbose :: bool

definition config_defaults :: config where
  "config_defaults =
     \<lparr>bind_addr = ''0.0.0.0:8443'', root = ''/srv/webdav'', prefix_opt = [],
      cert = ''certs/server.crt'', key = ''certs/server.key'', no_tls = False, gen_cert = False,
      cert_san = ''localhost,0.0.0.0,::1'', auth_user = None, auth_pass = None,
      principal = ''nzk-webdavs'', create_parents = True, atomic_writes = True, fsync = False,
      keepalive_secs = 60, log_file = None, target_ip = None, update_secret = None,
      update_cmd = ''scripts/update.sh'', verbose = False\<rparr>"

definition validate :: "config \<Rightarrow> string + unit" where
  "validate c =
     (if (auth_user c \<noteq> None) \<noteq> (auth_pass c \<noteq> None)
      then Inl ''--auth-user and --auth-pass must be set together (or neither)''
      else if no_tls c \<and> gen_cert c
      then Inl ''--gen-cert is meaningless together with --no-tls''
      else Inr ())"

lemma validate_ok:
  "validate c = Inr () \<longleftrightarrow> (auth_user c = None \<longleftrightarrow> auth_pass c = None) \<and> \<not> (no_tls c \<and> gen_cert c)"
  by (cases "auth_user c"; cases "auth_pass c") (auto simp: validate_def)

end
