(* ===== verification/Tls.thy ===== *)
theory Tls
  imports File_Laws Config
begin

text \<open>
  \<open>src/tls.rs\<close>: loading the identity, the guard that keeps the certificate and key out of the
  served root, building the server configuration and generating a self-signed certificate.
  PEM parsing, \<open>rustls\<close> and \<open>rcgen\<close> are the fields of \<open>tls_libs\<close>; an \<open>anyhow\<close> error is the context
  it was given (the outermost message).
\<close>

section \<open>Libraries and errors\<close>

record ('c, 'k, 's) tls_libs =
  tl_certs :: "bytes \<Rightarrow> 'c list option"
  tl_key :: "bytes \<Rightarrow> 'k option option"
  tl_versions :: bool
  tl_single_cert :: "'c list \<Rightarrow> 'k \<Rightarrow> 's option"
  tl_generate :: "string list \<Rightarrow> (bytes \<times> bytes) option"

definition with_context :: "string \<Rightarrow> ('e + 'a) \<times> 'w \<Rightarrow> (string + 'a) \<times> 'w" where
  "with_context msg r = (case r of (Inl e, w) \<Rightarrow> (Inl msg, w) | (Inr x, w) \<Rightarrow> (Inr x, w))"

text \<open>Reading through a \<open>BufReader\<close> to the end, in chunks of 8 KiB.\<close>

definition rd_buf :: nat where "rd_buf = 8192"

definition unread :: "loc \<Rightarrow> nat \<Rightarrow> world \<Rightarrow> nat" where
  "unread l off w = (case files (fs w) l of Some d \<Rightarrow> length (fbytes d) - off | None \<Rightarrow> 0)"

lemma read_at_unread:
  assumes "read_at l off n w = (Inr b, w1)" and "b \<noteq> []"
  shows "unread l (off + length b) w1 < unread l off w"
proof -
  note ra = read_at_cases[OF assms(1)]
  obtain d where d: "files (fs w) l = Some d" "b = take n (drop off (fbytes d))"
    using ra(3) assms(2) by (auto split: option.splits)
  with assms(2) have "off + length b \<le> length (fbytes d)" "0 < length b" by auto
  then show ?thesis using ra(1) d(1) by (simp add: unread_def del: length_greater_0_conv)
qed

function read_to_end :: "loc \<Rightarrow> nat \<Rightarrow> bytes io" where
  "read_to_end l off w =
     (case read_at l off rd_buf w of
        (Inl e, w1) \<Rightarrow> (Inl e, w1)
      | (Inr b, w1) \<Rightarrow>
          if b = [] then (Inr [], w1)
          else (case read_to_end l (off + length b) w1 of
                  (Inl e, w2) \<Rightarrow> (Inl e, w2)
                | (Inr c, w2) \<Rightarrow> (Inr (b @ c), w2)))"
  by pat_completeness auto
termination
  by (relation "measure (\<lambda>(l, off, w). unread l off w)") (auto intro: read_at_unread[OF sym])

declare read_to_end.simps [simp del]

text \<open>\<open>fs::write\<close>: create or truncate, then write.\<close>

definition fs_write :: "path \<Rightarrow> bytes \<Rightarrow> unit io" where
  "fs_write p data w =
     (case file_create p w of
        (Inl e, w1) \<Rightarrow> (Inl e, w1)
      | (Inr l, w1) \<Rightarrow> write_all l 0 data w1)"

section \<open>The identity\<close>

definition load_certs :: "('c, 'k, 's) tls_libs \<Rightarrow> path \<Rightarrow> world \<Rightarrow> (string + 'c list) \<times> world" where
  "load_certs T p w =
     (case file_open p w of
        (Inl e, w1) \<Rightarrow> (Inl (''open certificate '' @ p), w1)
      | (Inr l, w1) \<Rightarrow>
          (case read_to_end l 0 w1 of
             (Inl e, w2) \<Rightarrow> (Inl (''parse certificate '' @ p), w2)
           | (Inr b, w2) \<Rightarrow>
               (case tl_certs T b of
                  None \<Rightarrow> (Inl (''parse certificate '' @ p), w2)
                | Some cs \<Rightarrow> if cs = [] then (Inl (''no certificates found in '' @ p), w2)
                             else (Inr cs, w2))))"

text \<open>
  \<open>load_key\<close> reads the whole file and hands it to the parser \<open>tl_key\<close>; \<open>rustls_pemfile::private_key\<close>
  reads while it parses and stops after the first key.  The results are the same, except that an
  error of the device in the part after the key is an error here and is not noticed there.
\<close>

definition load_key :: "('c, 'k, 's) tls_libs \<Rightarrow> path \<Rightarrow> world \<Rightarrow> (string + 'k) \<times> world" where
  "load_key T p w =
     (case file_open p w of
        (Inl e, w1) \<Rightarrow> (Inl (''open private key '' @ p), w1)
      | (Inr l, w1) \<Rightarrow>
          (case read_to_end l 0 w1 of
             (Inl e, w2) \<Rightarrow> (Inl (''parse private key '' @ p), w2)
           | (Inr b, w2) \<Rightarrow>
               (case tl_key T b of
                  None \<Rightarrow> (Inl (''parse private key '' @ p), w2)
                | Some None \<Rightarrow> (Inl (''no private key found in '' @ p), w2)
                | Some (Some k) \<Rightarrow> (Inr k, w2))))"

definition load_identity :: "('c, 'k, 's) tls_libs \<Rightarrow> path \<Rightarrow> path \<Rightarrow> world \<Rightarrow> (string + 'c list \<times> 'k) \<times> world" where
  "load_identity T c k w =
     (case load_certs T c w of
        (Inl e, w1) \<Rightarrow> (Inl e, w1)
      | (Inr cs, w1) \<Rightarrow>
          (case load_key T k w1 of
             (Inl e, w2) \<Rightarrow> (Inl e, w2)
           | (Inr pk, w2) \<Rightarrow> (Inr (cs, pk), w2)))"

definition build_server_config :: "('c, 'k, 's) tls_libs \<Rightarrow> path \<Rightarrow> path \<Rightarrow> world \<Rightarrow> (string + 's) \<times> world" where
  "build_server_config T c k w =
     (case load_identity T c k w of
        (Inl e, w1) \<Rightarrow> (Inl e, w1)
      | (Inr (cs, pk), w1) \<Rightarrow>
          if \<not> tl_versions T then (Inl ''configure TLS protocol versions'', w1)
          else case tl_single_cert T cs pk of
                 None \<Rightarrow> (Inl ''install certificate / private key'', w1)
               | Some s \<Rightarrow> (Inr s, w1))"

section \<open>The guard\<close>

definition canon_or_parent :: "path \<Rightarrow> world \<Rightarrow> path \<times> world" where
  "canon_or_parent p w =
     (case canonicalize p w of
        (Inr c, w1) \<Rightarrow> (c, w1)
      | (Inl e, w1) \<Rightarrow>
          (case path_parent p of
             None \<Rightarrow> (p, w1)
           | Some d \<Rightarrow>
               (case canonicalize d w1 of
                  (Inr c, w2) \<Rightarrow> (c, w2)
                | (Inl e, w2) \<Rightarrow> (p, w2))))"

definition guard_message :: "string \<Rightarrow> path \<Rightarrow> path \<Rightarrow> string" where
  "guard_message kind p r =
     ''TLS '' @ kind @ '' at '' @ p @ '' resolves inside the WebDAV root '' @ r @
     '' and would be served to clients. Move it outside the root (e.g. /etc/nzk-webdavs/) '' @
     ''and update NZK_WEBDAVS_CERT / NZK_WEBDAVS_KEY.''"

fun guard_each :: "path \<Rightarrow> (string \<times> path) list \<Rightarrow> world \<Rightarrow> (string + unit) \<times> world" where
  "guard_each r [] w = (Inr (), w)"
| "guard_each r ((kind, p) # ps) w =
     (case canon_or_parent p w of
        (c, w1) \<Rightarrow> if path_starts_with c r then (Inl (guard_message kind p r), w1) else guard_each r ps w1)"

definition guard_certs_outside_root :: "config \<Rightarrow> world \<Rightarrow> (string + unit) \<times> world" where
  "guard_certs_outside_root c w =
     (if no_tls c then (Inr (), w)
      else case canonicalize (root c) w of
             (Inl e, w1) \<Rightarrow> (Inl (''resolve WebDAV root '' @ root c), w1)
           | (Inr r, w1) \<Rightarrow> guard_each r [(''certificate'', cert c), (''private key'', key c)] w1)"

section \<open>Generating a certificate\<close>

definition san_list :: "string \<Rightarrow> string list" where
  "san_list s = filter (\<lambda>x. x \<noteq> []) (map trim (split_on (CHR '','') s))"

definition create_parent :: "path \<Rightarrow> world \<Rightarrow> (string + unit) \<times> world" where
  "create_parent p w =
     (case path_parent p of
        None \<Rightarrow> (Inr (), w)
      | Some d \<Rightarrow> with_context (''create '' @ d) (create_dir_all d w))"

text \<open>Sequencing with the error of the first step that fails.\<close>

definition and_then :: "(string + 'a) \<times> 'w \<Rightarrow> ('a \<Rightarrow> 'w \<Rightarrow> (string + 'b) \<times> 'w) \<Rightarrow> (string + 'b) \<times> 'w" where
  "and_then r k = (case r of (Inl e, w) \<Rightarrow> (Inl e, w) | (Inr x, w) \<Rightarrow> k x w)"

definition generate_self_signed :: "('c, 'k, 's) tls_libs \<Rightarrow> config \<Rightarrow> world \<Rightarrow> (string + unit) \<times> world" where
  "generate_self_signed T c w =
     (case tl_generate T (san_list (cert_san c)) of
        None \<Rightarrow> (Inl ''generate certificate'', w)
      | Some (cert_pem, key_pem) \<Rightarrow>
          and_then (create_parent (cert c) w) (\<lambda>_ w1.
          and_then (create_parent (key c) w1) (\<lambda>_ w2.
          and_then (with_context (''write '' @ cert c) (fs_write (cert c) cert_pem w2)) (\<lambda>_ w3.
          and_then (with_context (''write '' @ key c) (fs_write (key c) key_pem w3)) (\<lambda>_ w4.
            with_context (''chmod '' @ key c) (set_permissions (key c) 0x180 w4))))))"

end
