(* ===== verification/Logging.thy ===== *)
theory Logging
  imports File_Laws
begin

text \<open>
  \<open>src/logging.rs\<close>: levels, the choice of the level, the line of a record, the two outputs of
  the logger, and the UTC timestamps.  What is printed on standard error is returned; the clock
  is an argument.  \<open>i64\<close> and \<open>u64\<close> are integers and naturals: the numbers of \<open>civil_from_days\<close>
  stay far below the widths for every \<open>u64\<close> timestamp.
\<close>

section \<open>Levels\<close>

datatype level = Off | Error | Warn | Info | Debug | Trace

primrec level_rank :: "level \<Rightarrow> nat" where
  "level_rank Off = 0"
| "level_rank Error = 1"
| "level_rank Warn = 2"
| "level_rank Info = 3"
| "level_rank Debug = 4"
| "level_rank Trace = 5"

instantiation level :: linorder
begin

definition less_eq_level :: "level \<Rightarrow> level \<Rightarrow> bool" where
  "less_eq_level a b = (level_rank a \<le> level_rank b)"

definition less_level :: "level \<Rightarrow> level \<Rightarrow> bool" where
  "less_level a b = (level_rank a < level_rank b)"

instance
proof
  show "x \<le> y \<Longrightarrow> y \<le> x \<Longrightarrow> x = y" for x y :: level
    by (cases x; cases y) (auto simp: less_eq_level_def)
qed (auto simp: less_eq_level_def less_level_def)

end

definition level_from_str :: "string \<Rightarrow> level" where
  "level_from_str s =
     (let t = ascii_lowercase (trim s) in
      if t = ''off'' then Off
      else if t = ''error'' then Error
      else if t = ''warn'' \<or> t = ''warning'' then Warn
      else if t = ''info'' then Info
      else if t = ''debug'' then Debug
      else if t = ''trace'' then Trace
      else Info)"

definition choose_level :: "string option \<Rightarrow> bool \<Rightarrow> level" where
  "choose_level rust_log verbose =
     (case rust_log of
        Some s \<Rightarrow> if s \<noteq> [] then level_from_str s else if verbose then Debug else Info
      | None \<Rightarrow> if verbose then Debug else Info)"

section \<open>Dates\<close>

text \<open>Rust's \<open>/\<close> on signed integers truncates.\<close>

definition tdiv :: "int \<Rightarrow> int \<Rightarrow> int" where
  "tdiv a b = (if 0 \<le> a then a div b else - ((- a) div b))"

definition civil_from_days :: "int \<Rightarrow> int \<times> nat \<times> nat" where
  "civil_from_days z0 =
     (let z = z0 + 719468;
          era = tdiv (if 0 \<le> z then z else z - 146096) 146097;
          doe = nat (z - era * 146097);
          yoe = (doe - doe div 1460 + doe div 36524 - doe div 146096) div 365;
          y = int yoe + era * 400;
          doy = doe - (365 * yoe + yoe div 4 - yoe div 100);
          mp = (5 * doy + 2) div 153;
          d = doy - (153 * mp + 2) div 5 + 1;
          m = (if mp < 10 then mp + 3 else mp - 9)
      in (if m \<le> 2 then y + 1 else y, m, d))"

definition utc_timestamp :: "u64 \<Rightarrow> string" where
  "utc_timestamp secs =
     (let days = unat secs div 86400;
          rem = unat secs mod 86400;
          h = rem div 3600;
          m = rem mod 3600 div 60;
          s = rem mod 60
      in case civil_from_days (int days) of
           (y, mo, d) \<Rightarrow>
             show_nat_pad 4 (nat y) @ ''-'' @ show_nat_pad 2 mo @ ''-'' @ show_nat_pad 2 d @ '' '' @
             show_nat_pad 2 h @ '':'' @ show_nat_pad 2 m @ '':'' @ show_nat_pad 2 s)"

section \<open>The logger\<close>

record log_record =
  lr_level :: level
  lr_target :: string
  lr_args :: string

record logger =
  lg_level :: level
  lg_file :: "loc option"

primrec level_str :: "level \<Rightarrow> string" where
  "level_str Off = ''OFF''"
| "level_str Error = ''ERROR''"
| "level_str Warn = ''WARN''"
| "level_str Info = ''INFO''"
| "level_str Debug = ''DEBUG''"
| "level_str Trace = ''TRACE''"

definition pad_right :: "nat \<Rightarrow> string \<Rightarrow> string" where
  "pad_right n s = s @ replicate (n - length s) (CHR '' '')"

definition log_line :: "u64 \<Rightarrow> log_record \<Rightarrow> string" where
  "log_line now r =
     utc_timestamp now @ '' ['' @ pad_right 5 (level_str (lr_level r)) @ ''] '' @ lr_target r @ '': '' @
     lr_args r @ [CHR 0x0A]"

definition enabled :: "logger \<Rightarrow> log_record \<Rightarrow> bool" where
  "enabled g r = (lr_level r \<le> lg_level g)"

text \<open>\<open>OpenOptions::new().create(true).append(true).open(p)\<close>, and a write that appends.\<close>

definition append_open :: "path \<Rightarrow> loc io" where
  "append_open p = sys (\<lambda>w.
     (case resolve True w p of
       Inl e \<Rightarrow> (Inl (Os e), fs w)
     | Inr l \<Rightarrow> (case tget (fs w) l of
         None \<Rightarrow> (Inr l, tput (fs w) l (File (new_file (mask_mode w 0x1B6))))
       | Some (File d) \<Rightarrow> (Inr l, fs w)
       | Some _ \<Rightarrow> (Inl (Os EISDIR), fs w))))"

definition append_all :: "loc \<Rightarrow> bytes \<Rightarrow> unit io" where
  "append_all l data w =
     write_all l (case files (fs w) l of Some d \<Rightarrow> length (fbytes d) | None \<Rightarrow> 0) data w"

definition log_write :: "u64 \<Rightarrow> logger \<Rightarrow> log_record \<Rightarrow> world \<Rightarrow> string \<times> world" where
  "log_write now g r w =
     (if \<not> enabled g r then ([], w)
      else let line = log_line now r in
        (line, case lg_file g of
                 None \<Rightarrow> w
               | Some l \<Rightarrow> snd (append_all l (str_bytes line) w)))"

text \<open>The logger that is installed, and the warning printed when the file cannot be opened.\<close>

definition logger_init :: "(io_error \<Rightarrow> string) \<Rightarrow> string option \<Rightarrow> bool \<Rightarrow> path option \<Rightarrow> world \<Rightarrow>
    logger \<times> string \<times> world" where
  "logger_init err rust_log verbose log_file w =
     (let lv = choose_level rust_log verbose in
      case log_file of
        None \<Rightarrow> (\<lparr>lg_level = lv, lg_file = None\<rparr>, [], w)
      | Some p \<Rightarrow>
          (case append_open p w of
             (Inr l, w1) \<Rightarrow> (\<lparr>lg_level = lv, lg_file = Some l\<rparr>, [], w1)
           | (Inl e, w1) \<Rightarrow>
               (\<lparr>lg_level = lv, lg_file = None\<rparr>,
                ''warning: cannot open log file '' @ p @ '': '' @ err e @ [CHR 0x0A], w1)))"

end
