(* ===== verification/Server.thy ===== *)
theory Server
  imports Auth AutoFs Config Tls Logging
begin

text \<open>
  \<open>src/server.rs\<close> and \<open>src/main.rs\<close>: the handler's options, the choice of authentication and
  webhook, the dispatch of one request, the accept loop with its drain, and the start-up order.
  The WebDAV protocol itself is the crate \<open>dav-server\<close>; its \<open>handle\<close> is an argument.
\<close>

section \<open>The handler\<close>

record dav_options =
  do_fs :: auto_fs
  do_principal :: string
  do_autoindex :: bool
  do_hide_symlinks :: bool
  do_read_buf :: nat
  do_strip_prefix :: "string option"

definition auto_fs_new :: "path \<Rightarrow> bool \<Rightarrow> bool \<Rightarrow> bool \<Rightarrow> auto_fs" where
  "auto_fs_new r cp aw fsy =
     \<lparr>af_root = r, af_create_parents = cp, af_atomic_writes = aw, af_fsync = fsy\<rparr>"

definition normal_prefix :: "string \<Rightarrow> string option" where
  "normal_prefix s =
     (if trim s = [] then None
      else let p = trim_end_matches (\<lambda>c. c = slash) (trim s)
           in Some (if prefix [slash] p then p else slash # p))"

definition build_handler :: "config \<Rightarrow> world \<Rightarrow> (string + dav_options) \<times> world" where
  "build_handler c w =
     (case create_dir_all (root c) w of
        (Inl e, w1) \<Rightarrow> (Inl (''create root dir '' @ root c), w1)
      | (Inr u, w1) \<Rightarrow>
          (Inr \<lparr>do_fs = auto_fs_new (root c) (create_parents c) (atomic_writes c) (fsync c),
                do_principal = principal c, do_autoindex = True, do_hide_symlinks = False,
                do_read_buf = 1024 * 1024, do_strip_prefix = normal_prefix (prefix_opt c)\<rparr>, w1))"

section \<open>Authentication and the webhook\<close>

definition select_auth :: "config \<Rightarrow> basic_auth option" where
  "select_auth c =
     (case (auth_user c, auth_pass c) of
        (Some u, Some p) \<Rightarrow> Some (auth_new (str_bytes u) (str_bytes p) ''nzk-webdavs'')
      | _ \<Rightarrow> None)"

definition select_webhook :: "config \<Rightarrow> (bytes \<times> path) option" where
  "select_webhook c = map_option (\<lambda>s. (str_bytes s, update_cmd c)) (update_secret c)"

definition webhook_path :: string where "webhook_path = ''/.nzk-webdavs-update''"

record dav_request =
  dr_method :: string
  dr_path :: string
  dr_headers :: headers
  dr_body :: bytes

text \<open>What a request makes the server do: the shell commands it starts, and the state of \<open>handle\<close>.\<close>

definition update_shell :: "path \<Rightarrow> string" where
  "update_shell cmd =
     ''nohup '' @ [CHR 0x27] @ cmd @ [CHR 0x27] @ '' >/tmp/nzk-webdavs-update.log 2>&1 &''"

definition empty_reply :: "nat \<Rightarrow> http_reply" where
  "empty_reply st = \<lparr>h_status = st, h_headers = [], h_body = []\<rparr>"

definition webhook_reply :: "auth_libs \<Rightarrow> (bytes \<times> path) option \<Rightarrow> dav_request \<Rightarrow> http_reply \<times> string list" where
  "webhook_reply L hook q =
     (case hook of
        None \<Rightarrow> (empty_reply 404, [])
      | Some (secret, cmd) \<Rightarrow>
          (let token = (case Option.bind (dr_headers q ''x-nzk-update-token'') (al_to_str L) of
                          Some t \<Rightarrow> t | None \<Rightarrow> [])
           in if al_ct_eq L (str_bytes token) secret
              then (empty_reply 202, [update_shell cmd])
              else (empty_reply 403, [])))"

definition serve_request ::
  "auth_libs \<Rightarrow> (dav_request \<Rightarrow> 's \<Rightarrow> http_reply \<times> 's) \<Rightarrow> basic_auth option \<Rightarrow> (bytes \<times> path) option \<Rightarrow>
   dav_request \<Rightarrow> 's \<Rightarrow> http_reply \<times> string list \<times> 's" where
  "serve_request L handle auth hook q s =
     (if dr_method q = ''POST'' \<and> dr_path q = webhook_path
      then (case webhook_reply L hook q of (r, cmds) \<Rightarrow> (r, cmds, s))
      else if (case auth of None \<Rightarrow> False | Some a \<Rightarrow> \<not> is_authorized L a (dr_headers q))
      then (challenge (the auth), [], s)
      else (case handle q s of (r, s1) \<Rightarrow> (r, [], s1)))"

text \<open>The line of the request log; the text of a status is the crate \<open>http\<close>'s.\<close>

definition request_line :: "(nat \<Rightarrow> string) \<Rightarrow> dav_request \<Rightarrow> nat \<Rightarrow> nat \<Rightarrow> string \<Rightarrow> string \<Rightarrow> string" where
  "request_line show_status q st ms peer target =
     ''REQ '' @ dr_method q @ '' '' @ dr_path q @ '' -> '' @ show_status st @ '' in '' @ show_nat ms @
     ''ms from '' @ peer @ '' to '' @ target"

definition log_target :: "config \<Rightarrow> string \<Rightarrow> string" where
  "log_target c local = (case target_ip c of Some ip \<Rightarrow> if ip \<noteq> [] then ip else local | None \<Rightarrow> local)"

section \<open>TCP keep-alive\<close>

text \<open>The socket options set on a connection: idle time, interval, probes; none for 0.\<close>

definition keepalive_opts :: "u64 \<Rightarrow> (string \<times> 32 word) list" where
  "keepalive_opts secs =
     (if secs > 0 then
        [(''SO_KEEPALIVE'', 1), (''TCP_KEEPIDLE'', of_nat (unat (min secs 0x7FFFFFFF))),
         (''TCP_KEEPINTVL'', 75), (''TCP_KEEPCNT'', 9)]
      else [])"

section \<open>The accept loop\<close>

text \<open>
  What the two \<open>select!\<close>s can see: a connection, a failed accept, the signal, the end of a
  connection's task, and the end of the 30 seconds of grace.
\<close>

datatype os_signal = SIGINT | SIGTERM | OtherSignal

datatype event = Accepted nat | AcceptFailed string | Signal os_signal | TaskDone nat | GraceOver

text \<open>What \<open>shutdown_signal\<close> waits for, on Unix: either of its two listeners ends the wait.\<close>

definition shutdown_signal :: "os_signal \<Rightarrow> bool" where
  "shutdown_signal g \<longleftrightarrow> g = SIGINT \<or> g = SIGTERM"

datatype server = Serving "nat list" | Draining "nat list" | Stopped "string + bool"

text \<open>\<open>Stopped (Inr True)\<close>: all connections had finished; \<open>Inr False\<close>: the grace period elapsed.\<close>

fun server_step :: "server \<Rightarrow> event \<Rightarrow> server" where
  "server_step (Serving ts) (Accepted i) = Serving (ts @ [i])"
| "server_step (Serving ts) (AcceptFailed e) = Stopped (Inl e)"
| "server_step (Serving ts) (Signal g) =
     (if \<not> shutdown_signal g then Serving ts
      else if ts = [] then Stopped (Inr True) else Draining ts)"
| "server_step (Serving ts) (TaskDone i) = Serving (remove1 i ts)"
| "server_step (Serving ts) GraceOver = Serving ts"
| "server_step (Draining ts) (TaskDone i) =
     (if remove1 i ts = [] then Stopped (Inr True) else Draining (remove1 i ts))"
| "server_step (Draining ts) GraceOver = Stopped (Inr False)"
| "server_step (Draining ts) x = Draining ts"
| "server_step (Stopped r) x = Stopped r"

definition run_server :: "event list \<Rightarrow> server" where
  "run_server es = foldl server_step (Serving []) es"

section \<open>Start-up\<close>

datatype 's start = Refused string | Generated | Started dav_options "'s option" "basic_auth option" "(bytes \<times> path) option"

definition start_up :: "(io_error \<Rightarrow> string) \<Rightarrow> string option \<Rightarrow> ('c, 'k, 's) tls_libs \<Rightarrow> config \<Rightarrow> world \<Rightarrow> 's start \<times> world" where
  "start_up err rust_log T c w0 =
     (case validate c of
        Inl e \<Rightarrow> (Refused e, w0)
      | Inr u \<Rightarrow>
          (case create_dir_all (root c) (snd (snd (logger_init err rust_log (verbose c) (log_file c) w0))) of
             (Inl e, w1) \<Rightarrow> (Refused (err e), w1)
           | (Inr u, w1) \<Rightarrow>
               (case guard_certs_outside_root c w1 of
                  (Inl e, w2) \<Rightarrow> (Refused e, w2)
                | (Inr u, w2) \<Rightarrow>
                    if gen_cert c then
                      (case generate_self_signed T c w2 of
                         (Inl e, w3) \<Rightarrow> (Refused e, w3)
                       | (Inr u, w3) \<Rightarrow> (Generated, w3))
                    else
                      (case build_handler c w2 of
                         (Inl e, w3) \<Rightarrow> (Refused e, w3)
                       | (Inr h, w3) \<Rightarrow>
                           if no_tls c then (Started h None (select_auth c) (select_webhook c), w3)
                           else (case build_server_config T (cert c) (key c) w3 of
                                   (Inl e, w4) \<Rightarrow> (Refused e, w4)
                                 | (Inr s, w4) \<Rightarrow>
                                     (Started h (Some s) (select_auth c) (select_webhook c), w4))))))"

section \<open>Properties\<close>

text \<open>A series of requests, in the order in which they are taken up: the commands started on the way and
  the state of the handler at the end.\<close>

fun serve_all ::
  "auth_libs \<Rightarrow> (dav_request \<Rightarrow> 's \<Rightarrow> http_reply \<times> 's) \<Rightarrow> basic_auth option \<Rightarrow> (bytes \<times> path) option \<Rightarrow>
   dav_request list \<Rightarrow> 's \<Rightarrow> string list \<times> 's" where
  "serve_all L handle auth hook [] s = ([], s)"
| "serve_all L handle auth hook (q # qs) s =
     (case serve_request L handle auth hook q s of (r, cmds, s1) \<Rightarrow>
        (case serve_all L handle auth hook qs s1 of (cmds', s2) \<Rightarrow> (cmds @ cmds', s2)))"

definition is_webhook :: "dav_request \<Rightarrow> bool" where
  "is_webhook q \<longleftrightarrow> dr_method q = ''POST'' \<and> dr_path q = webhook_path"

definition sent_token :: "auth_libs \<Rightarrow> dav_request \<Rightarrow> bytes" where
  "sent_token L q = str_bytes (case Option.bind (dr_headers q ''x-nzk-update-token'') (al_to_str L) of Some t \<Rightarrow> t | None \<Rightarrow> [])"

definition admitted :: "auth_libs \<Rightarrow> basic_auth option \<Rightarrow> dav_request \<Rightarrow> bool" where
  "admitted L auth q \<longleftrightarrow> \<not> is_webhook q \<and> (\<forall>a. auth = Some a \<longrightarrow> is_authorized L a (dr_headers q))"

text \<open>C26 Only what is admitted acts: over any series of requests the WebDAV handler ends in the state that
  the requests with the right credentials alone, in their order, would have led to; and the only
  commands started are the update's, one for each POST to the webhook whose token is the secret.\<close>

theorem only_admitted_act:
  assumes "ct_eq_ok L"
  shows "serve_all L handle auth (Some (secret, cmd)) qs s =
    (map (\<lambda>_. update_shell cmd) (filter (\<lambda>q. is_webhook q \<and> sent_token L q = secret) qs),
     fold (\<lambda>q s. snd (handle q s)) (filter (admitted L auth) qs) s)"
proof (induction qs arbitrary: s)
  case (Cons q qs)
  have "serve_request L handle auth (Some (secret, cmd)) q s =
      (fst (serve_request L handle auth (Some (secret, cmd)) q s),
       if is_webhook q \<and> sent_token L q = secret then [update_shell cmd] else [],
       if admitted L auth q then snd (handle q s) else s)"
    using assms
    by (auto simp: serve_request_def webhook_reply_def is_webhook_def sent_token_def admitted_def ct_eq_ok_def Let_def
        split: option.splits prod.splits)
  then show ?case using Cons by (auto split: prod.splits)
qed simp

lemma only_admitted_act_witness:
  "serve_all plain_auth_libs (\<lambda>q n. (empty_reply 200, n + 1)) (Some (auth_new [1] [2] [])) (Some ([], ''/bin/up''))
     [\<lparr>dr_method = ''PUT'', dr_path = ''/f'', dr_headers = Map.empty, dr_body = [1]\<rparr>,
      \<lparr>dr_method = ''POST'', dr_path = webhook_path, dr_headers = Map.empty, dr_body = []\<rparr>] (0::nat)
   = ([update_shell ''/bin/up''], 0)"
  by (subst only_admitted_act[OF plain_auth_libs_ok])
    (simp add: admitted_def is_webhook_def sent_token_def webhook_path_def is_authorized_def str_bytes_def)

text \<open>C27 A request starts the update command only if it is a POST to the webhook's path, a secret is
  configured, and the token sent is that secret; without a token header the token is empty, so an
  empty secret lets every client start it.\<close>

theorem update_needs_token:
  assumes "ct_eq_ok L" and "serve_request L handle auth (select_webhook c) q s = (r, cmds, t)"
  shows "cmds \<noteq> [] \<longleftrightarrow>
    dr_method q = ''POST'' \<and> dr_path q = webhook_path \<and>
    (\<exists>secret. update_secret c = Some secret \<and>
       (case Option.bind (dr_headers q ''x-nzk-update-token'') (al_to_str L) of Some t \<Rightarrow> t | None \<Rightarrow> [])
         = secret)"
  using assms
  by (auto simp: serve_request_def webhook_reply_def select_webhook_def ct_eq_ok_def Let_def
      split: if_splits option.splits prod.splits)

lemma update_needs_token_witness:
  "fst (snd (serve_request plain_auth_libs (\<lambda>q n. (empty_reply 200, n)) None
     (select_webhook (config_defaults\<lparr>update_secret := Some []\<rparr>))
     \<lparr>dr_method = ''POST'', dr_path = webhook_path, dr_headers = Map.empty, dr_body = []\<rparr> (0::nat))) \<noteq> []"
proof -
  let ?q = "\<lparr>dr_method = ''POST'', dr_path = webhook_path, dr_headers = Map.empty, dr_body = []\<rparr>"
  let ?c = "config_defaults\<lparr>update_secret := Some []\<rparr>"
  obtain r cmds t where e: "serve_request plain_auth_libs (\<lambda>q n. (empty_reply 200, n)) None
      (select_webhook ?c) ?q (0::nat) = (r, cmds, t)" by (metis prod_cases3)
  show ?thesis using update_needs_token[OF plain_auth_libs_ok e] e by simp
qed

text \<open>C30 A prefix option that is not blank makes a prefix that starts with a slash and ends in none, unless
  the option is only slashes; what precedes the slashes at its end is kept.\<close>

theorem normal_prefix_shape:
  assumes "normal_prefix s = Some p"
  shows "\<exists>q. p = slash # q \<and> (q = [] \<or> last q \<noteq> slash) \<and>
    (\<exists>n. trim s = p @ replicate n slash \<or> slash # trim s = p @ replicate n slash)"
proof -
  define t where "t = trim_end_matches (\<lambda>c. c = slash) (trim s)"
  have ne: "trim s \<noteq> []" and p: "p = (if prefix [slash] t then t else slash # t)"
    using assms by (auto simp: normal_prefix_def t_def Let_def split: if_splits)
  have l: "t \<noteq> [] \<Longrightarrow> last t \<noteq> slash" unfolding t_def by (rule trim_end_matches_last)
  obtain r where r: "trim s = t @ r" "\<forall>x \<in> set r. x = slash"
    using trim_end_matches_prefix[of "trim s" "\<lambda>c. c = slash"] unfolding t_def by auto
  have rep: "r = replicate (length r) slash" using r(2) by (simp add: replicate_length_same)
  show ?thesis
  proof (cases "prefix [slash] t")
    case True
    then obtain q where q: "t = slash # q" by (auto simp: prefix_def)
    have e: "trim s = p @ replicate (length r) slash" using p True r(1) rep by simp
    have "q = [] \<or> last q \<noteq> slash" using l q by (cases q) auto
    moreover have "p = slash # q" using p True q by simp
    ultimately show ?thesis using e by blast
  next
    case False
    then have "p = slash # t" using p by simp
    moreover have "slash # trim s = p @ replicate (length r) slash" using calculation r(1) rep by simp
    ultimately show ?thesis using l by blast
  qed
qed

lemma normal_prefix_sample: "normal_prefix '' dav// '' = Some ''/dav''"
  by code_simp

lemma normal_prefix_shape_witness:
  "\<exists>q. ''/dav'' = slash # q \<and> (q = [] \<or> last q \<noteq> slash) \<and>
    (\<exists>n. trim '' dav// '' = ''/dav'' @ replicate n slash \<or> slash # trim '' dav// '' = ''/dav'' @ replicate n slash)"
  using normal_prefix_shape[OF normal_prefix_sample] .

lemma run_Stopped: "foldl server_step (Stopped r) gs = Stopped r"
  by (induction gs) auto

text \<open>C28 How the server ends: a failed accept ends it at once with that error, open connections included;
  SIGINT or SIGTERM ends it at once when no connection is open, and otherwise no connection is accepted any
  more and it stops exactly when every one that was open has ended, or the grace period is over.\<close>

theorem server_ending:
  assumes "run_server es = Serving ts" and "shutdown_signal g"
  shows "run_server (es @ AcceptFailed e # later) = Stopped (Inl e) \<and>
    run_server (es @ Signal g # later) =
      (let closed = foldl (\<lambda>l e. case e of TaskDone i \<Rightarrow> remove1 i l | _ \<Rightarrow> l);
           before = takeWhile (\<lambda>e. e \<noteq> GraceOver) later
       in if closed ts before = [] then Stopped (Inr True)
          else if GraceOver \<in> set later then Stopped (Inr False)
          else Draining (closed ts before))"
proof -
  define closed where "closed = foldl (\<lambda>l e. case e of TaskDone i \<Rightarrow> remove1 i l | _ \<Rightarrow> (l :: nat list))"
  have nil: "closed [] gs = []" for gs
  proof (induction gs)
    case (Cons e gs)
    then show ?case by (cases e) (simp_all add: closed_def)
  qed (simp add: closed_def)
  have "foldl server_step (Draining ts) later =
      (let before = takeWhile (\<lambda>e. e \<noteq> GraceOver) later
       in if closed ts before = [] then Stopped (Inr True)
          else if GraceOver \<in> set later then Stopped (Inr False) else Draining (closed ts before))" if "ts \<noteq> []"
    using that
  proof (induction later arbitrary: ts)
    case (Cons e es')
    have c: "closed us (x # xs) = closed (case x of TaskDone i \<Rightarrow> remove1 i us | _ \<Rightarrow> us) xs" for us x xs
      by (simp add: closed_def)
    show ?case
    proof (cases e)
      case (TaskDone i)
      then show ?thesis using Cons by (cases "remove1 i ts = []") (simp_all add: c run_Stopped nil)
    qed (use Cons in \<open>auto simp: c run_Stopped, auto simp: closed_def\<close>)
  qed (simp add: closed_def)
  then show ?thesis
    using assms nil by (cases "ts = []") (auto simp: run_server_def run_Stopped closed_def[symmetric] Let_def)
qed

lemma server_ending_witness:
  "run_server [Accepted 1, Accepted 2, Signal SIGTERM, TaskDone 2, Accepted 3, TaskDone 1] = Stopped (Inr True) \<and>
   run_server [Accepted 1, Accepted 2, AcceptFailed ''too many open files'', TaskDone 1] =
     Stopped (Inl ''too many open files'')"
  using server_ending[of "[Accepted 1, Accepted 2]" "[1, 2]" SIGTERM "''too many open files''" "[TaskDone 1]"]
    server_ending[of "[Accepted 1, Accepted 2]" "[1, 2]" SIGTERM "[]" "[TaskDone 2, Accepted 3, TaskDone 1]"]
  by (simp add: run_server_def shutdown_signal_def)

text \<open>C29 The idle time handed to the kernel is the configured number of seconds, cut off at the largest
  32-bit signed integer, so it is never negative or zero; 0 turns keep-alive off.\<close>

theorem keepalive_bounds:
  "if secs = 0 then keepalive_opts secs = []
   else \<exists>v. map_of (keepalive_opts secs) ''TCP_KEEPIDLE'' = Some v \<and> 0 < sint v \<and>
          sint v = min (uint secs) (2 ^ 31 - 1)"
proof (cases "secs = 0")
  case False
  then have pos: "0 < uint secs" by (metis linorder_neqE_linordered_idom not_less uint_ge_0 uint_0_iff)
  define m where "m = min (uint secs) 2147483647"
  have m: "0 < m" "m < 2 ^ 31" using pos by (auto simp: m_def)
  have "uint (min secs 0x7FFFFFFF) = m" by (simp add: m_def min_def word_le_def)
  then have "unat (min secs 0x7FFFFFFF) = nat m" by (metis unat_eq_nat_uint)
  then have v: "(of_nat (unat (min secs 0x7FFFFFFF)) :: 32 word) = of_int m" using m by simp
  have "sint (of_int m :: 32 word) = m"
    using m by (simp add: sint_uint uint_word_of_int take_bit_int_eq_self signed_take_bit_int_eq_self)
  moreover have "map_of (keepalive_opts secs) ''TCP_KEEPIDLE'' = Some (of_int m)"
    using False v by (simp add: keepalive_opts_def word_neq_0_conv)
  ultimately show ?thesis using False m by (simp add: m_def)
qed (simp add: keepalive_opts_def)

end
