(* ===== verification/Tls_Laws.thy ===== *)
theory Tls_Laws
  imports Tls Name_Laws
begin

text \<open>
  The guard of \<open>src/tls.rs\<close>: what \<open>canonicalize\<close> returns denotes the place of the file, so the comparison
  of components compares places in the tree.  Also the reading of the identity, call by call.
\<close>

section \<open>Calls that find what is there\<close>

text \<open>The names in a directory are plain: no separators, neither empty nor dots.\<close>

definition names_ok :: "node \<Rightarrow> bool" where
  "names_ok t \<longleftrightarrow> (\<forall>l n. tget t l = Some n \<longrightarrow> (\<forall>s \<in> set l. plain_name s))"

lemma names_ok_leaf: "names_ok (File d)"
  by (auto simp: names_ok_def elim: tget.elims)

lemma names_ok_Dir:
  assumes "\<forall>(s, n) \<in> set es. plain_name s \<and> names_ok n"
  shows "names_ok (Dir es)"
  unfolding names_ok_def
proof (intro allI impI)
  fix l n assume g: "tget (Dir es) l = Some n"
  show "\<forall>s \<in> set l. plain_name s"
  proof (cases l)
    case (Cons x r)
    then obtain m where m: "map_of es x = Some m" "tget m r = Some n" using g by (auto split: option.splits)
    then have "(x, m) \<in> set es" using map_of_SomeD by metis
    then have "plain_name x" "names_ok m" using assms by blast+
    moreover from this(2) m(2) have "\<forall>s \<in> set r. plain_name s" unfolding names_ok_def by blast
    ultimately show ?thesis using Cons by simp
  qed simp
qed

definition canon :: "loc \<Rightarrow> path" where
  "canon l = slash # join_with slash l"

lemma comps_canon: "\<forall>s \<in> set l. plain_name s \<Longrightarrow> comps (canon l) = RootDir # map Normal l"
proof (cases "l = []")
  case True
  then show ?thesis by (simp add: canon_def comps_def path_lead_def is_abs_def triv_def)
next
  case False
  assume p: "\<forall>s \<in> set l. plain_name s"
  have "split_on slash (join_with slash l) = l"
    using False p by (intro split_join_with) (auto simp: plain_name_def)
  moreover have "filter (\<lambda>s. \<not> triv s) l = l"
    using p by (auto simp: filter_id_conv plain_name_def triv_def)
  moreover have "map comp_of l = map Normal l" using p by simp
  ultimately show ?thesis by (simp add: canon_def comps_def path_lead_def is_abs_def triv_def)
qed

lemma canon_prefix:
  assumes "\<forall>s \<in> set l \<union> set m. plain_name s"
  shows "path_starts_with (canon l) (canon m) = prefix m l"
proof -
  have "prefix (map Normal m) (map Normal l) = prefix m l"
  proof (induction m arbitrary: l)
    case (Cons x m)
    then show ?case by (cases l) simp_all
  qed simp
  with assms show ?thesis by (simp add: path_starts_with_def comps_canon)
qed

lemma canonicalize_quiet:
  "faults w = [] \<Longrightarrow> resolve True w p = Inr l \<Longrightarrow> tget (fs w) l \<noteq> None \<Longrightarrow> canonicalize p w = (Inr (canon l), w)"
  by (simp add: canonicalize_def canon_def sys_simps)

lemma canonicalize_Inr:
  assumes "faults w = []" and "canonicalize p w = (Inr r, v)"
  obtains l where "resolve True w p = Inr l" "tget (fs w) l \<noteq> None" "r = canon l" "v = w"
proof -
  from assms obtain l where l: "resolve True w p = Inr l" "tget (fs w) l \<noteq> None" "r = canon l"
    by (simp add: canonicalize_def canon_def sys_simps split: sum.splits if_splits)
  with canonicalize_quiet[OF assms(1) l(1,2)] assms(2) that show thesis by simp
qed

text \<open>Creating a directory that is there already changes nothing.\<close>

lemma walk_nofollow:
  "walk k t cur ss True = Inr l \<Longrightarrow> tget t l \<noteq> None \<Longrightarrow> \<exists>m. walk k t cur ss False = Inr m \<and> tget t m \<noteq> None"
proof (induction k t cur ss True rule: walk.induct)
  case (1 k t cur)
  then show ?case by auto
next
  case (2 k t cur x rest)
  from "2.prems" obtain ec where es: "tget t cur = Some (Dir ec)"
    by (auto split: option.splits node.splits)
  show ?case
  proof (cases "x = ''.'' \<or> x = ''..'' \<or> map_of ec x = None")
    case True
    with 2 es show ?thesis by (auto split: if_splits)
  next
    case False
    then obtain n where n: "map_of ec x = Some n" by auto
    show ?thesis
    proof (cases n)
      case (Symlink q)
      show ?thesis
      proof (cases "rest = []")
        case True
        with False es n Symlink map_of_tget[OF es, of x] show ?thesis by auto
      next
        case ne: False
        with 2 False es n Symlink show ?thesis by (cases k) auto
      qed
    qed (use 2 False es n in auto)
  qed
qed

lemma base_segs_slashes: "\<forall>x \<in> set t. x = slash \<Longrightarrow> base_segs (q @ t) = base_segs q"
proof (induction t arbitrary: q)
  case (Cons x t)
  then show ?case using Cons.IH[of "[]"] by (simp add: base_segs_def split_on_append)
qed simp

lemma resolve_leaf_there:
  assumes "resolve True w p = Inr l" and "tget (fs w) l \<noteq> None"
  shows "(\<exists>m. resolve_leaf w p = Inr m \<and> tget (fs w) m \<noteq> None) \<or> resolve_leaf w p = Inl ENOTDIR"
proof -
  define q where "q = trim_end_matches (\<lambda>c. c = slash) p"
  let ?cur = "if is_abs p then [] else cwd w"
  have p: "p \<noteq> []" using assms(1) by (auto simp: resolve_def)
  have w: "walk max_links (fs w) ?cur (segs p) True = Inr l" using assms(1) p by (simp add: resolve_def)
  show ?thesis
  proof (cases "q = []")
    case True
    obtain m where "walk max_links (fs w) ?cur (segs p) False = Inr m" "tget (fs w) m \<noteq> None"
      using walk_nofollow[OF w assms(2)] by blast
    then have "resolve False w p = Inr m" using p by (simp add: resolve_def)
    with True \<open>tget (fs w) m \<noteq> None\<close> show ?thesis by (simp add: resolve_leaf_def q_def)
  next
    case False
    have a: "is_abs q = is_abs p" using False trim_end_prefix_hd[of "\<lambda>c. c = slash" p] p by (simp add: is_abs_def q_def)
    have nl: "\<not> (q \<noteq> [] \<and> last q = slash)"
      using trim_end_matches_last[of "\<lambda>c. c = slash" p] by (auto simp: q_def)
    obtain t where t: "p = q @ t" "\<forall>x \<in> set t. x = slash"
      using trim_end_matches_prefix[of p "\<lambda>c. c = slash"] by (auto simp: q_def)
    have "base_segs q = base_segs p" using base_segs_slashes[OF t(2), of q] t(1) by simp
    then have "segs q = base_segs p" using nl by (auto simp: segs_def base_segs_def)
    then have wq: "walk max_links (fs w) (if is_abs q then [] else cwd w) (segs q) True = Inr l"
      using resolve_base[OF assms(1)] a by simp
    obtain m where "walk max_links (fs w) (if is_abs q then [] else cwd w) (segs q) False = Inr m" "tget (fs w) m \<noteq> None"
      using walk_nofollow[OF wq assms(2)] by blast
    then have "resolve False w q = Inr m" using False by (simp add: resolve_def)
    with False \<open>tget (fs w) m \<noteq> None\<close> show ?thesis by (auto simp: resolve_leaf_def q_def[symmetric] Let_def)
  qed
qed

lemma create_dir_all_there:
  assumes "faults w = []" and "resolve True w p = Inr l" and "tget (fs w) l \<noteq> None"
  shows "snd (create_dir_all p w) = w" and "is_dirn (tget (fs w) l) \<Longrightarrow> create_dir_all p w = (Inr (), w)"
proof -
  have "snd (create_dir_all p w) = w \<and> (is_dirn (tget (fs w) l) \<longrightarrow> create_dir_all p w = (Inr (), w))"
proof (cases "comps p = []")
  case True
  then show ?thesis by (simp add: create_dir_all.simps)
next
  case False
  obtain e where c: "create_dir p w = (Inl e, w)" "kind_of e \<noteq> NotFound"
    using resolve_leaf_there[OF assms(2,3)] assms(1) by (auto simp: create_dir_def sys_simps)
  have d: "path_is_dir p w = (is_dirn (tget (fs w) l), w)"
    using assms by (auto simp: path_is_dir_def metadata_def node_at_def sys_simps is_dirn_def split: node.splits)
  show ?thesis
    using False c d by (subst (1 2) create_dir_all.simps) (simp split: bool.splits)
qed
  then show "snd (create_dir_all p w) = w" and "is_dirn (tget (fs w) l) \<Longrightarrow> create_dir_all p w = (Inr (), w)"
    by simp_all
qed

section \<open>The guard\<close>

lemma canon_or_parent_there:
  "faults w = [] \<Longrightarrow> resolve True w p = Inr l \<Longrightarrow> tget (fs w) l \<noteq> None \<Longrightarrow> canon_or_parent p w = (canon l, w)"
  by (simp add: canon_or_parent_def canonicalize_quiet)

lemma canon_or_parent_quiet: "faults w = [] \<Longrightarrow> snd (canon_or_parent p w) = w"
  by (simp add: canon_or_parent_def canonicalize_def sys_simps split: sum.splits option.splits)

lemma guard_each_passes:
  assumes "faults w = []" and "guard_each r ps w = (Inr (), v)"
  shows "v = w \<and> (\<forall>(kind, p) \<in> set ps. \<not> path_starts_with (fst (canon_or_parent p w)) r)"
  using assms(2)
proof (induction ps)
  case (Cons a ps)
  obtain kind p where a: "a = (kind, p)" by fastforce
  obtain c where c: "canon_or_parent p w = (c, w)"
    using canon_or_parent_quiet[OF assms(1), of p] by (metis prod.collapse)
  with Cons a show ?case by (auto split: if_splits)
qed simp

lemma guard_quiet:
  assumes "faults w = []" and "guard_certs_outside_root c w = (Inr (), v)"
  shows "v = w"
proof (cases "no_tls c")
  case False
  then obtain r w1 where r: "canonicalize (root c) w = (Inr r, w1)"
      "guard_each r [(''certificate'', cert c), (''private key'', key c)] w1 = (Inr (), v)"
    using assms(2) by (auto simp: guard_certs_outside_root_def split: sum.splits prod.splits)
  have "w1 = w" using canonicalize_Inr[OF assms(1) r(1)] by blast
  with guard_each_passes[of w1] r(2) assms(1) show ?thesis by blast
qed (use assms(2) in \<open>simp add: guard_certs_outside_root_def\<close>)

text \<open>What has passed the guard: files that exist lie outside the place of the root.\<close>

lemma guard_outside:
  assumes "names_ok (fs w)" and "faults w = []" and "\<not> no_tls c" and "guard_certs_outside_root c w = (Inr (), v)"
  shows "v = w \<and> (\<exists>lr. resolve True w (root c) = Inr lr \<and> tget (fs w) lr \<noteq> None \<and>
    (\<forall>p \<in> {cert c, key c}. \<forall>l. resolve True w p = Inr l \<longrightarrow> tget (fs w) l \<noteq> None \<longrightarrow> \<not> prefix lr l))"
proof -
  obtain r w1 where r: "canonicalize (root c) w = (Inr r, w1)"
      "guard_each r [(''certificate'', cert c), (''private key'', key c)] w1 = (Inr (), v)"
    using assms(3,4) by (auto simp: guard_certs_outside_root_def split: sum.splits prod.splits)
  obtain lr where lr: "resolve True w (root c) = Inr lr" "tget (fs w) lr \<noteq> None" "r = canon lr" "w1 = w"
    using canonicalize_Inr[OF assms(2) r(1)] by blast
  have g: "v = w" "\<forall>p \<in> {cert c, key c}. \<not> path_starts_with (fst (canon_or_parent p w)) (canon lr)"
    using guard_each_passes[OF assms(2) r(2)[unfolded lr(4)]] lr(3) by auto
  have "\<not> prefix lr l" if "p \<in> {cert c, key c}" "resolve True w p = Inr l" "tget (fs w) l \<noteq> None" for p l
  proof -
    have "\<forall>s \<in> set l \<union> set lr. plain_name s" using assms(1) lr(2) that(3) unfolding names_ok_def by blast
    then show ?thesis using g(2) that(1) canon_or_parent_there[OF assms(2) that(2,3)] canon_prefix by force
  qed
  with g(1) lr show ?thesis by blast
qed

section \<open>The identity\<close>

lemma file_open_quiet:
  assumes "faults w = []" and "file_open p w = (Inr l, v)"
  shows "v = w \<and> resolve True w p = Inr l \<and> tget (fs w) l \<noteq> None"
  using assms by (simp add: file_open_def sys_simps split: sum.splits if_splits)

lemma file_open_there:
  "faults w = [] \<Longrightarrow> resolve True w p = Inr l \<Longrightarrow> tget (fs w) l \<noteq> None \<Longrightarrow> file_open p w = (Inr l, w)"
  by (simp add: file_open_def sys_simps)

lemma read_at_quiet:
  assumes "faults w = []" and "tget (fs w) l = Some n"
  shows "read_at l off m w = (case n of File d \<Rightarrow> Inr (take m (drop off (fbytes d))) | Dir es \<Rightarrow> Inl (Os EISDIR)
    | Symlink q \<Rightarrow> Inr [], w)"
  using assms by (cases n) (simp_all add: read_at_def sys_simps)

lemma take_rest: "take m xs @ drop (length (take m xs)) xs = xs"
  by (cases "m \<le> length xs") simp_all

lemma read_to_end_file:
  assumes "faults w = []" and "tget (fs w) l = Some (File d)"
  shows "read_to_end l off w = (Inr (drop off (fbytes d)), w)"
  using assms
proof (induction l off w rule: read_to_end.induct)
  case (1 l off w)
  define x where "x = take rd_buf (drop off (fbytes d))"
  have r: "read_at l off rd_buf w = (Inr x, w)" using read_at_quiet[OF "1.prems"] by (simp add: x_def)
  show ?case
  proof (cases "x = []")
    case True
    then have "drop off (fbytes d) = []" by (simp add: x_def rd_buf_def)
    with r True show ?thesis by (subst read_to_end.simps) simp
  next
    case False
    have "x @ drop (off + length x) (fbytes d) = drop off (fbytes d)"
      using take_rest[of rd_buf "drop off (fbytes d)"] by (simp add: x_def add.commute)
    with r False "1.IH"[OF r[symmetric] refl False "1.prems"] show ?thesis by (subst read_to_end.simps) simp
  qed
qed

lemma read_to_end_quiet:
  assumes "faults w = []" and "read_to_end l 0 w = (Inr b, v)" and "\<And>q. tget (fs w) l \<noteq> Some (Symlink q)"
    and "tget (fs w) l \<noteq> None"
  shows "v = w \<and> (\<exists>d. tget (fs w) l = Some (File d) \<and> b = fbytes d)"
proof -
  obtain n where n: "tget (fs w) l = Some n" using assms(4) by auto
  show ?thesis
  proof (cases n)
    case (File d)
    with assms(2) read_to_end_file[OF assms(1), of l d 0] n show ?thesis by simp
  next
    case (Dir es)
    with assms(2) read_at_quiet[OF assms(1) n, of 0 rd_buf] show ?thesis by (subst (asm) read_to_end.simps) simp
  qed (use n assms(3) in simp)
qed

text \<open>\<open>file_holds w p d\<close>: the path leads to a regular file with this content.\<close>

definition file_holds :: "world \<Rightarrow> path \<Rightarrow> loc \<Rightarrow> bytes \<Rightarrow> bool" where
  "file_holds w p l b \<longleftrightarrow> resolve True w p = Inr l \<and> (\<exists>d. tget (fs w) l = Some (File d) \<and> fbytes d = b)"

lemma read_to_end_same: "faults w = [] \<Longrightarrow> snd (read_to_end l off w) = w"
proof (induction l off w rule: read_to_end.induct)
  case (1 l off w)
  obtain r where r: "read_at l off rd_buf w = (r, w)"
    using "1.prems" by (simp add: read_at_def sys_simps)
  show ?case
  proof (cases r)
    case (Inl e)
    with r show ?thesis by (subst read_to_end.simps) simp
  next
    case (Inr b)
    show ?thesis
    proof (cases "b = []")
      case True
      with r Inr show ?thesis by (subst read_to_end.simps) simp
    next
      case False
      obtain x where "read_to_end l (off + length b) w = (x, w)"
        using "1.IH"[OF r[symmetric] Inr False "1.prems"] by (cases "read_to_end l (off + length b) w") simp
      with r Inr False show ?thesis by (subst read_to_end.simps) (cases x, simp_all)
    qed
  qed
qed

lemma file_open_same: "faults w = [] \<Longrightarrow> snd (file_open p w) = w"
  by (simp add: file_open_def sys_simps)

lemma load_same:
  assumes "faults w = []"
  shows "snd (load_certs T p w) = w" "snd (load_key T p w) = w"
proof -
  obtain r where o: "file_open p w = (r, w)" using file_open_same[OF assms, of p] by (cases "file_open p w") simp
  have e: "\<exists>x. read_to_end l 0 w = (x, w)" for l
    using read_to_end_same[OF assms, of l 0] by (cases "read_to_end l 0 w") simp
  have "snd (load_certs T p w) = w \<and> snd (load_key T p w) = w"
  proof (cases r)
    case (Inr l)
    obtain x where "read_to_end l 0 w = (x, w)" using e by blast
    with o Inr show ?thesis by (cases x) (simp_all add: load_certs_def load_key_def split: option.splits)
  qed (use o in \<open>simp add: load_certs_def load_key_def\<close>)
  then show "snd (load_certs T p w) = w" "snd (load_key T p w) = w" by simp_all
qed

lemma build_server_config_same:
  assumes "faults w = []"
  shows "snd (build_server_config T c k w) = w"
proof -
  obtain x y where e: "load_certs T c w = (x, w)" "load_key T k w = (y, w)"
    using load_same[OF assms, of T] by (cases "load_certs T c w"; cases "load_key T k w") (metis snd_conv)
  then show ?thesis
    by (cases x; cases y) (simp_all add: build_server_config_def load_identity_def split: option.splits)
qed

lemma load_certs_Inr:
  assumes "env_ok w" and "faults w = []" and "load_certs T p w = (Inr cs, v)"
  shows "v = w \<and> cs \<noteq> [] \<and> (\<exists>l b. file_holds w p l b \<and> tl_certs T b = Some cs)"
proof -
  obtain l w1 b w2 where o: "file_open p w = (Inr l, w1)" "read_to_end l 0 w1 = (Inr b, w2)"
      "tl_certs T b = Some cs" "cs \<noteq> []" "v = w2"
    using assms(3) by (auto simp: load_certs_def split: sum.splits prod.splits option.splits if_splits)
  note f = file_open_quiet[OF assms(2) o(1)]
  have "w2 = w \<and> (\<exists>d. tget (fs w) l = Some (File d) \<and> b = fbytes d)"
    using read_to_end_quiet[of w l b w2] o(2) assms(2) f resolve_not_link[OF assms(1)] by auto
  with f o show ?thesis by (auto simp: file_holds_def)
qed

lemma load_key_Inr:
  assumes "env_ok w" and "faults w = []" and "load_key T p w = (Inr k, v)"
  shows "v = w \<and> (\<exists>l b. file_holds w p l b \<and> tl_key T b = Some (Some k))"
proof -
  obtain l w1 b w2 where o: "file_open p w = (Inr l, w1)" "read_to_end l 0 w1 = (Inr b, w2)"
      "tl_key T b = Some (Some k)" "v = w2"
    using assms(3) by (auto simp: load_key_def split: sum.splits prod.splits option.splits if_splits)
  note f = file_open_quiet[OF assms(2) o(1)]
  have "w2 = w \<and> (\<exists>d. tget (fs w) l = Some (File d) \<and> b = fbytes d)"
    using read_to_end_quiet[of w l b w2] o(2) assms(2) f resolve_not_link[OF assms(1)] by auto
  with f o show ?thesis by (auto simp: file_holds_def)
qed

lemma build_server_config_Inr:
  assumes "env_ok w" and "faults w = []" and "build_server_config T c k w = (Inr s, v)"
  shows "v = w \<and> (\<exists>lc bc lk bk cs pk. file_holds w c lc bc \<and> file_holds w k lk bk \<and>
    tl_certs T bc = Some cs \<and> cs \<noteq> [] \<and> tl_key T bk = Some (Some pk) \<and> tl_single_cert T cs pk = Some s)"
proof -
  obtain cs w1 pk w2 where o: "load_certs T c w = (Inr cs, w1)" "load_key T k w1 = (Inr pk, w2)"
      "tl_single_cert T cs pk = Some s" "v = w2"
    using assms(3)
    by (auto simp: build_server_config_def load_identity_def split: sum.splits prod.splits option.splits if_splits)
  note a = load_certs_Inr[OF assms(1,2) o(1)]
  have "w1 = w" using a by simp
  note b = load_key_Inr[OF assms(1,2) o(2)[unfolded this]]
  from a b o show ?thesis by metis
qed

end
