(* ===== verification/Start_Laws.thy ===== *)
theory Start_Laws
  imports Server Tls_Laws Dir_Laws
begin

text \<open>
  The start of the server as a whole (\<open>src/main.rs\<close> over \<open>config.rs\<close>, \<open>logging.rs\<close>, \<open>tls.rs\<close> and
  \<open>server.rs\<close>): what is certain once it serves.
\<close>

section \<open>No fault, no change\<close>

lemma sys_quiet: "faults w = [] \<Longrightarrow> sys f w = (r, v) \<Longrightarrow> faults v = []"
  by (auto simp: sys_simps)

lemma path_is_dir_faultless: "faults w = [] \<Longrightarrow> path_is_dir p w = (b, v) \<Longrightarrow> faults v = []"
  by (auto simp: path_is_dir_def metadata_def sys_simps split: sum.splits node.splits)

lemma create_dir_all_faultless:
  assumes "faults w = []" and "create_dir_all p w = (r, v)"
  shows "faults v = []"
proof (rule create_dir_all_invariant[OF assms(2), of "\<lambda>u. faults u = []"])
  fix q u x u' assume "faults u = []" "create_dir q u = (x, u')"
  then show "faults u' = []" unfolding create_dir_def by (rule sys_quiet)
next
  fix q u b u' assume "faults u = []" "path_is_dir q u = (b, u')"
  then show "faults u' = []" by (rule path_is_dir_faultless)
qed (rule assms(1))

lemma logger_init_faultless: "faults w = [] \<Longrightarrow> faults (snd (snd (logger_init err rl v p w))) = []"
  by (auto simp: logger_init_def append_open_def Let_def split: option.splits sum.splits prod.splits dest: sys_quiet)

section \<open>What holds when the server serves\<close>

definition guarded :: "world \<Rightarrow> config \<Rightarrow> loc \<Rightarrow> loc \<Rightarrow> bool" where
  "guarded w c lc lk \<longleftrightarrow> (\<exists>lr. resolve True w (root c) = Inr lr \<and> \<not> prefix lr lc \<and> \<not> prefix lr lk)"

lemma start_up_Started:
  assumes "start_up err rl T c w0 = (Started h tls auth hook, w)"
  obtains w1 w2 w3 where "validate c = Inr ()" "\<not> gen_cert c" "auth = select_auth c" "hook = select_webhook c"
    "create_dir_all (root c) (snd (snd (logger_init err rl (verbose c) (log_file c) w0))) = (Inr (), w1)"
    "guard_certs_outside_root c w1 = (Inr (), w2)" "build_handler c w2 = (Inr h, w3)"
    "if no_tls c then tls = None \<and> w = w3 else \<exists>s. tls = Some s \<and> build_server_config T (cert c) (key c) w3 = (Inr s, w)"
  using assms unfolding start_up_def
  by (auto split: sum.splits prod.splits if_splits)

text \<open>C23 Once the server serves, the start has done its work: authentication is on exactly when the
  options name a user and a password, with these two, the webhook is the configured one, and with TLS
  the identity was read from the certificate and key files, which both lie outside the place the root
  leads to, however links and \<open>..\<close> spell it.\<close>

theorem started_server:
  assumes "start_up err rl T c w0 = (Started h tls auth hook, w)" and "faults w0 = []"
    and "env_ok w" and "names_ok (fs w)"
  shows "\<not> gen_cert c \<and> hook = select_webhook c \<and> (auth_user c = None \<longleftrightarrow> auth_pass c = None) \<and>
    auth = map_option (\<lambda>u. auth_new (str_bytes u) (str_bytes (the (auth_pass c))) ''nzk-webdavs'') (auth_user c) \<and>
    do_fs h = auto_fs_new (root c) (create_parents c) (atomic_writes c) (fsync c) \<and> (tls = None \<longleftrightarrow> no_tls c) \<and>
    (\<not> no_tls c \<longrightarrow> (\<exists>lc bc lk bk cs pk. file_holds w (cert c) lc bc \<and> file_holds w (key c) lk bk \<and>
      guarded w c lc lk \<and> tl_certs T bc = Some cs \<and> tl_key T bk = Some (Some pk) \<and> tls = tl_single_cert T cs pk))"
proof -
  obtain w1 w2 w3 where s: "validate c = Inr ()" "\<not> gen_cert c" "auth = select_auth c" "hook = select_webhook c"
    "create_dir_all (root c) (snd (snd (logger_init err rl (verbose c) (log_file c) w0))) = (Inr (), w1)"
    "guard_certs_outside_root c w1 = (Inr (), w2)" "build_handler c w2 = (Inr h, w3)"
    "if no_tls c then tls = None \<and> w = w3 else \<exists>s. tls = Some s \<and> build_server_config T (cert c) (key c) w3 = (Inr s, w)"
    using start_up_Started[OF assms(1)] by blast
  have h: "do_fs h = auto_fs_new (root c) (create_parents c) (atomic_writes c) (fsync c)"
    using s(7) by (auto simp: build_handler_def split: sum.splits prod.splits)
  have q1: "faults w1 = []" by (rule create_dir_all_faultless[OF logger_init_faultless[OF assms(2)] s(5)])
  have "\<exists>lc bc lk bk cs pk. file_holds w (cert c) lc bc \<and> file_holds w (key c) lk bk \<and>
      guarded w c lc lk \<and> tl_certs T bc = Some cs \<and> tl_key T bk = Some (Some pk) \<and> tls = tl_single_cert T cs pk"
    if t: "\<not> no_tls c"
  proof -
    obtain r v where "canonicalize (root c) w1 = (Inr r, v)"
      using s(6) t by (auto simp: guard_certs_outside_root_def split: sum.splits prod.splits)
    then obtain lr where lr: "resolve True w1 (root c) = Inr lr" "tget (fs w1) lr \<noteq> None"
      using canonicalize_Inr[OF q1] by blast
    have "w2 = w1" using s(6) t guard_quiet[OF q1] by blast
    moreover have "w3 = w2" using s(7) create_dir_all_there(1)[OF q1 lr] calculation
      by (auto simp: build_handler_def split: sum.splits prod.splits)
    moreover obtain x where x: "tls = Some x" "build_server_config T (cert c) (key c) w3 = (Inr x, w)"
      using s(8) t by auto
    moreover have "w = w3"
      using build_server_config_same[of w3 T "cert c" "key c"] x(2) q1 calculation by simp
    ultimately have eq: "w2 = w" "w3 = w" "w1 = w" by simp_all
    obtain lc bc lk bk cs pk where i: "file_holds w (cert c) lc bc" "file_holds w (key c) lk bk"
      "tl_certs T bc = Some cs" "tl_key T bk = Some (Some pk)" "tl_single_cert T cs pk = Some x"
      using build_server_config_Inr[OF assms(3), of T "cert c" "key c" x w] q1 x(2) eq by auto
    have there: "resolve True w (cert c) = Inr lc" "tget (fs w) lc \<noteq> None"
      "resolve True w (key c) = Inr lk" "tget (fs w) lk \<noteq> None" using i(1,2) by (auto simp: file_holds_def)
    have "guarded w c lc lk"
      using guard_outside[OF assms(4) _ t, of w] q1 s(6) eq there unfolding guarded_def by force
    with i x(1) show ?thesis by metis
  qed
  moreover have "tls = None \<longleftrightarrow> no_tls c" using s(8) by (auto split: if_splits)
  moreover have "auth_user c = None \<longleftrightarrow> auth_pass c = None" using s(1) by (simp add: validate_ok)
  then have "auth = map_option (\<lambda>u. auth_new (str_bytes u) (str_bytes (the (auth_pass c))) ''nzk-webdavs'') (auth_user c)"
    using s(3) by (auto simp: select_auth_def split: option.splits)
  ultimately show ?thesis using s(1,2,4) h by (simp add: validate_ok)
qed

text \<open>A server on a small world: the root, and an identity beside it.\<close>

definition start_tree :: node where
  "start_tree = Dir [(''srv'', Dir []), (''etc'', Dir [(''c.crt'', File \<lparr>fbytes = [1], fmode = 0x1A4, fxattrs = []\<rparr>),
     (''c.key'', File \<lparr>fbytes = [2], fmode = 0x180, fxattrs = []\<rparr>)])]"

definition start_world :: world where
  "start_world = \<lparr>fs = start_tree, cwd = [], umask = 0x12, faults = []\<rparr>"

definition start_libs :: "(nat, nat, nat) tls_libs" where
  "start_libs = \<lparr>tl_certs = (\<lambda>b. if b = [1] then Some [10] else None), tl_key = (\<lambda>b. if b = [2] then Some (Some 20) else None),
     tl_versions = True, tl_single_cert = (\<lambda>cs k. Some (hd cs + k)), tl_generate = (\<lambda>_. None)\<rparr>"

definition start_config :: config where
  "start_config = config_defaults\<lparr>root := ''/srv/.'', cert := ''/etc/c.crt'', key := ''/srv/../etc/c.key'',
     auth_user := Some ''u'', auth_pass := Some ''p''\<rparr>"

lemma start_identity:
  "build_server_config start_libs (cert start_config) (key start_config) start_world = (Inr 30, start_world)"
proof -
  have o: "file_open (cert start_config) start_world = (Inr [''etc'', ''c.crt''], start_world)"
    "file_open (key start_config) start_world = (Inr [''etc'', ''c.key''], start_world)" by code_simp+
  have "read_to_end [''etc'', ''c.crt''] 0 start_world = (Inr [1], start_world)"
    "read_to_end [''etc'', ''c.key''] 0 start_world = (Inr [2], start_world)"
    using read_to_end_file[of start_world _ _ 0] by (simp_all add: start_world_def start_tree_def)
  with o show ?thesis
    by (simp add: build_server_config_def load_identity_def load_certs_def load_key_def start_libs_def)
qed

lemma start_sample:
  "\<exists>h. start_up (\<lambda>_. []) None start_libs start_config start_world =
     (Started h (Some 30) (select_auth start_config) (select_webhook start_config), start_world)"
proof -
  have r: "resolve True start_world (root start_config) = Inr [''srv'']" by code_simp
  have d: "create_dir_all (root start_config) start_world = (Inr (), start_world)"
    by (rule create_dir_all_there(2)[OF _ r]) (simp_all add: start_world_def start_tree_def)
  have g: "guard_certs_outside_root start_config start_world = (Inr (), start_world)" by code_simp
  obtain h where h: "build_handler start_config start_world = (Inr h, start_world)"
    using d by (simp add: build_handler_def)
  have "validate start_config = Inr ()" "log_file start_config = None" "\<not> gen_cert start_config" "\<not> no_tls start_config"
    by (simp_all add: start_config_def config_defaults_def validate_def)
  with d g h start_identity show ?thesis by (simp add: start_up_def logger_init_def Let_def)
qed

lemma started_server_witness:
  "\<exists>lc bc lk bk. file_holds start_world (cert start_config) lc bc \<and> file_holds start_world (key start_config) lk bk \<and>
    guarded start_world start_config lc lk"
proof -
  obtain h where "start_up (\<lambda>_. []) None start_libs start_config start_world =
     (Started h (Some 30) (select_auth start_config) (select_webhook start_config), start_world)"
    using start_sample by blast
  moreover have "names_ok (fs start_world)"
    by (auto simp: start_world_def start_tree_def plain_name_def intro!: names_ok_Dir names_ok_leaf)
  moreover have "env_ok start_world" by code_simp
  moreover have "faults start_world = []" by (simp add: start_world_def)
  moreover have "\<not> no_tls start_config" by (simp add: start_config_def config_defaults_def)
  ultimately show ?thesis using started_server[of "\<lambda>_. []" None start_libs start_config start_world] by blast
qed

end
