(* ===== verification/Cert_Laws.thy ===== *)
theory Cert_Laws
  imports Tls_Laws Copy_Laws Dir_Laws Samples
begin

text \<open>
  \<open>--gen-cert\<close> (\<open>generate_self_signed\<close> of \<open>src/tls.rs\<close>) and the next start: what it wrote is what is
  loaded, and the key is its owner's alone.
\<close>

lemma two_paths_swap: "two_paths a b p q w \<Longrightarrow> two_paths b a q p w"
  by (auto simp: two_paths_def)

lemma fs_write_Inr:
  assumes "two_paths a b p q w" and "fs_write q bs w = (Inr (), v)"
  shows "only_file {b} w v" and "holds b bs v"
proof -
  have env: "env_ok w" using two_pathsD(1)[OF assms(1)] .
  obtain l w1 where c: "file_create q w = (Inr l, w1)" "write_all l 0 bs w1 = (Inr (), v)"
    using assms(2) by (auto simp: fs_write_def split: sum.splits prod.splits)
  note f = file_create_result(1)[OF assms(1) c(1)] file_create_result(2)[OF assms(1) c(1) refl]
  have e: "env_ok w1" using only_file_env[OF f(1) env] .
  have "only_file {b} w1 v" using write_all_outcome[OF c(2) e] f(2) by simp
  with f(1) show "only_file {b} w v" by (rule only_file_trans)
  show "holds b bs v" using write_all_holds[OF c(2) e, of "[]"] f(2) by auto
qed

lemma set_permissions_Inr:
  assumes "env_ok w" and "resolve True w p = Inr l" and "set_permissions p m w = (Inr (), v)"
  shows "only_file {l} w v" and "files (fs v) l = map_option (\<lambda>d. d\<lparr>fmode := m\<rparr>) (files (fs w) l)"
proof -
  have "only_file {l} w v \<and> files (fs v) l = map_option (\<lambda>d. d\<lparr>fmode := m\<rparr>) (files (fs w) l)"
  proof (cases rule: sys_cases[OF assms(3)[unfolded set_permissions_def]])
    case (2 t)
    then have "fs v = map_file (\<lambda>d. d\<lparr>fmode := m\<rparr>) l (fs w)" "cwd v = cwd w"
      using assms(2) by (auto split: if_splits)
    from only_file_map[OF assms(1) this] show ?thesis by blast
  qed simp
  then show "only_file {l} w v" and "files (fs v) l = map_option (\<lambda>d. d\<lparr>fmode := m\<rparr>) (files (fs w) l)" by simp_all
qed

lemma create_parent_grows: "create_parent p w = (r, v) \<Longrightarrow> env_ok w \<Longrightarrow> grows w v"
  using create_dir_all_grows by (fastforce simp: create_parent_def with_context_def split: option.splits sum.splits prod.splits)

text \<open>The world in which the two files are written: both parent directories have been made.\<close>

definition parents_made :: "config \<Rightarrow> world \<Rightarrow> world" where
  "parents_made c w = snd (create_parent (key c) (snd (create_parent (cert c) w)))"

lemma and_then_Inr: "and_then r k = (Inr x, v) \<longleftrightarrow> (\<exists>y u. r = (Inr y, u) \<and> k y u = (Inr x, v))"
  by (cases r; cases "fst r") (auto simp: and_then_def)

lemma with_context_Inr: "with_context m r = (Inr x, v) \<longleftrightarrow> r = (Inr x, v)"
  by (cases r; cases "fst r") (auto simp: with_context_def)

lemma generate_Inr:
  assumes "generate_self_signed T c w = (Inr (), v)"
  obtains cp kp w3 w4 where "tl_generate T (san_list (cert_san c)) = Some (cp, kp)"
    "fs_write (cert c) cp (parents_made c w) = (Inr (), w3)" "fs_write (key c) kp w3 = (Inr (), w4)"
    "set_permissions (key c) 0x180 w4 = (Inr (), v)"
proof -
  obtain cp kp where p: "tl_generate T (san_list (cert_san c)) = Some (cp, kp)"
    using assms by (auto simp: generate_self_signed_def split: option.splits)
  have "\<exists>w1 w2. create_parent (cert c) w = (Inr (), w1) \<and> create_parent (key c) w1 = (Inr (), w2) \<and>
      (\<exists>w3 w4. fs_write (cert c) cp w2 = (Inr (), w3) \<and> fs_write (key c) kp w3 = (Inr (), w4) \<and>
        set_permissions (key c) 0x180 w4 = (Inr (), v))"
    using assms p by (simp add: generate_self_signed_def and_then_Inr with_context_Inr)
  then show thesis using that[OF p] unfolding parents_made_def by auto
qed

text \<open>C24 \<open>--gen-cert\<close> and the next start fit together: when it succeeds, whatever faults occurred on the way,
  the two files hold the generated certificate and key, the key is readable by its owner only, no other
  file has changed, and loading the identity gives what the PEM reader makes of exactly these bytes.\<close>

theorem generated_identity:
  assumes "generate_self_signed T c w = (Inr (), v)" and "env_ok w"
    and "two_paths lc lk (cert c) (key c) (parents_made c w)"
  shows "\<exists>cp kp dk. tl_generate T (san_list (cert_san c)) = Some (cp, kp) \<and>
    holds lc cp v \<and> files (fs v) lk = Some dk \<and> fbytes dk = kp \<and> fmode dk = 0x180 \<and>
    (\<forall>q. q \<notin> {lc, lk} \<longrightarrow> files (fs v) q = files (fs w) q) \<and>
    (\<forall>u cs k. faults u = [] \<and> fs u = fs v \<and> cwd u = cwd v \<and> tl_certs T cp = Some cs \<and> cs \<noteq> [] \<and>
       tl_key T kp = Some (Some k) \<longrightarrow> load_identity T (cert c) (key c) u = (Inr (cs, k), u))"
proof -
  obtain cp kp w3 w4 where g: "tl_generate T (san_list (cert_san c)) = Some (cp, kp)"
    "fs_write (cert c) cp (parents_made c w) = (Inr (), w3)" "fs_write (key c) kp w3 = (Inr (), w4)"
    "set_permissions (key c) 0x180 w4 = (Inr (), v)"
    using generate_Inr[OF assms(1)] by blast
  have t2: "two_paths lc lk (cert c) (key c) (parents_made c w)" using assms(3) .
  note c = fs_write_Inr[OF two_paths_swap[OF t2] g(2)]
  have t3: "two_paths lc lk (cert c) (key c) w3" using two_paths_frame[OF t2 c(1)] .
  note k = fs_write_Inr[OF t3 g(3)]
  have t4: "two_paths lc lk (cert c) (key c) w4" using two_paths_frame[OF t3 k(1)] .
  note m = set_permissions_Inr[OF two_pathsD(1)[OF t4] two_paths_follow(2)[OF t4] g(4)]
  have t5: "two_paths lc lk (cert c) (key c) v" using two_paths_frame[OF t4 m(1)] .
  have ne: "lc \<noteq> lk" using two_pathsD(4)[OF t2] .
  have g1: "grows w (snd (create_parent (cert c) w))" using create_parent_grows[OF surjective_pairing assms(2)] .
  have "grows w (parents_made c w)"
    unfolding parents_made_def
    using grows_trans[OF g1 create_parent_grows[OF surjective_pairing grows_env[OF g1 assms(2)]]] .
  then have fw: "files (fs (parents_made c w)) = files (fs w)" by (simp add: grows_def)
  have hc: "holds lc cp v" using c(2) k(1) m(1) ne by (simp add: holds_def only_file_def)
  obtain dk where dk: "files (fs v) lk = Some dk" "fbytes dk = kp" "fmode dk = 0x180"
    using k(2) m(2) by (auto simp: holds_def)
  have fr: "files (fs v) q = files (fs w) q" if "q \<notin> {lc, lk}" for q
    using that c(1) k(1) m(1) fw by (simp add: only_file_def)
  have "load_identity T (cert c) (key c) u = (Inr (cs, x), u)"
    if u: "faults u = []" "fs u = fs v" "cwd u = cwd v" "tl_certs T cp = Some cs" "cs \<noteq> []" "tl_key T kp = Some (Some x)"
    for u cs x
  proof -
    have r: "resolve True u (cert c) = Inr lc" "resolve True u (key c) = Inr lk"
      using two_paths_follow[OF t5] only_file_resolve[OF only_file_same[OF u(2,3)]] by simp_all
    obtain dc where dc: "tget (fs u) lc = Some (File dc)" "fbytes dc = cp"
      using hc u(2) by (auto simp: holds_def files_Some)
    have dk': "tget (fs u) lk = Some (File dk)" using dk(1) u(2) by (simp add: files_Some)
    have "file_open (cert c) u = (Inr lc, u)" "file_open (key c) u = (Inr lk, u)"
      using file_open_there[OF u(1) r(1)] file_open_there[OF u(1) r(2)] dc(1) dk' by simp_all
    then show ?thesis
      using read_to_end_file[OF u(1) dc(1), of 0] read_to_end_file[OF u(1) dk', of 0] dc(2) dk(2) u(4-6)
      by (simp add: load_identity_def load_certs_def load_key_def)
  qed
  with g(1) hc dk fr show ?thesis by blast
qed

definition gen_libs :: "(nat, nat, nat) tls_libs" where
  "gen_libs = \<lparr>tl_certs = (\<lambda>b. if b = [1] then Some [10] else None), tl_key = (\<lambda>b. if b = [2, 3] then Some (Some 20) else None),
     tl_versions = True, tl_single_cert = (\<lambda>cs k. Some (hd cs + k)), tl_generate = (\<lambda>_. Some ([1], [2, 3]))\<rparr>"

definition gen_config :: config where
  "gen_config = config_defaults\<lparr>cert := ''/tls/new/c.crt'', key := ''/tls/new/c.key'', gen_cert := True\<rparr>"

lemma generated_identity_witness:
  "\<exists>v dk. generate_self_signed gen_libs gen_config sample_world = (Inr (), v) \<and>
    files (fs v) [''tls'', ''new'', ''c.key''] = Some dk \<and> fbytes dk = [2, 3] \<and> fmode dk = 0x180"
proof -
  have "fst (generate_self_signed gen_libs gen_config sample_world) = Inr ()" by code_simp
  then obtain v where v: "generate_self_signed gen_libs gen_config sample_world = (Inr (), v)" by (metis prod.collapse)
  have t: "two_paths [''tls'', ''new'', ''c.crt''] [''tls'', ''new'', ''c.key''] (cert gen_config) (key gen_config)
    (parents_made gen_config sample_world)" by code_simp
  have "tl_generate gen_libs (san_list (cert_san gen_config)) = Some ([1], [2, 3])" by (simp add: gen_libs_def)
  then show ?thesis using generated_identity[OF v sample_env_ok t] v by force
qed

end
