(* ===== verification/Mover_Sudo.thy ===== *)
theory Mover_Sudo
  imports Mover_Copy
begin

text \<open>
  \<open>src/bin/file-mover-sudo.rs\<close>, the helper that runs as root: \<open>helper_run\<close> is its \<open>run\<close>,
  \<open>helper_main\<close> its \<open>main\<close>, from the argument to what it prints and its exit status.  Where the
  code maps an I/O error to its text, the error of a sub-operation is turned into the text here.
\<close>

section \<open>Helpers\<close>

definition helper_list_entries :: "mover_env \<Rightarrow> path \<Rightarrow> world \<Rightarrow> (string + json) \<times> world" where
  "helper_list_entries E p w =
     (case read_dir p w of
        (Inl e, w1) \<Rightarrow> (Inl (io_text E e), w1)
      | (Inr es, w1) \<Rightarrow>
          (case flat_entries es w1 of
             (es', w2) \<Rightarrow>
               (case entry_list (\<lambda>_. 0) p (sort (map fst es')) w2 of
                  (js, w3) \<Rightarrow> (Inr (JObject [(''entries'', JArray js)]), w3))))"

text \<open>
  The helper has its own copies of three routines of the mover, \<open>copy_file\<close>, \<open>dest_for\<close> and
  \<open>free_dst\<close>; the lemmas below show that they do the same.
\<close>

definition helper_copy_file :: "path \<Rightarrow> path \<Rightarrow> u64 io" where
  "helper_copy_file src dst w =
     (case file_open src w of
        (Inl e, w1) \<Rightarrow> (Inl e, w1)
      | (Inr r, w1) \<Rightarrow>
          (case file_create dst w1 of
             (Inl e, w2) \<Rightarrow> (Inl e, w2)
           | (Inr d, w2) \<Rightarrow>
               (case handle_mode r w2 of
                  (Inl e, w3) \<Rightarrow> (Inl e, w3)
                | (Inr perm, w3) \<Rightarrow> copy_loop \<lparr>c_src = r, c_dst = d, c_perm = perm, c_off = 0\<rparr> w3)))"

lemma helper_copy_file_eq: "helper_copy_file = copy_file"
  by (intro ext) (simp add: helper_copy_file_def copy_file_def copy_open_def split: prod.split sum.split)

definition helper_dest_for :: "path \<Rightarrow> path \<Rightarrow> world \<Rightarrow> path \<times> world" where
  "helper_dest_for src dst w =
     (case path_is_dir dst w of
        (d, w1) \<Rightarrow> (if d then path_join dst (case path_file_name src of Some n \<Rightarrow> n | None \<Rightarrow> []) else dst, w1))"

lemma helper_dest_for_eq: "helper_dest_for = dest_for"
  by (intro ext) (simp add: helper_dest_for_def dest_for_def split: prod.split bool.split)

definition helper_candidate :: "path \<Rightarrow> string \<Rightarrow> string \<Rightarrow> nat \<Rightarrow> path" where
  "helper_candidate parent stem ext i = path_join parent (stem @ ''_'' @ show_nat i @ ext)"

fun helper_free_from :: "path \<Rightarrow> string \<Rightarrow> string \<Rightarrow> nat list \<Rightarrow> world \<Rightarrow> path \<times> world" where
  "helper_free_from parent stem ext [] w = (helper_candidate parent stem ext 999, w)"
| "helper_free_from parent stem ext (i # is) w =
     (case path_exists (helper_candidate parent stem ext i) w of
        (False, w1) \<Rightarrow> (helper_candidate parent stem ext i, w1)
      | (True, w1) \<Rightarrow> helper_free_from parent stem ext is w1)"

definition helper_free_dst :: "path \<Rightarrow> world \<Rightarrow> path \<times> world" where
  "helper_free_dst dst w =
     (case path_exists dst w of
        (False, w1) \<Rightarrow> (dst, w1)
      | (True, w1) \<Rightarrow>
          helper_free_from (case path_parent dst of Some q \<Rightarrow> q | None \<Rightarrow> [])
            (case path_file_stem dst of Some s \<Rightarrow> s | None \<Rightarrow> [])
            (case path_extension dst of Some e \<Rightarrow> ''.'' @ e | None \<Rightarrow> []) [2..<1000] w1)"

lemma helper_free_dst_eq: "helper_free_dst = free_dst"
proof (intro ext)
  fix dst w
  have "helper_free_from (case path_parent dst of Some q \<Rightarrow> q | None \<Rightarrow> [])
      (case path_file_stem dst of Some s \<Rightarrow> s | None \<Rightarrow> [])
      (case path_extension dst of Some e \<Rightarrow> ''.'' @ e | None \<Rightarrow> []) is v = free_from is dst v" for "is" v
    by (induction "is" arbitrary: v)
      (auto simp: helper_candidate_def numbered_def Let_def split: prod.split bool.split)
  then show "helper_free_dst dst w = free_dst dst w"
    unfolding helper_free_dst_def free_dst_def by (simp split: prod.split bool.split del: upt_rec_numeral)
qed

lemmas helper_copies = helper_copy_file_eq helper_dest_for_eq helper_free_dst_eq

function copy_recursive :: "nat \<Rightarrow> path \<Rightarrow> path \<Rightarrow> world \<Rightarrow> ((io_error + unit) \<times> world) option"
  and copy_entries :: "nat \<Rightarrow> path \<Rightarrow> path \<Rightarrow> (string \<times> node) list \<Rightarrow> world \<Rightarrow> ((io_error + unit) \<times> world) option"
where
  "copy_recursive 0 src dst w = None"
| "copy_recursive (Suc n) src dst w =
     (case path_is_dir src w of
        (True, w1) \<Rightarrow>
          (case create_dir_all dst w1 of
             (Inl e, w2) \<Rightarrow> Some (Inl e, w2)
           | (Inr u, w2) \<Rightarrow>
               (case read_dir src w2 of
                  (Inl e, w3) \<Rightarrow> Some (Inl e, w3)
                | (Inr es, w3) \<Rightarrow> copy_entries n src dst es w3))
      | (False, w1) \<Rightarrow>
          (case helper_copy_file src dst w1 of
             (Inl e, w2) \<Rightarrow> Some (Inl e, w2)
           | (Inr cnt, w2) \<Rightarrow> Some (Inr (), w2)))"
| "copy_entries n src dst [] w = Some (Inr (), w)"
| "copy_entries n src dst (e # es) w =
     (case next_entry e w of
        (Inl x, w1) \<Rightarrow> Some (Inl x, w1)
      | (Inr e1, w1) \<Rightarrow>
          (case copy_recursive n (path_join src (fst e1)) (path_join dst (fst e1)) w1 of
             None \<Rightarrow> None
           | Some (Inl x, w2) \<Rightarrow> Some (Inl x, w2)
           | Some (Inr u, w2) \<Rightarrow> copy_entries n src dst es w2))"
  by pat_completeness auto
termination
  by (relation "measures [\<lambda>x. case x of Inl (n, _) \<Rightarrow> n | Inr (n, _) \<Rightarrow> n,
                          \<lambda>x. case x of Inl _ \<Rightarrow> 0 | Inr (n, s, d, es, _) \<Rightarrow> Suc (length es)]") auto

definition remove_recursive :: "path \<Rightarrow> unit io" where
  "remove_recursive p w =
     (case path_is_dir p w of
        (True, w1) \<Rightarrow> remove_dir_all p w1
      | (False, w1) \<Rightarrow> remove_file p w1)"

section \<open>The operations\<close>

type_synonym reply = "((string + json) \<times> world) option"

definition dst_reply :: "path \<Rightarrow> json" where
  "dst_reply d = JObject [(''dst'', JString d)]"

definition or_text :: "mover_env \<Rightarrow> (io_error + 'a) \<times> world \<Rightarrow> ('a \<Rightarrow> world \<Rightarrow> reply) \<Rightarrow> reply" where
  "or_text E r k = (case r of (Inl e, w) \<Rightarrow> Some (Inl (io_text E e), w) | (Inr x, w) \<Rightarrow> k x w)"

definition or_text_opt :: "mover_env \<Rightarrow> ((io_error + 'a) \<times> world) option \<Rightarrow> ('a \<Rightarrow> world \<Rightarrow> reply) \<Rightarrow> reply" where
  "or_text_opt E r k = (case r of None \<Rightarrow> None | Some x \<Rightarrow> or_text E x k)"

definition helper_move_copy :: "mover_env \<Rightarrow> nat \<Rightarrow> string \<Rightarrow> json \<Rightarrow> world \<Rightarrow> reply" where
  "helper_move_copy E depth opn req w =
     (let src = str_field ''src'' req;
          strategy = str_field ''strategy'' req in
      case helper_dest_for src (str_field ''dst'' req) w of
        (dst0, w1) \<Rightarrow>
          (case path_exists dst0 w1 of
             (ex, w2) \<Rightarrow>
               if ex \<and> strategy \<noteq> ''rename'' \<and> strategy \<noteq> ''merge'' \<and> strategy \<noteq> ''overwrite''
               then Some (Inr (JObject [(''conflict'', JBool True), (''dst'', JString dst0),
                                        (''error'', JString (''destination exists: '' @ dst0))]), w2)
               else case (if ex \<and> strategy = ''rename'' then helper_free_dst dst0 w2 else (dst0, w2)) of
                 (dst, w3) \<Rightarrow>
                   if opn = ''move'' then
                     (case rename_path src dst w3 of
                        (Inr u, w4) \<Rightarrow> Some (Inr (dst_reply dst), w4)
                      | (Inl e, w4) \<Rightarrow>
                          if kind_of e = CrossesDevices
                          then or_text_opt E (copy_recursive depth src dst w4) (\<lambda>_ w5.
                                 or_text E (remove_recursive src w5) (\<lambda>_ w6.
                                   Some (Inr (dst_reply dst), w6)))
                          else Some (Inl (io_text E e), w4))
                   else or_text_opt E (copy_recursive depth src dst w3) (\<lambda>_ w4.
                          Some (Inr (dst_reply dst), w4))))"

definition helper_rename :: "mover_env \<Rightarrow> json \<Rightarrow> world \<Rightarrow> reply" where
  "helper_rename E req w =
     (let src = str_field ''src'' req in
      case path_parent src of
        None \<Rightarrow> Some (Inl ''no parent'', w)
      | Some parent \<Rightarrow>
          (let dst = path_join parent (str_field ''name'' req) in
           case path_exists dst w of
             (True, w1) \<Rightarrow> Some (Inl (''destination exists: '' @ dst), w1)
           | (False, w1) \<Rightarrow> or_text E (rename_path src dst w1) (\<lambda>_ w2. Some (Inr (dst_reply dst), w2))))"

definition helper_delete :: "mover_env \<Rightarrow> json \<Rightarrow> world \<Rightarrow> reply" where
  "helper_delete E req w =
     (let p = str_field ''src'' req in
      or_text E (symlink_metadata p w) (\<lambda>md w1.
        or_text E (if is_dirn (Some md) then remove_dir_all p w1 else remove_file p w1) (\<lambda>_ w2.
          Some (Inr (JObject [(''ok'', JBool True)]), w2))))"

definition helper_put :: "mover_env \<Rightarrow> json \<Rightarrow> world \<Rightarrow> reply" where
  "helper_put E req w =
     (let dst = str_field ''dst'' req;
          tmp = str_field ''tmp'' req in
      or_text E (case path_parent dst of None \<Rightarrow> (Inr (), w) | Some q \<Rightarrow> create_dir_all q w) (\<lambda>_ w1.
        or_text E (helper_copy_file tmp dst w1) (\<lambda>_ w2.
          Some (Inr (dst_reply dst), snd (remove_file tmp w2)))))"

definition helper_run :: "mover_env \<Rightarrow> nat \<Rightarrow> string \<Rightarrow> json \<Rightarrow> world \<Rightarrow> reply" where
  "helper_run E depth opn req w =
     (if opn = ''ls'' then Some (helper_list_entries E (str_field ''p'' req) w)
      else if opn = ''move'' \<or> opn = ''copy'' then helper_move_copy E depth opn req w
      else if opn = ''rename'' then helper_rename E req w
      else if opn = ''mkdir'' then
        or_text E (create_dir_all (str_field ''dst'' req) w) (\<lambda>_ w1.
          Some (Inr (dst_reply (str_field ''dst'' req)), w1))
      else if opn = ''delete'' then helper_delete E req w
      else if opn = ''put'' then helper_put E req w
      else Some (Inl ''unknown op'', w))"

text \<open>Exit status, standard output, and the world; the arguments include the program's name.\<close>

definition helper_main :: "mover_env \<Rightarrow> nat \<Rightarrow> string list \<Rightarrow> world \<Rightarrow> (nat \<times> string \<times> world) option" where
  "helper_main E depth args w =
     (if length args < 2 then Some (1, [], w)
      else case json_parse E (args ! 1) of
             Inl e \<Rightarrow> Some (1, json_text E (JObject [(''error'', JString e)]) @ [CHR 0x0A], w)
           | Inr req \<Rightarrow>
               (case helper_run E depth (str_field ''op'' req) req w of
                  None \<Rightarrow> None
                | Some (res, w1) \<Rightarrow>
                    Some (0, json_text E (case res of Inr v \<Rightarrow> v | Inl e \<Rightarrow> JObject [(''error'', JString e)])
                             @ [CHR 0x0A], w1)))"

end
