(* ===== verification/Helper_Copy.thy ===== *)
theory Helper_Copy
  imports Mover_Sudo Tree_Copy
begin

text \<open>
  The privileged helper copying a tree (\<open>copy_recursive\<close> of \<open>src/bin/file-mover-sudo.rs\<close>): unlike the
  mover's jobs it reads each directory while it copies, so what has been written must not be read
  again.  What a step leaves alone is therefore stated for whole nodes, the order of a directory's
  entries included.
\<close>

section \<open>Nodes beside a place are left alone\<close>

definition beside :: "loc \<Rightarrow> world \<Rightarrow> world \<Rightarrow> bool" where
  "beside L w v \<longleftrightarrow> (\<forall>q. L \<parallel> q \<longrightarrow> tget (fs v) q = tget (fs w) q)"

lemma beside_refl [simp]: "beside L w w"
  by (simp add: beside_def)

lemma beside_trans [trans]: "beside L w v \<Longrightarrow> beside L v u \<Longrightarrow> beside L w u"
  by (simp add: beside_def)

lemma beside_same: "fs v = fs w \<Longrightarrow> beside L w v"
  by (simp add: beside_def)

lemma tget_map_file: "L \<parallel> q \<Longrightarrow> tget (map_file f L t) q = tget t q"
  by (auto simp: map_file_def tget_tput_par split: option.splits node.splits)

lemma write_once_beside:
  assumes "write_once L off data w = (r, v)"
  shows "beside L w v"
proof (cases "\<exists>k rest. faults w = ShortWrite k # rest")
  case True
  with assms show ?thesis by (auto simp: write_once_def beside_def tget_map_file)
next
  case False
  then have "sys (\<lambda>w. (Inr (length data), map_file (fbytes_update (store_at off data)) L (fs w))) w = (r, v)"
    using assms by (auto simp: write_once_def split: list.splits fault.splits)
  then show ?thesis by (cases rule: sys_cases) (auto simp: beside_def tget_map_file)
qed

lemma write_all_beside: "write_all L off data w = (r, v) \<Longrightarrow> beside L w v"
proof (induction L off data w rule: write_all.induct)
  case (1 l off data w)
  show ?case
  proof (cases "data = []")
    case True
    with "1.prems" show ?thesis by (simp add: write_all.simps)
  next
    case False
    obtain r1 w1 where w1: "write_once l off data w = (r1, w1)" by fastforce
    note b = write_once_beside[OF w1]
    show ?thesis
    proof (cases "\<exists>n. r1 = Inr n \<and> n \<noteq> 0")
      case True
      then obtain n where n: "r1 = Inr n" "n \<noteq> 0" by blast
      with False w1 "1.prems" have "write_all l (off + n) (drop n data) w1 = (r, v)"
        by (subst (asm) write_all.simps) simp
      from "1.IH"[OF False w1[symmetric] n this] show ?thesis by (rule beside_trans[OF b])
    next
      case stop: False
      with False w1 "1.prems" have "v = w1"
        by (subst (asm) write_all.simps) (auto split: sum.splits if_splits)
      with b show ?thesis by simp
    qed
  qed
qed

lemma file_create_beside:
  assumes "resolve True w q = Inr L" and "file_create q w = (r, v)" and "last q \<noteq> slash"
  shows "beside L w v"
  using assms(2) unfolding file_create_def
  by (cases rule: sys_cases) (use assms(1,3) in \<open>auto simp: beside_def tget_tput_par split: option.splits node.splits\<close>)

lemma set_mode_beside: "beside L w (snd (set_mode L m w))"
proof -
  obtain r v where s: "set_mode L m w = (r, v)" by fastforce
  have "beside L w v"
    by (cases rule: sys_cases[OF s[unfolded set_mode_def]]) (auto simp: beside_def tget_map_file)
  with s show ?thesis by simp
qed

lemma copy_chunk_beside:
  assumes "copy_chunk c w = (r, v)"
  shows "beside (c_dst c) w v" and "r = Inr (Some c') \<Longrightarrow> c_dst c' = c_dst c"
proof -
  obtain r1 w1 where b: "read_buf (c_src c) (c_off c) w = (r1, w1)" by fastforce
  have s: "fs w1 = fs w" using b unfolding read_buf_def read_at_def by (drule_tac sys_query) simp
  have "beside (c_dst c) w v \<and> (\<forall>c'. r = Inr (Some c') \<longrightarrow> c_dst c' = c_dst c)"
  proof (cases "\<exists>buf. r1 = Inr buf \<and> buf \<noteq> []")
    case True
    then obtain buf where buf: "r1 = Inr buf" "buf \<noteq> []" by blast
    obtain r2 w2 where wa: "write_all (c_dst c) (c_off c) buf w1 = (r2, w2)" by fastforce
    have "v = w2" "\<forall>c'. r = Inr (Some c') \<longrightarrow> c_dst c' = c_dst c"
      using assms b buf wa by (auto simp: copy_chunk_def split: sum.splits)
    with write_all_beside[OF wa] s show ?thesis by (simp add: beside_def)
  next
    case False
    then have "v = w1 \<or> v = snd (set_mode (c_dst c) (c_perm c) w1)" "\<forall>c'. r \<noteq> Inr (Some c')"
      using assms b by (auto simp: copy_chunk_def split: sum.splits if_splits)
    with set_mode_beside[of "c_dst c" w1 "c_perm c"] s show ?thesis by (auto simp: beside_def)
  qed
  then show "beside (c_dst c) w v" and "r = Inr (Some c') \<Longrightarrow> c_dst c' = c_dst c" by blast+
qed

lemma copy_loop_beside: "copy_loop c w = (r, v) \<Longrightarrow> beside (c_dst c) w v"
proof (induction c w rule: copy_loop.induct)
  case (1 c w)
  obtain r1 w1 where ch: "copy_chunk c w = (r1, w1)" by fastforce
  note b = copy_chunk_beside[OF ch]
  show ?case
  proof (cases "\<exists>c'. r1 = Inr (Some c')")
    case True
    then obtain c' where c': "r1 = Inr (Some c')" by blast
    with ch "1.prems" have "copy_loop c' w1 = (r, v)" by (subst (asm) copy_loop.simps) simp
    from "1.IH"[OF ch[symmetric] c' refl this] b(2)[OF c'] b(1) show ?thesis by (auto intro: beside_trans)
  next
    case False
    with ch "1.prems" have "v = w1" by (subst (asm) copy_loop.simps) (auto split: sum.splits option.splits)
    with b(1) show ?thesis by simp
  qed
qed

lemma copy_file_beside:
  assumes "two_paths a b p q w" and "copy_file p q w = (r, v)"
  shows "beside b w v"
proof -
  obtain r1 w1 where o: "copy_open p q w = (r1, w1)" by fastforce
  have o1: "beside b w w1"
  proof -
    obtain r2 w2 where f: "file_open p w = (r2, w2)" by fastforce
    have s: "fs w2 = fs w" "cwd w2 = cwd w" using f unfolding file_open_def by (drule_tac sys_query, simp)+
    have t: "two_paths a b p q w2" using two_paths_frame[OF assms(1) only_file_same[OF s]] .
    have l: "last q \<noteq> slash" using assms(1) by (simp add: two_paths_def plain_end_def)
    obtain r3 w3 where c: "file_create q w2 = (r3, w3)" by fastforce
    have "beside b w w3"
      using file_create_beside[OF two_paths_follow(2)[OF t] c l] s(1) by (simp add: beside_def)
    moreover have "w1 = w2 \<or> fs w1 = fs w3"
      using o f c handle_mode_result by (fastforce simp: copy_open_def split: sum.splits prod.splits)
    ultimately show ?thesis using s(1) by (auto simp: beside_def)
  qed
  show ?thesis
  proof (cases r1)
    case (Inl e)
    with o o1 assms(2) show ?thesis by (simp add: copy_file_def)
  next
    case (Inr c)
    with o assms(2) have "copy_loop c w1 = (r, v)" by (simp add: copy_file_def)
    with copy_loop_beside copy_open_result(2)[OF assms(1) o Inr] o1 show ?thesis
      by (metis beside_trans)
  qed
qed

lemma copy_loop_quiet:
  assumes "env_ok w" and "c_src c \<noteq> c_dst c" and "holds (c_src c) bs w"
    and "holds (c_dst c) (take (c_off c) bs) w" and "c_off c \<le> length bs" and "faults w = []"
  shows "\<exists>n v. copy_loop c w = (Inr n, v) \<and> faults v = []"
  using assms
proof (induction c w rule: copy_loop.induct)
  case (1 c w)
  obtain r1 w1 where cc: "copy_chunk c w = (r1, w1)" by fastforce
  note st = copy_chunk_result[OF "1.prems"(1-5) cc]
  obtain x where x: "r1 = Inr x" "faults w1 = []" using copy_chunk_quiet[OF "1.prems"(3,6) cc] by blast
  show ?case
  proof (cases x)
    case None
    with cc x show ?thesis by (subst copy_loop.simps) simp
  next
    case (Some c')
    note s3 = st(3)[OF x(1)[unfolded Some]]
    have "holds (c_src c') bs w1" using holds_frame[OF st(1)] s3 "1.prems"(2,3) by simp
    with "1.IH"[OF cc[symmetric] x(1) Some] s3 "1.prems"(2) only_file_env[OF st(1) "1.prems"(1)] x(2)
    obtain n v where "copy_loop c' w1 = (Inr n, v)" "faults v = []" by auto
    with cc x(1) Some show ?thesis by (subst copy_loop.simps) simp
  qed
qed

lemma copy_file_quiet:
  assumes "two_paths a b p q w" and "holds a bs w" and "faults w = []"
  obtains n v where "copy_file p q w = (Inr n, v)" "faults v = []" "only_file {b} w v" "holds b bs v" "beside b w v"
proof -
  obtain r1 w1 where o: "copy_open p q w = (r1, w1)" by fastforce
  obtain c where c: "r1 = Inr c" "faults w1 = []" using copy_open_quiet[OF assms o] by blast
  note co = copy_open_result[OF assms(1) o]
  have ne: "a \<noteq> b" "env_ok w" using assms(1) by (simp_all add: two_paths_def)
  have h: "holds a bs w1" using holds_frame[OF co(1)] ne assms(2) by simp
  obtain n v where l: "copy_loop c w1 = (Inr n, v)" "faults v = []"
    using copy_loop_quiet[of w1 c bs] co(2)[OF c(1)] h ne only_file_env[OF co(1) ne(2)] c(2) by auto
  have f: "copy_file p q w = (Inr n, v)" using o c(1) l by (simp add: copy_file_def)
  from that[OF f l(2)] copy_file_result[OF assms(1,2) f] copy_file_beside[OF assms(1) f] show thesis by blast
qed

section \<open>A copy in the making\<close>

text \<open>
  \<open>made L w v\<close>: from \<open>w\<close>, where nothing is at \<open>L\<close>, to \<open>v\<close> only things at and below \<open>L\<close> have been made.
  \<open>mirrors n L v\<close>: at \<open>L\<close> there is what the tree \<open>n\<close> holds, bytes and directories.
\<close>

definition made :: "loc \<Rightarrow> world \<Rightarrow> world \<Rightarrow> bool" where
  "made L w v \<longleftrightarrow> faults v = [] \<and> cwd v = cwd w \<and> beside L w v \<and>
     (\<forall>q. strict_prefix q L \<longrightarrow> is_dirn (tget (fs w) q) \<and> is_dirn (tget (fs v) q)) \<and>
     (\<forall>r x. tget (fs v) (L @ r) \<noteq> Some (Symlink x))"

definition mirrors :: "node \<Rightarrow> loc \<Rightarrow> world \<Rightarrow> bool" where
  "mirrors n L v \<longleftrightarrow> (\<forall>r. case tget n r of
     Some (File d) \<Rightarrow> holds (L @ r) (fbytes d) v
   | Some (Dir es) \<Rightarrow> is_dirn (tget (fs v) (L @ r))
   | _ \<Rightarrow> tget (fs v) (L @ r) = None)"

lemma made_tree_grows:
  assumes "made L w v" and "tget (fs w) L = None"
  shows "tree_grows (fs w) (fs v)" and "\<forall>q x. tget (fs v) q = Some (Symlink x) \<longrightarrow> tget (fs w) q = Some (Symlink x)"
proof -
  have at: "tget (fs v) q = tget (fs w) q \<or> (is_dirn (tget (fs w) q) \<and> is_dirn (tget (fs v) q)) \<or>
      (tget (fs w) q = None \<and> (\<forall>x. tget (fs v) q \<noteq> Some (Symlink x)))" for q
  proof (cases q L rule: loc_cases)
    case eq
    with assms show ?thesis by (metis append_Nil2 made_def)
  next
    case par
    with assms(1) show ?thesis by (simp add: made_def beside_def)
  next
    case above
    with assms(1) show ?thesis by (simp add: made_def)
  next
    case (below r)
    with assms tget_prefix_Some[of "fs w" L r] show ?thesis by (fastforce simp: made_def)
  qed
  show "tree_grows (fs w) (fs v)"
    unfolding tree_grows_def
  proof
    fix q
    from at[of q] show "case tget (fs w) q of None \<Rightarrow> True | Some (File d) \<Rightarrow> tget (fs v) q = Some (File d)
      | Some (Symlink s) \<Rightarrow> tget (fs v) q = Some (Symlink s) | Some (Dir es) \<Rightarrow> is_dirn (tget (fs v) q)"
      by (auto simp: is_dirn_iff split: option.splits node.splits)
  qed
  show "\<forall>q x. tget (fs v) q = Some (Symlink x) \<longrightarrow> tget (fs w) q = Some (Symlink x)"
  proof (intro allI impI)
    fix q x assume "tget (fs v) q = Some (Symlink x)"
    with at[of q] show "tget (fs w) q = Some (Symlink x)" by (auto simp: is_dirn_iff)
  qed
qed

lemma made_keeps:
  assumes "made L w v" and "tget (fs w) L = None" and "env_ok w"
  shows "env_ok v" and "resolve f w p = Inr l \<Longrightarrow> resolve f v p = Inr l"
proof -
  note g = made_tree_grows[OF assms(1,2)]
  have c: "cwd v = cwd w" using assms(1) by (simp add: made_def)
  have "is_dirn (tget (fs v) q)" if "is_dirn (tget (fs w) q)" for q
    using that tree_growsD(3)[OF g(1), of q] by (auto simp: is_dirn_iff)
  from this[of "[]"] this[of "cwd w"] show "env_ok v" using assms(3) c by (simp add: env_ok_def)
  show "resolve f v p = Inr l" if "resolve f w p = Inr l"
    using that walk_grows_any[OF g] c by (auto simp: resolve_def split: if_splits)
qed

lemma mirrors_cong:
  assumes "\<And>r. tget (fs v) (L @ r) = tget (fs w) (L @ r)"
  shows "mirrors n L v = mirrors n L w"
  unfolding mirrors_def holds_def files_def assms ..

lemma mirrors_Dir:
  assumes "is_dirn (tget (fs v) L)"
    and "\<And>s r. case map_of es s of Some m \<Rightarrow> mirrors m (L @ [s]) v | None \<Rightarrow> tget (fs v) (L @ s # r) = None"
  shows "mirrors (Dir es) L v"
  unfolding mirrors_def
proof
  fix r
  show "case tget (Dir es) r of Some (File d) \<Rightarrow> holds (L @ r) (fbytes d) v
     | Some (Dir es) \<Rightarrow> is_dirn (tget (fs v) (L @ r)) | _ \<Rightarrow> tget (fs v) (L @ r) = None"
  proof (cases r)
    case Nil
    with assms(1) show ?thesis by simp
  next
    case (Cons s r')
    show ?thesis
    proof (cases "map_of es s")
      case None
      with assms(2)[of s r'] Cons show ?thesis by simp
    next
      case (Some m)
      with assms(2)[of s r'] have "mirrors m (L @ [s]) v" by simp
      then have "case tget m r' of Some (File d) \<Rightarrow> holds ((L @ [s]) @ r') (fbytes d) v
         | Some (Dir es) \<Rightarrow> is_dirn (tget (fs v) ((L @ [s]) @ r')) | _ \<Rightarrow> tget (fs v) ((L @ [s]) @ r') = None"
        unfolding mirrors_def by (rule spec)
      moreover have "L @ r = (L @ [s]) @ r'" "tget (Dir es) r = tget m r'" using Some Cons by simp_all
      ultimately show ?thesis by metis
    qed
  qed
qed

section \<open>The recursion\<close>

definition partly :: "(string \<times> node) list \<Rightarrow> loc \<Rightarrow> world \<Rightarrow> bool" where
  "partly es L v \<longleftrightarrow> is_dirn (tget (fs v) L) \<and>
     (\<forall>s r. case map_of es s of Some m \<Rightarrow> mirrors m (L @ [s]) v | None \<Rightarrow> tget (fs v) (L @ s # r) = None)"

text \<open>What a tree's copy is made from: the source beside a free place.\<close>

definition copy_ready :: "path \<Rightarrow> loc \<Rightarrow> node \<Rightarrow> path \<Rightarrow> loc \<Rightarrow> world \<Rightarrow> bool" where
  "copy_ready src l n dst L w \<longleftrightarrow> copyable src l n dst L w \<and> \<not> prefix l L"

lemma copy_ready_par:
  assumes "copy_ready src l n dst L w"
  shows "L \<parallel> l"
proof -
  have "\<not> prefix L l"
    using tget_prefix_Some[of "fs w" L] assms by (fastforce simp: copy_ready_def copyable_def prefix_def)
  with assms show ?thesis by (simp add: parallel_def copy_ready_def)
qed

lemma made_child:
  assumes "made L w v" and "is_dirn (tget (fs v) L)" and "made (L @ [s]) v u"
  shows "made L w u" and "is_dirn (tget (fs u) L)" and "x \<noteq> s \<Longrightarrow> tget (fs u) (L @ x # r) = tget (fs v) (L @ x # r)"
proof -
  have par: "tget (fs u) q = tget (fs v) q" if "L @ [s] \<parallel> q" for q using assms(3) that by (simp add: made_def beside_def)
  have eq: "tget (fs u) (L @ x # r) = tget (fs v) (L @ x # r)" if "x \<noteq> s" for x r
    using that by (intro par) (auto simp: parallel_def)
  then show "x \<noteq> s \<Longrightarrow> tget (fs u) (L @ x # r) = tget (fs v) (L @ x # r)" .
  have d: "is_dirn (tget (fs u) q)" if "prefix q L" for q
    using assms(3) that by (auto simp: made_def strict_prefix_def prefix_def)
  then show "is_dirn (tget (fs u) L)" by simp
  have b: "beside L w u"
    unfolding beside_def
  proof (intro allI impI)
    fix q assume "L \<parallel> q"
    then have "L @ [s] \<parallel> q" using parallel_append[of L q "[s]" "[]"] by simp
    with par \<open>L \<parallel> q\<close> assms(1) show "tget (fs u) q = tget (fs w) q" by (simp add: made_def beside_def)
  qed
  have l: "tget (fs u) (L @ r) \<noteq> Some (Symlink y)" for r y
  proof (cases r)
    case Nil
    with d[of L] show ?thesis by (auto simp: is_dirn_iff)
  next
    case (Cons x r')
    show ?thesis
    proof (cases "x = s")
      case True
      with Cons assms(3) show ?thesis by (simp add: made_def)
    next
      case False
      with eq[of x r'] Cons assms(1) show ?thesis by (simp add: made_def)
    qed
  qed
  show "made L w u"
    using assms(1,3) b d l unfolding made_def by (auto simp: strict_prefix_def)
qed

lemma partly_child:
  assumes "partly es L v" and "made L w v" and "made (L @ [s]) v u" and "mirrors m (L @ [s]) u" and "s \<notin> fst ` set es"
  shows "partly (es @ [(s, m)]) L u"
proof -
  have d: "is_dirn (tget (fs v) L)" using assms(1) by (simp add: partly_def)
  note c = made_child[OF assms(2) d assms(3)]
  have "case map_of (es @ [(s, m)]) x of Some m \<Rightarrow> mirrors m (L @ [x]) u | None \<Rightarrow> tget (fs u) (L @ x # r) = None" for x r
  proof (cases "x = s")
    case True
    then have "map_of es x = None" using assms(5) by (simp add: map_of_eq_None_iff)
    with True assms(4) show ?thesis by (simp add: map_add_def)
  next
    case False
    then have "mirrors n (L @ [x]) u = mirrors n (L @ [x]) v" for n
      by (intro mirrors_cong) (simp add: c(3))
    moreover have "case map_of es x of Some m \<Rightarrow> mirrors m (L @ [x]) v | None \<Rightarrow> tget (fs v) (L @ x # r) = None"
      using assms(1) unfolding partly_def by blast
    ultimately show ?thesis using False c(3) by (simp add: map_add_def split: option.splits)
  qed
  with c(2) show ?thesis by (simp add: partly_def)
qed

lemma copy_ready_start:
  assumes "copy_ready src l n dst L w"
  shows "dir_above (fs w) L" and "L \<noteq> []" and "l \<noteq> L" and "\<And>q. strict_prefix q L \<Longrightarrow> is_dirn (tget (fs w) q)"
proof -
  note c = copyableD[of src l n dst L w]
  have a: "copyable src l n dst L w" using assms by (simp add: copy_ready_def)
  show d: "dir_above (fs w) L" using resolve_dir_above[OF c(1)[OF a] c(8)[OF a]] .
  show "L \<noteq> []" using c(9)[OF a] by (metis option.distinct(1) tget.simps(1))
  show "l \<noteq> L" using c(5,9)[OF a] by (metis option.distinct(1))
  show "is_dirn (tget (fs w) q)" if "strict_prefix q L" for q using dir_above_prefix[OF d that] .
qed

lemma copy_leaf:
  assumes "copy_ready src l (File d) dst L w"
  shows "\<exists>n v. copy_file src dst w = (Inr n, v) \<and> made L w v \<and> mirrors (File d) L v"
proof -
  have a: "copyable src l (File d) dst L w" using assms by (simp add: copy_ready_def)
  note c = copyableD[OF a] and st = copy_ready_start[OF assms]
  have "l \<noteq> []" using c(1,5) by (auto simp: env_ok_def)
  then have t: "two_paths l L src dst w"
    using c st(2,3) by (simp add: two_paths_def skel_of_def)
  have h: "holds l (fbytes d) w" using c(5) by (simp add: holds_def files_Some)
  obtain n v where f: "copy_file src dst w = (Inr n, v)" "faults v = []" "only_file {L} w v" "holds L (fbytes d) v" "beside L w v"
    using copy_file_quiet[OF t h c(2)] by blast
  obtain d' where L: "tget (fs v) L = Some (File d')" using f(4) by (auto simp: holds_def files_Some)
  have below: "tget (fs v) (L @ r) = None" if "r \<noteq> []" for r
    using leaf_below[of "fs v" L r] L that by (simp add: skel_of_def)
  have link: "tget (fs v) (L @ r) \<noteq> Some (Symlink x)" for r x using L below[of r] by (cases "r = []") simp_all
  have dirs: "is_dirn (tget (fs v) q)" if "strict_prefix q L" for q
    using st(4)[OF that] f(3) skel_eq_dir[of "fs w" "fs v" q] by (simp add: only_file_def)
  have m: "made L w v" using f(2,3,5) st(4) dirs link by (simp add: made_def only_file_def)
  have "mirrors (File d) L v"
    unfolding mirrors_def
  proof
    fix r
    show "case tget (File d) r of Some (File d) \<Rightarrow> holds (L @ r) (fbytes d) v
      | Some (Dir es) \<Rightarrow> is_dirn (tget (fs v) (L @ r)) | _ \<Rightarrow> tget (fs v) (L @ r) = None"
      using f(4) below[of r] by (cases r) simp_all
  qed
  with f(1) m show ?thesis by blast
qed

lemma copy_dir_start:
  assumes "copy_ready src l (Dir es) dst L w"
  shows "\<exists>v. create_dir_all dst w = (Inr (), v) \<and> made L w v \<and> partly [] L v"
proof -
  have a: "copyable src l (Dir es) dst L w" using assms by (simp add: copy_ready_def)
  note c = copyableD[OF a] and st = copy_ready_start[OF assms]
  define v where "v = w\<lparr>fs := tput (fs w) L (Dir [])\<rparr>"
  have cd: "create_dir_all dst w = (Inr (), v)" unfolding v_def by (rule create_dir_all_new[OF c(2,7,8,9)])
  have new: "tget (fs v) L = Some (Dir [])"
    using st(1,2) by (simp add: v_def nt.get_put_same dir_above_def)
  have below: "tget (fs v) (L @ r) = None" if "r \<noteq> []" for r
    using new that by (cases r) (simp_all add: tget_append[of "fs v" L])
  have dirs: "is_dirn (tget (fs v) q)" if "strict_prefix q L" for q
    using st(4)[OF that] put_dir_grows[OF c(9) st(1), of v] by (simp add: grows_def v_def)
  have link: "tget (fs v) (L @ r) \<noteq> Some (Symlink x)" for r x using new below[of r] by (cases "r = []") simp_all
  have "made L w v" using c(2) st(4) dirs link by (simp add: made_def v_def beside_def tget_tput_par)
  moreover have "partly [] L v" using new below by (simp add: partly_def)
  ultimately show ?thesis using cd by blast
qed

lemma copy_ready_child:
  assumes "copy_ready src l (Dir es) dst L w" and "made L w v" and "partly fore L v" and "e \<in> set es" and "fst e \<notin> fst ` set fore"
  shows "copy_ready (path_join src (fst e)) (l @ [fst e]) (snd e) (path_join dst (fst e)) (L @ [fst e]) v"
proof -
  have a: "copyable src l (Dir es) dst L w" using assms(1) by (simp add: copy_ready_def)
  note c = copyableD[OF a]
  have e: "plain_name (fst e)" "plain_tree (snd e)" "distinct (map fst es)" using c(6) assms(4) by auto
  have par: "L \<parallel> l" by (rule copy_ready_par[OF assms(1)])
  have par': "L \<parallel> l @ [x]" for x using par parallel_append[of L l "[]" "[x]"] by simp
  note k = made_keeps[OF assms(2) c(9) c(1)]
  have src: "tget (fs v) l = Some (Dir es)" "tget (fs v) (l @ [fst e]) = Some (snd e)"
    using assms(2) par par' c(5) child_node[OF c(5) e(3) assms(4)] by (simp_all add: made_def beside_def)
  obtain es' where dst: "tget (fs v) L = Some (Dir es')" using assms(3) by (auto simp: partly_def is_dirn_iff)
  have rd: "resolve True v dst = Inr L" using k(2)[OF c(8)] dst by (intro resolve_follow) simp_all
  have "map_of fore (fst e) = None" using assms(5) by (simp add: map_of_eq_None_iff)
  then have none: "tget (fs v) (L @ [fst e]) = None"
    using assms(3) unfolding partly_def by (metis option.simps(4))
  have "\<not> prefix (l @ [fst e]) (L @ [fst e])"
    using parallel_append[of L l "[fst e]" "[fst e]"] par by (simp add: parallel_def)
  moreover have "resolve False v (path_join src (fst e)) = Inr (l @ [fst e])"
    using resolve_name[OF k(2)[OF c(10)] src(1) e(1)] by simp
  moreover have "resolve False v (path_join dst (fst e)) = Inr (L @ [fst e])"
    using resolve_name[OF rd dst e(1)] by simp
  ultimately show ?thesis
    using k(1) assms(2) src(2) none e(1,2) plain_end_join by (simp add: copy_ready_def copyable_def made_def)
qed

lemma copy_recursive_mirrors:
  assumes "copy_ready src l n dst L w" and "tree_height n < depth"
  shows "\<exists>v. copy_recursive depth src dst w = Some (Inr (), v) \<and> made L w v \<and> mirrors n L v"
  using assms
proof (induction n arbitrary: src l dst L w depth)
  case (File d)
  obtain k where k: "depth = Suc k" using File.prems(2) by (cases depth) auto
  have c: "copyable src l (File d) dst L w" using File.prems(1) by (simp add: copy_ready_def)
  have "path_is_dir src w = (False, w)"
    using copyableD[OF c] by (simp add: quiet_queries node_at_def)
  with copy_leaf[OF File.prems(1)] k show ?case by (auto simp: helper_copies)
next
  case (Symlink x)
  then show ?case by (simp add: copy_ready_def copyable_def)
next
  case (Dir es)
  obtain k where k: "depth = Suc k" using Dir.prems(2) by (cases depth) auto
  have c: "copyable src l (Dir es) dst L w" using Dir.prems(1) by (simp add: copy_ready_def)
  note cw = copyableD[OF c]
  obtain v where v: "create_dir_all dst w = (Inr (), v)" "made L w v" "partly [] L v"
    using copy_dir_start[OF Dir.prems(1)] by blast
  have all: "\<exists>u. copy_entries k src dst rest v = Some (Inr (), u) \<and> made L w u \<and> partly es L u"
    if "es = fore @ rest" "made L w v" "partly fore L v" for fore rest v
    using that
  proof (induction rest arbitrary: fore v)
    case (Cons e rest)
    have e: "e \<in> set es" "fst e \<notin> fst ` set fore" "distinct (map fst es)" using Cons.prems(1) cw(6) by auto
    note r = copy_ready_child[OF Dir.prems(1) Cons.prems(2,3) e(1,2)]
    obtain u where u: "copy_recursive k (path_join src (fst e)) (path_join dst (fst e)) v = Some (Inr (), u)"
      "made (L @ [fst e]) v u" "mirrors (snd e) (L @ [fst e]) u"
      using Dir.IH[OF e(1) snd_in_snds r child_height[OF e(1) Dir.prems(2)[unfolded k]]] by blast
    have d: "is_dirn (tget (fs v) L)" using Cons.prems(3) by (simp add: partly_def)
    have m: "made L w u" by (rule made_child(1)[OF Cons.prems(2) d u(2)])
    have "partly (fore @ [e]) L u" using partly_child[OF Cons.prems(3,2) u(2,3) e(2)] by simp
    from Cons.IH[of "fore @ [e]", OF _ m this] Cons.prems(1)
    obtain z where z: "copy_entries k src dst rest u = Some (Inr (), z)" "made L w z" "partly es L z" by auto
    have "next_entry e v = (Inr e, v)" using Cons.prems(2) by (simp add: made_def quiet_queries)
    with u(1) z show ?case by simp
  qed (simp add: copy_entries.simps)
  obtain u where u: "copy_entries k src dst es v = Some (Inr (), u)" "made L w u" "partly es L u"
    using all[of "[]" es v] v by auto
  have "path_is_dir src w = (True, w)" using cw by (simp add: quiet_queries node_at_def)
  moreover have "read_dir src v = (Inr es, v)"
  proof (rule read_dir_quiet)
    show "faults v = []" using v(2) by (simp add: made_def)
    show "resolve True v src = Inr l" by (rule made_keeps(2)[OF v(2) cw(9,1,10)])
    show "tget (fs v) l = Some (Dir es)"
      using v(2) copy_ready_par[OF Dir.prems(1)] cw(5) by (simp add: made_def beside_def)
  qed
  ultimately have "copy_recursive depth src dst w = Some (Inr (), u)" using k v(1) u(1) by simp
  moreover have "mirrors (Dir es) L u"
    using u(3) by (intro mirrors_Dir) (auto simp: partly_def)
  ultimately show ?case using u(2) by blast
qed

section \<open>The request\<close>

text \<open>Asked to copy a tree to a free place outside it, the helper answers with the destination, where there
  is then an exact copy, empty directories included; every other node is as before, but for the entry in
  the directories above.\<close>

lemma helper_copied:
  assumes "copy_ready src l n dst L w" and "tree_height n < depth"
    and "str_field ''src'' req = src" and "str_field ''dst'' req = dst"
  shows "\<exists>v. helper_run E depth ''copy'' req w = Some (Inr (dst_reply dst), v) \<and> mirrors n L v \<and>
    (\<forall>q. \<not> prefix L q \<longrightarrow> tget (fs v) q = tget (fs w) q \<or>
       (strict_prefix q L \<and> is_dirn (tget (fs w) q) \<and> is_dirn (tget (fs v) q)))"
proof -
  obtain v where v: "copy_recursive depth src dst w = Some (Inr (), v)" "made L w v" "mirrors n L v"
    using copy_recursive_mirrors[OF assms(1,2)] by blast
  have c: "copyable src l n dst L w" using assms(1) by (simp add: copy_ready_def)
  have "resolve True w dst = Inr L" using copyableD[OF c] by (intro resolve_follow) simp_all
  then have "node_at True w dst = Inl (Os ENOENT)" using copyableD(9)[OF c] by (simp add: node_at_def)
  then have q: "path_is_dir dst w = (False, w)" "path_exists dst w = (False, w)"
    using copyableD(2)[OF c] by (simp_all add: quiet_queries is_dirn_def)
  have "helper_run E depth ''copy'' req w = Some (Inr (dst_reply dst), v)"
    using assms(3,4) q v(1)
    by (simp add: helper_run_def helper_move_copy_def helper_copies dest_for_def Let_def or_text_opt_def or_text_def)
  moreover have "tget (fs v) q = tget (fs w) q \<or> (strict_prefix q L \<and> is_dirn (tget (fs w) q) \<and> is_dirn (tget (fs v) q))"
    if "\<not> prefix L q" for q
  proof (cases "strict_prefix q L")
    case True
    with v(2) show ?thesis by (simp add: made_def)
  next
    case False
    with that have "L \<parallel> q" by (auto simp: parallel_def strict_prefix_def)
    with v(2) show ?thesis by (simp add: made_def beside_def)
  qed
  ultimately show ?thesis using v(3) by blast
qed

end
