(* ===== verification/Elevated_Laws.thy ===== *)
theory Elevated_Laws
  imports Helper_Copy Mover_Registry
begin

text \<open>
  The mover and its privileged helper together: the daemon starts \<open>file-mover-sudo\<close> through \<open>sudo\<close>,
  hands it the request as JSON text on the command line, and reads its answer from the output.
\<close>

section \<open>The child process\<close>

text \<open>
  What \<open>sudo\<close> promises: with the right password on its standard input it runs the command, and its
  exit status and output are the command's.
\<close>

definition sudo_runs_helper :: "sudo \<Rightarrow> string \<Rightarrow> daemon \<Rightarrow> nat \<Rightarrow> bool" where
  "sudo_runs_helper S pw D depth \<longleftrightarrow>
     (\<forall>text w code out v. helper_main (d_env D) depth [d_helper D, text] w = Some (code, out, v) \<longrightarrow>
        S [''-S'', ''-p'', [], d_helper D, text] (pw @ newline) w = (Exit (Some (int code)) out, v))"

text \<open>JSON text is read back, with or without the newline the helper prints after it.\<close>

definition read_back :: "mover_env \<Rightarrow> json \<Rightarrow> bool" where
  "read_back E v \<longleftrightarrow> json_parse E (json_text E v) = Inr v \<and> json_parse E (json_text E v @ newline) = Inr v"

lemma sudo_run_helper:
  assumes "sudo_runs_helper S pw D depth" and "read_back (d_env D) req"
    and "helper_run (d_env D) depth (str_field ''op'' req) req w = Some (Inr ans, v)"
  shows "sudo_run D S pw req w = ((0, json_text (d_env D) ans @ newline), v)"
proof -
  have "helper_main (d_env D) depth [d_helper D, json_text (d_env D) req] w =
      Some (0, json_text (d_env D) ans @ newline, v)"
    using assms(2,3) by (simp add: helper_main_def read_back_def newline_def)
  then show ?thesis
    using assms(1) unfolding sudo_runs_helper_def sudo_run_def by fastforce
qed

section \<open>An elevated copy\<close>

definition helper_request :: "string \<Rightarrow> string \<Rightarrow> path \<Rightarrow> string \<Rightarrow> json" where
  "helper_request opn src dst strategy =
     JObject [(''op'', JString opn), (''src'', JString src), (''dst'', JString dst), (''strategy'', JString strategy)]"

text \<open>C20 An elevated copy works from the request to the files: a copy request with a password, for a tree and
  a free place outside it, is passed to the helper through \<open>sudo\<close>, answered with 200 and the
  destination, and there is then an exact copy; no job is registered and no other node changes.\<close>

theorem elevated_copy:
  assumes "copy_ready src l n dst L (jw s)" and "tree_height n < depth" and "\<not> path_eq src dst"
    and "str_field ''src'' q = src" and "str_field ''dst'' q = dst" and "str_field ''sudopass'' q = pw" and "pw \<noteq> []"
    and "sudo_runs_helper S pw D depth" and "read_back (d_env D) (dst_reply dst)"
    and "read_back (d_env D) (helper_request ''copy'' src dst (str_field ''strategy'' q))"
  shows "\<exists>v. move_copy_request D S False q s =
      (json_resp D 200 (JObject [(''ok'', JBool True), (''op'', JString ''copy''), (''dst'', JString dst)]), s\<lparr>jw := v\<rparr>) \<and>
    mirrors n L v \<and> (\<forall>r. \<not> prefix L r \<longrightarrow> tget (fs v) r = tget (fs (jw s)) r \<or>
      (strict_prefix r L \<and> is_dirn (tget (fs (jw s)) r) \<and> is_dirn (tget (fs v) r)))"
proof -
  let ?w = "jw s" and ?req = "helper_request ''copy'' src dst (str_field ''strategy'' q)"
  have c: "copyable src l n dst L ?w" using assms(1) by (simp add: copy_ready_def)
  have f: "str_field ''src'' ?req = src" "str_field ''dst'' ?req = dst" "str_field ''op'' ?req = ''copy''"
    by (simp_all add: helper_request_def)
  obtain v where v: "helper_run (d_env D) depth ''copy'' ?req ?w = Some (Inr (dst_reply dst), v)" "mirrors n L v"
    "\<forall>r. \<not> prefix L r \<longrightarrow> tget (fs v) r = tget (fs ?w) r \<or>
      (strict_prefix r L \<and> is_dirn (tget (fs ?w) r) \<and> is_dirn (tget (fs v) r))"
    using helper_copied[OF assms(1,2) f(1,2)] by blast
  have run: "sudo_run D S pw ?req ?w = ((0, json_text (d_env D) (dst_reply dst) @ newline), v)"
    by (rule sudo_run_helper[OF assms(8,10)]) (simp add: f(3) v(1))
  note d = free_destination[OF c]
  have "elevated_move_copy D S pw ''copy'' src dst (str_field ''strategy'' q) s =
      (json_resp D 200 (JObject [(''ok'', JBool True), (''op'', JString ''copy''), (''dst'', JString dst)]), s\<lparr>jw := v\<rparr>)"
    using run assms(9) by (simp add: elevated_move_copy_def on_world_def read_back_def helper_request_def dst_reply_def)
  then have "move_copy_request D S False q s =
      (json_resp D 200 (JObject [(''ok'', JBool True), (''op'', JString ''copy''), (''dst'', JString dst)]), s\<lparr>jw := v\<rparr>)"
    using assms(3-7) d by (simp add: move_copy_request_def Let_def)
  with v(2,3) show ?thesis by blast
qed

text \<open>An instance: a helper behind a \<open>sudo\<close> that checks the password.\<close>

definition elevated_env :: mover_env where
  "elevated_env = sample_env\<lparr>
     json_text := (\<lambda>v. if json_get ''op'' v = None then ''A'' else ''Q''),
     json_parse := (\<lambda>t. if hd t = CHR ''Q'' then Inr (helper_request ''copy'' ''/src'' ''/dst/x'' [])
       else Inr (dst_reply ''/dst/x''))\<rparr>"

definition elevated_daemon :: daemon where
  "elevated_daemon = sample_daemon\<lparr>d_env := elevated_env\<rparr>"

definition helper_sudo :: "mover_env \<Rightarrow> nat \<Rightarrow> string \<Rightarrow> sudo" where
  "helper_sudo E depth pw args inp w =
     (if inp \<noteq> pw @ newline then (Exit (Some 1) [], w)
      else case helper_main E depth (drop 3 args) w of
             None \<Rightarrow> (WaitFailed, w)
           | Some (code, out, v) \<Rightarrow> (Exit (Some (int code)) out, v))"

definition elevated_request :: json where
  "elevated_request = JObject [(''src'', JString ''/src''), (''dst'', JString ''/dst/x''), (''sudopass'', JString ''pw'')]"

lemma elevated_copy_witness:
  "\<exists>v. move_copy_request elevated_daemon (helper_sudo elevated_env 5 ''pw'') False elevated_request (sample_mover [] 1 []) =
      (json_resp elevated_daemon 200 (JObject [(''ok'', JBool True), (''op'', JString ''copy''), (''dst'', JString ''/dst/x'')]),
       (sample_mover [] 1 [])\<lparr>jw := v\<rparr>) \<and>
    mirrors sample_src [''dst'', ''x''] v"
proof -
  let ?s = "sample_mover [] 1 []"
  have "copy_ready ''/src'' [''src''] sample_src ''/dst/x'' [''dst'', ''x''] (jw ?s)"
    using sample_copyable by (simp add: copy_ready_def copy_state_def sample_mover_def)
  moreover have "tree_height sample_src < 5" by (simp add: sample_src_def plain_file_def)
  moreover have "\<not> path_eq ''/src'' ''/dst/x''" by code_simp
  moreover have "str_field ''src'' elevated_request = ''/src''" "str_field ''dst'' elevated_request = ''/dst/x''"
    "str_field ''sudopass'' elevated_request = ''pw''" "str_field ''strategy'' elevated_request = []"
    by (simp_all add: elevated_request_def)
  moreover have "sudo_runs_helper (helper_sudo elevated_env 5 ''pw'') ''pw'' elevated_daemon 5"
    by (simp add: sudo_runs_helper_def helper_sudo_def elevated_daemon_def)
  moreover have "read_back (d_env elevated_daemon) (dst_reply ''/dst/x'')"
    "read_back (d_env elevated_daemon) (helper_request ''copy'' ''/src'' ''/dst/x'' [])"
    by (simp_all add: read_back_def elevated_daemon_def elevated_env_def dst_reply_def helper_request_def newline_def)
  ultimately show ?thesis
    using elevated_copy[of _ _ sample_src _ _ ?s 5 elevated_request "''pw''"] by fastforce
qed

end
