(* ===== verification/Log_Laws.thy ===== *)
theory Log_Laws
  imports Logging Transfer_Quiet Samples
begin

text \<open>
  The log as it grows (\<open>src/logging.rs\<close>): any number of records, one after the other, as the lock of
  the file orders them.
\<close>

fun log_all :: "logger \<Rightarrow> (u64 \<times> log_record) list \<Rightarrow> world \<Rightarrow> string \<times> world" where
  "log_all g [] w = ([], w)"
| "log_all g ((now, r) # rs) w =
     (case log_write now g r w of (line, w1) \<Rightarrow> (case log_all g rs w1 of (out, w2) \<Rightarrow> (line @ out, w2)))"

definition log_lines :: "level \<Rightarrow> (u64 \<times> log_record) list \<Rightarrow> string" where
  "log_lines lv rs = concat (map (\<lambda>(now, r). log_line now r) (filter (\<lambda>(now, r). lr_level r \<le> lv) rs))"

lemma str_bytes_append: "str_bytes (s @ t) = str_bytes s @ str_bytes t"
  by (simp add: str_bytes_def)

lemma append_all_holds:
  assumes "append_all l data w = (r, v)" and "holds l bs w" and "env_ok w"
  shows "only_file {l} w v" and "\<exists>n. holds l (bs @ take n data) v \<and> (faults w = [] \<longrightarrow> take n data = data \<and> faults v = [])"
proof -
  have wa: "write_all l (length bs) data w = (r, v)"
    using assms(1,2) by (auto simp: append_all_def holds_def)
  show "only_file {l} w v" by (rule write_all_outcome[OF wa assms(3)])
  obtain n where n: "n \<le> length data" "holds l (bs @ take n data) v" "r = Inr () \<longrightarrow> n = length data"
    using write_all_holds[OF wa assms(3,2) refl] by blast
  then show "\<exists>n. holds l (bs @ take n data) v \<and> (faults w = [] \<longrightarrow> take n data = data \<and> faults v = [])"
    using write_all_quiet[of w l "length bs" data r v] wa by fastforce
qed

text \<open>C21 The log file is append-only and complete: whatever faults occur, what it held stays at its
  beginning and no other file changes; without faults exactly the lines of the records up to the level
  are added, in their order, the same lines that are printed.\<close>

theorem log_appends:
  assumes "lg_file g = Some l" and "holds l bs w" and "env_ok w" and "log_all g rs w = (out, v)"
  shows "out = log_lines (lg_level g) rs \<and> only_file {l} w v \<and>
    (\<exists>cs. holds l (bs @ cs) v \<and> (faults w = [] \<longrightarrow> cs = str_bytes (log_lines (lg_level g) rs)))"
proof -
  have "out = log_lines (lg_level g) rs \<and> only_file {l} w v \<and>
    (\<exists>cs. holds l (bs @ cs) v \<and> (faults w = [] \<longrightarrow> cs = str_bytes (log_lines (lg_level g) rs) \<and> faults v = []))"
    using assms(2-4)
  proof (induction rs arbitrary: bs w out)
    case Nil
    then show ?case by (auto simp: log_lines_def str_bytes_def intro!: exI[of _ "[]"])
  next
    case (Cons x rs)
    obtain now r where x: "x = (now, r)" by fastforce
    obtain line w1 where lw: "log_write now g r w = (line, w1)" by fastforce
    obtain out1 where rest: "log_all g rs w1 = (out1, v)" "out = line @ out1"
      using Cons.prems(3) x lw by (auto split: prod.splits)
    define new where "new = (if lr_level r \<le> lg_level g then log_line now r else [])"
    have one: "line = new \<and> only_file {l} w w1 \<and>
        (\<exists>cs. holds l (bs @ cs) w1 \<and> (faults w = [] \<longrightarrow> cs = str_bytes new \<and> faults w1 = []))"
    proof (cases "lr_level r \<le> lg_level g")
      case True
      obtain r1 v1 where a: "append_all l (str_bytes (log_line now r)) w = (r1, v1)" by fastforce
      have e: "line = log_line now r" "w1 = v1"
        using lw True assms(1) a by (simp_all add: log_write_def enabled_def Let_def)
      from append_all_holds[OF a Cons.prems(1,2)] show ?thesis using True e by (auto simp: new_def)
    next
      case False
      then have "line = []" "w1 = w" using lw by (simp_all add: log_write_def enabled_def)
      with False Cons.prems(1) show ?thesis by (auto simp: new_def str_bytes_def intro!: exI[of _ "[]"])
    qed
    then obtain cs where cs: "holds l (bs @ cs) w1" "faults w = [] \<longrightarrow> cs = str_bytes new \<and> faults w1 = []" by blast
    have "env_ok w1" using one only_file_env Cons.prems(2) by blast
    from Cons.IH[OF cs(1) this rest(1)] one
    obtain ds where ds: "out1 = log_lines (lg_level g) rs" "only_file {l} w1 v" "holds l ((bs @ cs) @ ds) v"
      "faults w1 = [] \<longrightarrow> ds = str_bytes (log_lines (lg_level g) rs) \<and> faults v = []" by blast
    have lines: "log_lines (lg_level g) (x # rs) = new @ log_lines (lg_level g) rs"
      by (simp add: log_lines_def new_def x)
    have "holds l (bs @ (cs @ ds)) v \<and> (faults w = [] \<longrightarrow> cs @ ds = str_bytes (log_lines (lg_level g) (x # rs)) \<and> faults v = [])"
      using cs(2) ds(3,4) lines by (simp add: str_bytes_append)
    moreover have "out = log_lines (lg_level g) (x # rs)" using rest(2) one ds(1) lines by simp
    moreover have "only_file {l} w v" using one ds(2) only_file_trans by blast
    ultimately show ?case by blast
  qed
  then show ?thesis by blast
qed

definition sample_records :: "(u64 \<times> log_record) list" where
  "sample_records = [(0, \<lparr>lr_level = Info, lr_target = ''t'', lr_args = ''up''\<rparr>), (1, \<lparr>lr_level = Debug, lr_target = ''t'', lr_args = ''x''\<rparr>)]"

lemma log_appends_witness:
  "holds [''src'', ''a.txt''] ([1, 2, 3] @ str_bytes (log_lines Info sample_records))
     (snd (log_all \<lparr>lg_level = Info, lg_file = Some [''src'', ''a.txt'']\<rparr> sample_records sample_world))"
proof -
  obtain out v where o: "log_all \<lparr>lg_level = Info, lg_file = Some [''src'', ''a.txt'']\<rparr> sample_records sample_world = (out, v)"
    by fastforce
  have "faults sample_world = []" by (simp add: sample_world_def)
  with log_appends[OF _ sample_holds sample_env_ok o] o show ?thesis by auto
qed

end
