(* ===== verification/Path_Results.thy ===== *)
theory Path_Results
  imports Mover_Registry Walk_Laws
begin

text \<open>
  The path helpers of the mover: the free name for a renamed destination, the place a WebDAV URL
  names, and the listing of a directory.
\<close>

section \<open>A free name\<close>

lemma free_from_find:
  assumes "faults w = []"
  shows "free_from is dst w =
    (case find (\<lambda>i. isl (node_at True w (numbered dst i))) is of Some i \<Rightarrow> numbered dst i | None \<Rightarrow> numbered dst 999, w)"
  using assms by (induction "is") (auto simp: quiet_queries split: option.splits)

text \<open>C33 Renaming on a conflict takes the first free name: the destination itself, else the first of
  \<open>stem_2.ext\<close> to \<open>stem_999.ext\<close> that does not exist; only when all of them exist the last one is
  taken although it exists.  Nothing is changed.\<close>

theorem free_dst_first:
  assumes "faults w = []"
  shows "free_dst dst w =
    (case find (\<lambda>p. isl (node_at True w p)) (dst # map (numbered dst) [2..<1000]) of
       Some p \<Rightarrow> p | None \<Rightarrow> numbered dst 999, w)"
proof -
  have m: "find P (map f is) = map_option f (find (\<lambda>i. P (f i)) is)" for P and f :: "nat \<Rightarrow> path" and "is"
    by (induction "is") auto
  show ?thesis
    using assms unfolding free_dst_def
    by (simp add: quiet_queries free_from_find m split: option.splits del: upt_rec_numeral)
qed

lemma free_dst_first_witness:
  "free_dst ''/src/a.txt'' sample_world = (''/src/a_2.txt'', sample_world)"
proof -
  have "\<not> isl (node_at True sample_world ''/src/a.txt'')" "isl (node_at True sample_world (numbered ''/src/a.txt'' 2))"
    "numbered ''/src/a.txt'' 2 = ''/src/a_2.txt''"
    by code_simp+
  moreover have "[2..<1000] = (2 :: nat) # [3..<1000]" by (subst upt_rec) (simp del: upt_rec_numeral)
  ultimately show ?thesis
    using free_dst_first[of sample_world "''/src/a.txt''"]
    by (simp add: sample_world_def del: upt_rec_numeral)
qed

section \<open>WebDAV URLs\<close>

definition drive_url :: "string \<Rightarrow> string \<Rightarrow> string \<Rightarrow> string \<Rightarrow> string" where
  "drive_url scheme cred hostport rel = scheme @ (if cred = [] then [] else cred @ ''@'') @ hostport @ slash # rel"

lemma url_text:
  assumes "scheme = ''webdav://'' \<or> scheme = ''webdavs://''"
    and "hp = h @ CHR '':'' # n" and "{CHR '':'', CHR ''@'', slash} \<inter> (set h \<union> set n) = {}"
    and "CHR ''@'' \<notin> set rel" and "\<not> is_abs rel"
  shows "webdav_url_to_path E (drive_url scheme cred hp rel) =
    (if hp = (case env_url_a E of Some u \<Rightarrow> u | None \<Rightarrow> ''192.0.2.1:51337'') then Some (path_join (fst (roots E)) rel)
     else if hp = (case env_url_b E of Some u \<Rightarrow> u | None \<Rightarrow> ''192.0.2.2:51337'') then Some (path_join (snd (roots E)) rel)
     else None)"
proof -
  define body where "body = hp @ slash # rel"
  define rest where "rest = (if cred = [] then [] else cred @ ''@'') @ body"
  have sch: "(case strip_prefix ''webdavs://'' (scheme @ rest) of Some r \<Rightarrow> Some r
     | None \<Rightarrow> strip_prefix ''webdav://'' (scheme @ rest)) = Some rest"
    using assms(1) by auto
  have url: "drive_url scheme cred hp rel = scheme @ rest" by (simp add: drive_url_def rest_def body_def)
  have "CHR ''@'' \<notin> set body" using assms(2-4) by (auto simp: body_def)
  then have at: "last (split_on (CHR ''@'') rest) = body"
    by (simp add: rest_def split_on_append)
  have "slash \<notin> set hp" using assms(2,3) by auto
  then have sl: "split_once slash body = Some (hp, rel)" by (simp add: body_def split_once_Some)
  have col: "split_on (CHR '':'') hp = [h, n]" using assms(2,3) by (simp add: split_on_append)
  have tail: "dropWhile (\<lambda>c. c = slash) (slash # rel) = rel" using assms(5) by (cases rel) (auto simp: is_abs_def)
  show ?thesis
    unfolding webdav_url_to_path_def url sch option.case Let_def at sl prod.case fst_conv snd_conv col tail
    by (simp add: assms(2))
qed

text \<open>C38 The URLs of the two drives name the same files as their mounts, for every path that contains no
  \<open>@\<close>: when the drives are configured with different \<open>host:port\<close> pairs, a \<open>webdav\<close> or \<open>webdavs\<close> URL of
  one of them, with or without credentials, for a relative path without \<open>@\<close>, is resolved to that path
  joined to the mount of that drive.  (For a path that contains \<open>@\<close> this fails, see
  \<open>at_sign_not_resolved\<close> in theory \<open>Findings\<close>.)\<close>

theorem webdav_url_mount:
  assumes "scheme = ''webdav://'' \<or> scheme = ''webdavs://''"
    and "env_url_a E = Some (h @ CHR '':'' # n)" and "env_url_b E = Some (h' @ CHR '':'' # n')"
    and "h @ CHR '':'' # n \<noteq> h' @ CHR '':'' # n'"
    and "{CHR '':'', CHR ''@'', slash} \<inter> (set h \<union> set n \<union> set h' \<union> set n') = {}"
    and "CHR ''@'' \<notin> set rel" and "\<not> is_abs rel"
  shows "resolve_path E (drive_url scheme cred (h @ CHR '':'' # n) rel) = path_join (fst (roots E)) rel \<and>
    resolve_path E (drive_url scheme cred (h' @ CHR '':'' # n') rel) = path_join (snd (roots E)) rel"
proof -
  have p: "prefix ''webdav://'' (drive_url scheme cred hp rel) \<or> prefix ''webdavs://'' (drive_url scheme cred hp rel)" for hp
    using assms(1) by (auto simp: drive_url_def)
  have c: "{CHR '':'', CHR ''@'', slash} \<inter> (set h \<union> set n) = {}" "{CHR '':'', CHR ''@'', slash} \<inter> (set h' \<union> set n') = {}"
    using assms(5) by auto
  show ?thesis
    using url_text[OF assms(1) refl c(1) assms(6,7), of E cred] url_text[OF assms(1) refl c(2) assms(6,7), of E cred]
      assms(2-4) p by (simp add: resolve_path_def)
qed

lemma webdav_url_mount_witness:
  "resolve_path (sample_env\<lparr>env_url_a := Some ''pc:80'', env_url_b := Some ''nas:81''\<rparr>) ''webdavs://u:p@nas:81/x/y'' =
     ''/home/u/webdav-local/x/y''"
proof -
  define E where "E = sample_env\<lparr>env_url_a := Some ''pc:80'', env_url_b := Some ''nas:81''\<rparr>"
  have "path_join (snd (roots E)) ''x/y'' = ''/home/u/webdav-local/x/y''"
    by (simp add: E_def sample_env_def) code_simp
  moreover have "drive_url ''webdavs://'' ''u:p'' (''nas'' @ CHR '':'' # ''81'') ''x/y'' = ''webdavs://u:p@nas:81/x/y''"
    by (simp add: drive_url_def)
  moreover have "resolve_path E (drive_url ''webdavs://'' ''u:p'' (''nas'' @ CHR '':'' # ''81'') ''x/y'') =
      path_join (snd (roots E)) ''x/y''"
    using webdav_url_mount[where scheme = "''webdavs://''" and h = "''pc''" and n = "''80''" and h' = "''nas''" and n' = "''81''"
        and E = E and rel = "''x/y''" and cred = "''u:p''"]
    by (simp add: E_def is_abs_def)
  ultimately show ?thesis by (simp add: E_def)
qed

section \<open>Listings\<close>

lemma flat_entries_quiet: "faults w = [] \<Longrightarrow> flat_entries es w = (es, w)"
  by (induction es) (simp_all add: quiet_queries)

lemma entry_list_quiet:
  assumes "faults w = []" and "\<And>n. n \<in> set ns \<Longrightarrow> node_at False w (path_join p n) = Inr (g n)"
  shows "entry_list mt p ns w = (map (\<lambda>n. entry_json n (g n) (mt (path_join p n))) ns, w)"
  using assms by (induction ns) (simp_all add: quiet_queries)

text \<open>C39 A listing is complete and exact: without faults it has one record for each entry of the directory,
  in the order of the names, each with the kind, the size and the link flag of the entry itself, and
  nothing else; and listing changes nothing.\<close>

theorem list_entries_exact:
  assumes "faults w = []" and "resolve True w p = Inr l" and "tget (fs w) l = Some (Dir es)"
    and "distinct (map fst es)" and "\<And>n m. (n, m) \<in> set es \<Longrightarrow> plain_name n"
  shows "list_entries E p w =
    (Inr (map (\<lambda>n. entry_json n (the (map_of es n)) (mtime_secs E (path_join p n))) (sort (map fst es))), w)"
proof -
  have "node_at False w (path_join p n) = Inr (the (map_of es n))" if n: "n \<in> set (map fst es)" for n
  proof -
    obtain m where m: "(n, m) \<in> set es" using n by auto
    then have mo: "map_of es n = Some m" using assms(4) by simp
    have g: "tget (fs w) (l @ [n]) = Some m" using child_node[OF assms(3,4) m] by simp
    have "resolve False w (path_join p n) = Inr (l @ [n])"
      using resolve_name[OF assms(2,3) assms(5)[OF m]] by simp
    with g mo show ?thesis by (simp add: node_at_def)
  qed
  then have "entry_list (mtime_secs E) p (sort (map fst es)) w =
      (map (\<lambda>n. entry_json n (the (map_of es n)) (mtime_secs E (path_join p n))) (sort (map fst es)), w)"
    by (intro entry_list_quiet[OF assms(1)]) simp
  then show ?thesis
    using assms(1) read_dir_quiet[OF assms(1-3)] by (simp add: list_entries_def flat_entries_quiet)
qed

lemma list_entries_exact_witness:
  "list_entries sample_env ''/src'' sample_world =
     (Inr [entry_json ''a.txt'' (plain_file [1, 2, 3]) 0, entry_json ''sub'' (Dir [(''b.txt'', plain_file [4])]) 0], sample_world)"
proof -
  define es where "es = [(''a.txt'', plain_file [1, 2, 3]), (''sub'', Dir [(''b.txt'', plain_file [4])])]"
  have q: "faults sample_world = []" by (simp add: sample_world_def)
  have r: "resolve True sample_world ''/src'' = Inr [''src'']" by code_simp
  have g: "tget (fs sample_world) [''src''] = Some (Dir es)" by (simp add: sample_world_def sample_tree_def es_def)
  have d: "distinct (map fst es)" "\<And>n m. (n, m) \<in> set es \<Longrightarrow> plain_name n" by (auto simp: es_def plain_name_def)
  have s: "sort (map fst es) = [''a.txt'', ''sub'']" unfolding es_def by code_simp
  from list_entries_exact[OF q r g d] show ?thesis by (simp add: s sample_env_def, simp add: es_def)
qed

end
