(* ===== verification/Findings.thy ===== *)
theory Findings
  imports Upload_Open Cert_Laws Path_Results Elevated_Laws Server
begin

text \<open>
  Behaviours the models show that the code's authors will not have wanted, each evaluated on a small
  file system: what happens is stated, and where in the sources it comes from.
\<close>

section \<open>Moving, copying and deleting\<close>

definition one_job :: "string \<Rightarrow> path \<Rightarrow> path \<Rightarrow> job_state" where
  "one_job opn src dst = \<lparr>jw = sample_world, jobs = [(1, new_job opn src dst)]\<rparr>"

text \<open>
  A move of a directory into itself (\<open>run_job\<close>): the rename is refused, so the files are copied, and
  then the source is removed with the copies in it; the job ends as \<open>done\<close> without an error.
\<close>

definition moving_in :: transfer where
  "moving_in = \<lparr>t_id = 1, t_op = ''move'', t_same_drive = True,
    t_files = [(''/src/a.txt'', ''a.txt''), (''/src/sub/b.txt'', ''sub/b.txt'')], t_dst = ''/src/sub/x''\<rparr>"

lemma move_in_plan:
  "run_job sample_env 4 cpus sched 1 ''move'' ''/src'' ''/src/sub/x'' (one_job ''move'' ''/src'' ''/src/sub/x'') =
   transfer_all sample_env cpus sched moving_in ''/src'' (make_dirs 1 ''/src/sub/x'' [[], ''sub'']
     (job_update 1 (\<lambda>j. j\<lparr>total_files := 2, total_dirs := 2, total_bytes := 4\<rparr>)
       (job_update 1 (\<lambda>j. j\<lparr>status := ''running''\<rparr>) (one_job ''move'' ''/src'' ''/src/sub/x''))))"
proof -
  have w: "walk_files 4 ''/src'' [] no_files sample_world =
    Some (Inr (), \<lparr>w_files = [(''/src/a.txt'', ''a.txt''), (''/src/sub/b.txt'', ''sub/b.txt'')],
      w_dirs = [[], ''sub''], w_bytes = 4\<rparr>, sample_world)" by code_simp
  have d: "path_drive [fst (roots sample_env), snd (roots sample_env)] ''/src'' =
      path_drive [fst (roots sample_env), snd (roots sample_env)] ''/src/sub/x''" by code_simp
  have e: "path_exists ''/src/sub/x'' sample_world = (False, sample_world)"
    "rename_path ''/src'' ''/src/sub/x'' sample_world = (Inl (Os EINVAL), sample_world)" by code_simp+
  have j: "jw (one_job ''move'' ''/src'' ''/src/sub/x'') = sample_world" by (simp add: one_job_def)
  have k: "s\<lparr>jw := sample_world\<rparr> = s" if "jw s = sample_world" for s :: job_state using that by simp
  show ?thesis
    unfolding run_job_def Let_def d
    by (simp add: w j k e fast_move_def on_world_def moving_in_def)
qed

lemma move_into_itself_destroys:
  "(case run_job sample_env 4 (Some 1) (replicate 14 0) 1 ''move'' ''/src'' ''/src/sub/x'' (one_job ''move'' ''/src'' ''/src/sub/x'') of
      None \<Rightarrow> False
    | Some s \<Rightarrow> tget (fs (jw s)) [''src''] = None \<and>
        map_option (\<lambda>j. (status j, job_error j)) (map_of (jobs s) 1) = Some (''done'', None))"
  unfolding move_in_plan by code_simp

text \<open>
  Deleting a directory (\<open>walk_delete\<close>) follows the links in it: the files of the directory a link
  leads to are removed.
\<close>

lemma delete_link_plan:
  "run_delete_job sample_env 4 cpus sched 1 ''/lnk'' (one_job ''delete'' ''/lnk'' []) =
   delete_all sample_env cpus sched 1 \<lparr>d_files = [''/lnk/out/keep.txt''], d_dirs = [''/lnk'', ''/lnk/out''], d_bytes = 2\<rparr>
     (job_update 1 (\<lambda>j. j\<lparr>total_files := 1, total_dirs := 2, total_bytes := 2\<rparr>)
       (job_update 1 (\<lambda>j. j\<lparr>status := ''running''\<rparr>) (one_job ''delete'' ''/lnk'' [])))"
proof -
  have w: "walk_delete 4 ''/lnk'' no_paths sample_world = Some (Inr (),
    \<lparr>d_files = [''/lnk/out/keep.txt''], d_dirs = [''/lnk'', ''/lnk/out''], d_bytes = 2\<rparr>, sample_world)" by code_simp
  have e: "path_is_file ''/lnk'' sample_world = (False, sample_world)"
    "path_is_symlink ''/lnk'' sample_world = (False, sample_world)" by code_simp+
  have j: "jw (one_job ''delete'' ''/lnk'' []) = sample_world" by (simp add: one_job_def)
  have k: "s\<lparr>jw := sample_world\<rparr> = s" if "jw s = sample_world" for s :: job_state using that by simp
  show ?thesis
    unfolding run_delete_job_def Let_def by (simp add: w j k e on_world_def)
qed

lemma delete_follows_links:
  "(case run_delete_job sample_env 4 (Some 1) (replicate 6 0) 1 ''/lnk'' (one_job ''delete'' ''/lnk'' []) of
      None \<Rightarrow> False | Some s \<Rightarrow> tget (fs (jw s)) [''ext'', ''keep.txt''] = None)"
  unfolding delete_link_plan by code_simp

text \<open>A job of which every file failed ends as \<open>done\<close> all the same, and counts the files as done (\<open>run_job\<close>).\<close>

lemma failed_copy_plan:
  "run_job sample_env 4 cpus sched 1 ''copy'' ''/src/a.txt'' ''/ext/keep.txt/x'' (one_job ''copy'' [] []) =
   transfer_all sample_env cpus sched \<lparr>t_id = 1, t_op = ''copy'', t_same_drive = True,
      t_files = [(''/src/a.txt'', [])], t_dst = ''/ext/keep.txt/x''\<rparr> ''/src/a.txt''
     (job_update 1 (\<lambda>j. j\<lparr>total_files := 1, total_dirs := 0, total_bytes := 3\<rparr>)
       (job_update 1 (\<lambda>j. j\<lparr>status := ''running''\<rparr>) (one_job ''copy'' [] [])))"
proof -
  have w: "walk_files 4 ''/src/a.txt'' [] no_files sample_world =
    Some (Inr (), \<lparr>w_files = [(''/src/a.txt'', [])], w_dirs = [], w_bytes = 3\<rparr>, sample_world)" by code_simp
  have d: "path_drive [fst (roots sample_env), snd (roots sample_env)] ''/src/a.txt'' =
      path_drive [fst (roots sample_env), snd (roots sample_env)] ''/ext/keep.txt/x''" by code_simp
  have j: "jw (one_job ''copy'' [] []) = sample_world" by (simp add: one_job_def)
  have k: "s\<lparr>jw := sample_world\<rparr> = s" if "jw s = sample_world" for s :: job_state using that by simp
  show ?thesis
    unfolding run_job_def Let_def d by (simp add: w j k fast_move_def)
qed

lemma failed_copy_is_done:
  "(case run_job sample_env 4 (Some 1) (replicate 8 0) 1 ''copy'' ''/src/a.txt'' ''/ext/keep.txt/x'' (one_job ''copy'' [] []) of
      None \<Rightarrow> False
    | Some s \<Rightarrow> map_option (\<lambda>j. (status j, done_files j, job_error j \<noteq> None)) (map_of (jobs s) 1) = Some (''done'', 1, True))"
  unfolding failed_copy_plan by code_simp

text \<open>
  A directory that could not be made is passed over (\<open>run_job\<close>): the job ends as \<open>done\<close> without an error.
\<close>

lemma missing_directory_unnoticed:
  "(case transfer_all sample_env (Some 1) [0] \<lparr>t_id = 1, t_op = ''copy'', t_same_drive = True, t_files = [], t_dst = ''/ext/new''\<rparr> ''/dst''
        (make_dirs 1 ''/ext/new'' [[]] (one_job ''copy'' ''/dst'' ''/ext/new'' \<lparr>jw := sample_world\<lparr>faults := [Fail EACCES]\<rparr>\<rparr>)) of
      None \<Rightarrow> False
    | Some s \<Rightarrow> map_option (\<lambda>j. (status j, job_error j)) (map_of (jobs s) 1) = Some (''done'', None) \<and>
        tget (fs (jw s)) [''ext'', ''new''] = None)"
  by code_simp

text \<open>
  A directory that could not be removed makes a delete job end in \<open>error\<close>, but its message is not kept
  (\<open>run_delete_job\<close>): the client is shown an error without a text.
\<close>

lemma failed_rmdir_unexplained:
  "(case delete_all sample_env (Some 1) [0] 1 \<lparr>d_files = [], d_dirs = [''/dst''], d_bytes = 0\<rparr>
        (one_job ''delete'' ''/dst'' [] \<lparr>jw := sample_world\<lparr>faults := [Fail EBUSY]\<rparr>\<rparr>) of
      None \<Rightarrow> False
    | Some s \<Rightarrow> map_option (\<lambda>j. (status j, job_error j)) (map_of (jobs s) 1) = Some (''error'', None))"
  by code_simp

text \<open>
  Copying a file onto itself under another spelling (\<open>copy_file\<close>): opening the destination empties the
  source; the comparison of paths in the handler does not see that they are one file.
\<close>

lemma copy_onto_itself_empties:
  "\<not> path_eq ''/src/a.txt'' ''/lnk/out/../src/a.txt'' \<and>
   fst (copy_file ''/src/a.txt'' ''/lnk/out/../src/a.txt'' sample_world) = Inr 0 \<and>
   holds [''src'', ''a.txt''] [] (snd (copy_file ''/src/a.txt'' ''/lnk/out/../src/a.txt'' sample_world))"
proof -
  have "\<not> path_eq ''/src/a.txt'' ''/lnk/out/../src/a.txt''"
    "fst (copy_file ''/src/a.txt'' ''/lnk/out/../src/a.txt'' sample_world) = Inr 0"
    "map_option fbytes (files (fs (snd (copy_file ''/src/a.txt'' ''/lnk/out/../src/a.txt'' sample_world))) [''src'', ''a.txt'']) = Some []"
    by code_simp+
  then show ?thesis by (auto simp: holds_def)
qed

section \<open>The privileged helper\<close>

text \<open>
  The helper reads a directory while it copies into it: copying a directory into itself does not end
  before the depth given, whatever it is; here for 6 levels (on Linux, until the path is too long).
\<close>

lemma helper_copy_into_itself_runs_away: "copy_recursive 6 ''/src'' ''/src/x'' sample_world = None"
  by code_simp

text \<open>
  The mover passes the helper the destination it has already computed, and the helper computes it
  again: an elevated \<open>merge\<close> lands one level too deep (\<open>handle_move_copy\<close>, \<open>run\<close>).
\<close>

definition merge_world :: world where
  "merge_world = sample_world\<lparr>fs := Dir [(''src'', Dir [(''a.txt'', plain_file [1])]),
     (''dst'', Dir [(''src'', Dir [(''b.txt'', plain_file [2])])])]\<rparr>"

lemma elevated_merge_nests:
  "fst (dest_for ''/src'' ''/dst'' merge_world) = ''/dst/src'' \<and>
   (case helper_run sample_env 5 ''copy'' (helper_request ''copy'' ''/src'' ''/dst/src'' ''merge'') merge_world of
      None \<Rightarrow> False
    | Some (r, w) \<Rightarrow> files (fs w) [''dst'', ''src'', ''a.txt''] = None \<and>
        files (fs w) [''dst'', ''src'', ''src'', ''a.txt''] \<noteq> None)"
  by code_simp

text \<open>
  The helper exits with status 0 also when the operation failed, and \<open>handle_mkdir\<close> looks at the status
  only: a directory that could not be made is reported as made.
\<close>

definition failing_world :: world where
  "failing_world = sample_world\<lparr>faults := [Fail EACCES, NoFault, Fail EROFS, Fail EROFS]\<rparr>"

lemma mkdir_reports_success:
  "(case handle_mkdir elevated_daemon (helper_sudo (elevated_env\<lparr>json_parse := \<lambda>t. Inr (helper_request ''mkdir'' [] ''/dst/new'' [])\<rparr>) 5 ''pw'')
        [''dst'' \<mapsto> ''/dst/new'', ''sudopass'' \<mapsto> ''pw''] ((sample_mover [] 1 [])\<lparr>jw := failing_world\<rparr>) of
      (r, s) \<Rightarrow> r_status r = 200 \<and> tget (fs (jw s)) [''dst'', ''new''] = None)"
  by code_simp

text \<open>
  The helper's answer to a conflict names the destination too, so the mover takes it for a success and
  never reaches the branch that would answer 409 (\<open>handle_move_copy\<close>).
\<close>

lemma conflict_taken_for_success:
  assumes "sudo_run D S pw (helper_request opn src dst strategy) (jw s) = ((0, out), v)"
    and "json_parse (d_env D) out =
      Inr (JObject [(''conflict'', JBool True), (''dst'', JString dst), (''error'', JString e)])"
  shows "fst (elevated_move_copy D S pw opn src dst strategy s) =
    json_resp D 200 (JObject [(''ok'', JBool True), (''op'', JString opn), (''dst'', JString dst)])"
  using assms by (simp add: elevated_move_copy_def on_world_def helper_request_def)

section \<open>Uploads\<close>

text \<open>
  A write that stopped part of the way is counted in full (\<open>write_bytes\<close>): if the caller goes on to
  flush, the truncated file is put in place and no error is reported.
\<close>

definition cut_short :: "atomic_file \<times> world" where
  "cut_short = (case file_create_new ''/dst/t'' 0x1A4 (sample_world\<lparr>faults := [NoFault, ShortWrite 1, Fail ENOSPC]\<rparr>) of
     (r, w) \<Rightarrow> snd (write_bytes sample_libs [1, 2, 3] (atomic_new ''/dst/t'' ''/dst/f'' (Some 3) None [''dst'', ''t''] False) w))"

lemma cut_short_is_published:
  "(case flush sample_libs (fst cut_short) (snd cut_short) of
      (r, a, w) \<Rightarrow> r = Inr () \<and> a_committed a \<and> map_option fbytes (files (fs w) [''dst'', ''f'']) = Some [1])"
  by code_simp

text \<open>
  \<open>If-None-Match: *\<close> is checked when the upload is opened and not when it is put in place (\<open>open\<close>,
  \<open>commit\<close>): of two uploads that must both create the same file, both succeed and the last one stays.
\<close>

definition opened :: "world \<Rightarrow> atomic_file \<times> world" where
  "opened w = (case af_open sample_libs (\<lambda>p. Inl (Os ENOENT)) (\<lambda>p oo w. (Inl Forbidden, w) :: (fs_error + unit) \<times> world)
       sample_fs sample_path (sample_options\<lparr>oo_size := None\<rparr>) w of
     (Inr (Atomic a), v) \<Rightarrow> (a, v) | (_, v) \<Rightarrow> (atomic_new [] [] None None [] False, v))"

lemma two_exclusive_uploads_succeed:
  "oo_create_new sample_options \<and>
   (case opened sample_world of (a, w1) \<Rightarrow>
      case opened w1 of (b, w2) \<Rightarrow>
        case write_bytes sample_libs [1] a w2 of (r1, a1, w3) \<Rightarrow>
          case flush sample_libs a1 w3 of (r2, a2, w4) \<Rightarrow>
            case write_bytes sample_libs [2] b w4 of (r3, b1, w5) \<Rightarrow>
              case flush sample_libs b1 w5 of (r4, b2, w6) \<Rightarrow>
                r2 = Inr () \<and> a_committed a2 \<and> r4 = Inr () \<and> a_committed b2 \<and>
                map_option fbytes (files (fs w6) [''dst'', ''new'', ''f'']) = Some [2])"
  by code_simp

section \<open>Start and paths\<close>

text \<open>
  The guard lets a relative key path pass that does not exist yet (its parent is the empty path), also
  when the working directory is the served root; \<open>--gen-cert\<close> then writes the key into the root.
\<close>

lemma guard_passes_relative_key:
  "(case guard_certs_outside_root (config_defaults\<lparr>root := ''/src'', cert := ''c.crt'', key := ''c.key''\<rparr>)
        (sample_world\<lparr>cwd := [''src'']\<rparr>) of
      (r, w) \<Rightarrow> r = Inr () \<and>
        files (fs (snd (generate_self_signed gen_libs (config_defaults\<lparr>root := ''/src'', cert := ''c.crt'', key := ''c.key''\<rparr>) w)))
          [''src'', ''c.key''] \<noteq> None)"
  by code_simp

text \<open>An empty user name and password turn authentication on; the documentation of the options says off.\<close>

lemma empty_credentials_enable:
  "validate (config_defaults\<lparr>auth_user := Some [], auth_pass := Some []\<rparr>) = Inr () \<and>
   select_auth (config_defaults\<lparr>auth_user := Some [], auth_pass := Some []\<rparr>) \<noteq> None"
  by (simp add: validate_def select_auth_def config_defaults_def)

text \<open>A webdav URL whose path has an \<open>@\<close> is not resolved: what is before it is taken for credentials.\<close>

lemma at_sign_not_resolved:
  "resolve_path (sample_env\<lparr>env_url_a := Some ''h:1'', env_url_b := Some ''g:2''\<rparr>) ''webdav://h:1/a@b.txt'' = ''webdav://h:1/a@b.txt''"
  by code_simp

end
