(* ===== verification/Calendar.thy ===== *)
theory Calendar
  imports Logging
begin

text \<open>
  The dates of the log lines against the calendar: \<open>civil_from_days\<close> computes a date from a day
  number with a few divisions; here it is shown to count the days of the Gregorian calendar one by
  one from 1970-01-01 on.
\<close>

section \<open>The calendar\<close>

definition leap :: "int \<Rightarrow> bool" where
  "leap y \<longleftrightarrow> y mod 4 = 0 \<and> (y mod 100 \<noteq> 0 \<or> y mod 400 = 0)"

definition month_len :: "bool \<Rightarrow> nat \<Rightarrow> nat" where
  "month_len lp m = (if m = 2 then (if lp then 29 else 28) else if m \<in> {4, 6, 9, 11} then 30 else 31)"

definition next_date :: "int \<times> nat \<times> nat \<Rightarrow> int \<times> nat \<times> nat" where
  "next_date t = (case t of (y, m, d) \<Rightarrow>
     if d < month_len (leap y) m then (y, m, d + 1) else if m < 12 then (y, m + 1, 1) else (y + 1, 1, 1))"

section \<open>Years of an era\<close>

text \<open>An era has 400 years from 1 March on; \<open>year_start n\<close> is the day its year \<open>n\<close> begins.\<close>

definition year_of :: "nat \<Rightarrow> nat" where
  "year_of doe = (doe - doe div 1460 + doe div 36524 - doe div 146096) div 365"

definition year_start :: "nat \<Rightarrow> nat" where
  "year_start n = 365 * n + n div 4 - n div 100"

definition year_end :: "nat \<Rightarrow> nat" where
  "year_end n = (if n = 399 then 146097 else year_start (n + 1))"

lemma year_of_mono: "year_of a \<le> year_of (Suc a)"
proof -
  define q q' where "q = a div 36524" and "q' = Suc a div 36524"
  have d: "a div 146096 = q div 4" "Suc a div 146096 = q' div 4"
    by (simp_all add: q_def q'_def flip: div_mult2_eq)
  have q: "q' = q \<or> q' = Suc q" unfolding q_def q'_def by (simp add: div_Suc)
  have c: "Suc a div 1460 = a div 1460 \<or> Suc a div 1460 = Suc (a div 1460)" by (simp add: div_Suc)
  have "a - a div 1460 + q - q div 4 \<le> Suc a - Suc a div 1460 + q' - q' div 4"
    using q c by (auto simp: div_Suc)
  then show ?thesis unfolding year_of_def d q_def[symmetric] q'_def[symmetric] by (rule div_le_mono)
qed

lemma year_of_le: "a \<le> b \<Longrightarrow> year_of a \<le> year_of b"
  by (rule lift_Suc_mono_le[of year_of]) (rule year_of_mono)

text \<open>The 400 years, checked one by one over the integers.\<close>

definition year_int :: "int \<Rightarrow> int" where
  "year_int d = (d - d div 1460 + d div 36524 - d div 146096) div 365"

definition start_int :: "int \<Rightarrow> int" where
  "start_int n = 365 * n + n div 4 - n div 100"

definition end_int :: "int \<Rightarrow> int" where
  "end_int n = (if n = 399 then 146097 else start_int (n + 1))"

lemma int_forms:
  "int (year_of d) = year_int (int d)" "int (year_start n) = start_int (int n)" "int (year_end n) = end_int (int n)"
proof -
  have le: "d div 146096 \<le> d div 36524" "d div 1460 \<le> d" by (simp_all add: div_le_mono2)
  then have "int (d - d div 1460 + d div 36524 - d div 146096) = int d - int (d div 1460) + int (d div 36524) - int (d div 146096)"
    by linarith
  then show "int (year_of d) = year_int (int d)" by (simp add: year_of_def year_int_def zdiv_int)
  have s: "int (year_start n) = start_int (int n)" for n
    by (simp add: year_start_def start_int_def zdiv_int of_nat_diff div_le_dividend trans_le_add1)
  then show "int (year_start n) = start_int (int n)" .
  show "int (year_end n) = end_int (int n)" using s[of "n + 1"] by (auto simp: year_end_def end_int_def add.commute)
qed

lemma year_table:
  assumes "n < 400"
  shows "year_int (start_int (int n)) = int n" and "year_int (end_int (int n) - 1) = int n"
    and "start_int (int n) < end_int (int n)" and "end_int (int n) \<le> 146097"
    and "end_int (int n) - start_int (int n) = (if leap (int n + 1) then 366 else 365)"
proof -
  have "list_all (\<lambda>n. year_int (start_int n) = n \<and> year_int (end_int n - 1) = n \<and> start_int n < end_int n \<and>
      end_int n \<le> 146097 \<and> end_int n - start_int n = (if leap (n + 1) then 366 else 365)) [0..399]"
    by code_simp
  then show "year_int (start_int (int n)) = int n" "year_int (end_int (int n) - 1) = int n"
    "start_int (int n) < end_int (int n)" "end_int (int n) \<le> 146097"
    "end_int (int n) - start_int (int n) = (if leap (int n + 1) then 366 else 365)"
    using assms by (simp_all add: list_all_iff del: upto_rec_numeral)
qed

lemma year_ends:
  assumes "n < 400"
  shows "year_of (year_start n) = n" and "year_of (year_end n - 1) = n" and "year_start n < year_end n"
    and "year_end n \<le> 146097"
proof -
  note t = year_table[OF assms, folded int_forms]
  show lt: "year_start n < year_end n" "year_end n \<le> 146097" using t(3,4) by simp_all
  show "year_of (year_start n) = n" using t(1) by (simp flip: int_forms(1))
  have "int (year_end n - 1) = int (year_end n) - 1" using lt by simp
  then show "year_of (year_end n - 1) = n" using t(2) int_forms(1)[of "year_end n - 1"] by simp
qed

lemma year_of_lt: "doe < 146097 \<Longrightarrow> year_of doe < 400"
proof -
  assume "doe < 146097"
  then have "year_of doe \<le> year_of 146096" by (intro year_of_le) simp
  also have "year_of 146096 = 399" using year_ends(2)[of 399] by (simp add: year_end_def)
  finally show ?thesis by simp
qed

lemma year_of_unique: "n < 400 \<Longrightarrow> year_start n \<le> doe \<Longrightarrow> doe < year_end n \<Longrightarrow> year_of doe = n"
  using year_of_le[of "year_start n" doe] year_of_le[of doe "year_end n - 1"] year_ends[of n] by simp

lemma year_of_bounds:
  assumes "doe < 146097"
  shows "year_start (year_of doe) \<le> doe" and "doe < year_end (year_of doe)"
proof -
  define n where "n = year_of doe"
  have n: "n < 400" using year_of_lt[OF assms] by (simp add: n_def)
  show "year_start (year_of doe) \<le> doe"
  proof (rule ccontr)
    assume "\<not> year_start (year_of doe) \<le> doe"
    then have lt: "doe < year_start n" by (simp add: n_def)
    then have "n \<noteq> 0" by (cases n) (auto simp: year_start_def)
    then obtain k where k: "n = Suc k" by (cases n) auto
    with n have e: "year_end k = year_start n" by (simp add: year_end_def)
    have "year_of doe \<le> year_of (year_end k - 1)" using lt e by (intro year_of_le) simp
    then show False using year_ends(2)[of k] n k by (simp add: n_def)
  qed
  show "doe < year_end (year_of doe)"
  proof (rule ccontr)
    assume "\<not> doe < year_end (year_of doe)"
    then have ge: "year_end n \<le> doe" by (simp add: n_def)
    then have "n \<noteq> 399" using assms by (auto simp: year_end_def)
    with n ge have "year_of (year_start (n + 1)) \<le> year_of doe" by (intro year_of_le) (simp add: year_end_def)
    then show False using year_ends(1)[of "n + 1"] n \<open>n \<noteq> 399\<close> by (simp add: n_def)
  qed
qed

section \<open>Days of a year\<close>

text \<open>Month and day of the day \<open>doy\<close> of a year that starts on 1 March.\<close>

definition month_day :: "nat \<Rightarrow> nat \<times> nat" where
  "month_day doy =
     (let mp = (5 * doy + 2) div 153 in (if mp < 10 then mp + 3 else mp - 9, doy - (153 * mp + 2) div 5 + 1))"

definition date_at :: "int \<Rightarrow> nat \<Rightarrow> int \<times> nat \<times> nat" where
  "date_at y doy = (case month_day doy of (m, d) \<Rightarrow> (if m \<le> 2 then y + 1 else y, m, d))"

definition month_day_int :: "int \<Rightarrow> int \<times> int" where
  "month_day_int doy =
     (let mp = (5 * doy + 2) div 153 in (if mp < 10 then mp + 3 else mp - 9, doy - (153 * mp + 2) div 5 + 1))"

lemma month_day_ints: "map_prod int int (month_day doy) = month_day_int (int doy)"
proof -
  define mp where "mp = (5 * doy + 2) div 153"
  have i: "int mp = (5 * int doy + 2) div 153" by (simp add: mp_def zdiv_int)
  have "153 * mp \<le> 5 * doy + 2" unfolding mp_def by (rule times_div_less_eq_dividend)
  then have "(153 * mp + 2) div 5 \<le> doy" by linarith
  then have "int (doy - (153 * mp + 2) div 5 + 1) = int doy - (153 * int mp + 2) div 5 + 1"
    by (simp add: of_nat_diff zdiv_int)
  moreover have "month_day doy = (if mp < 10 then mp + 3 else mp - 9, doy - (153 * mp + 2) div 5 + 1)"
    by (simp only: month_day_def Let_def mp_def)
  moreover have "month_day_int (int doy) = (if int mp < 10 then int mp + 3 else int mp - 9, int doy - (153 * int mp + 2) div 5 + 1)"
    by (simp only: month_day_int_def Let_def i)
  ultimately show ?thesis by simp
qed

text \<open>The days before the last day of February, leap year or not.\<close>

definition month_len_int :: "bool \<Rightarrow> int \<Rightarrow> int" where
  "month_len_int lp m = (if m = 2 then (if lp then 29 else 28) else if m \<in> {4, 6, 9, 11} then 30 else 31)"

definition month_step :: "bool \<Rightarrow> int \<times> int \<Rightarrow> int \<times> int \<Rightarrow> bool" where
  "month_step lp a b = (case (a, b) of ((m, d), (m', d')) \<Rightarrow>
      if d < month_len_int lp m then m' = m \<and> d' = d + 1
      else if m < 12 then m' = m + 1 \<and> d' = 1 \<and> m \<noteq> 2 else m = 12 \<and> m' = 1 \<and> d' = 1)"

lemma month_table:
  "list_all (\<lambda>d. month_step True (month_day_int d) (month_day_int (d + 1)) \<and>
     month_step False (month_day_int d) (month_day_int (d + 1))) [0..363]"
  by code_simp

lemma month_day_steps:
  assumes "doy < 364"
  shows "date_at y (Suc doy) = next_date (date_at y doy)"
proof -
  have "month_step lp (month_day_int (int doy)) (month_day_int (int (Suc doy)))" for lp
  proof -
    have "int doy \<in> set [0..363]" using assms by simp
    with month_table have "month_step True (month_day_int (int doy)) (month_day_int (int doy + 1)) \<and>
        month_step False (month_day_int (int doy)) (month_day_int (int doy + 1))"
      unfolding list_all_iff by blast
    then show ?thesis by (cases lp) (simp_all add: add.commute)
  qed
  then have st: "month_step lp (map_prod int int (month_day doy)) (map_prod int int (month_day (Suc doy)))" for lp
    by (simp add: month_day_ints)
  obtain m d where a: "month_day doy = (m, d)" by fastforce
  obtain m' d' where b: "month_day (Suc doy) = (m', d')" by fastforce
  have len: "month_len_int lp (int m) = int (month_len lp m)" for lp
    by (auto simp: month_len_int_def month_len_def)
  have r: "if d < month_len lp m then m' = m \<and> d' = d + 1
      else if m < 12 then m' = m + 1 \<and> d' = 1 \<and> m \<noteq> 2 else m = 12 \<and> m' = 1 \<and> d' = 1" for lp
    using st[of lp] unfolding a b month_step_def by (simp add: len split: if_splits)
  show ?thesis
    using r[of "leap (y + 1)"] r[of "leap y"] by (auto simp: date_at_def next_date_def a b split: if_splits)
qed

definition year_days :: "int \<Rightarrow> nat" where
  "year_days y = (if leap (y + 1) then 366 else 365)"

lemma date_step:
  assumes "doy < year_days y"
  shows "next_date (date_at y doy) = (if Suc doy < year_days y then date_at y (Suc doy) else date_at (y + 1) 0)"
proof -
  have md: "month_day 0 = (3, 1)" "month_day 364 = (2, 28)" "month_day 365 = (2, 29)" by (simp_all add: month_day_def)
  consider "doy < 364" | "doy = 364" | "doy = 365" using assms by (force simp: year_days_def split: if_splits)
  then show ?thesis
  proof cases
    case 1
    then show ?thesis using month_day_steps[OF 1, of y] by (simp add: year_days_def)
  next
    case 2
    then show ?thesis using md by (simp add: date_at_def next_date_def month_len_def year_days_def)
  next
    case 3
    with assms have "leap (y + 1)" by (auto simp: year_days_def split: if_splits)
    with 3 md show ?thesis by (simp add: date_at_def next_date_def month_len_def year_days_def)
  qed
qed

lemma year_length: "n < 400 \<Longrightarrow> year_end n - year_start n = year_days (int n + era * 400)"
proof -
  assume n: "n < 400"
  have "year_end n - year_start n = year_days (int n)"
    using year_table(5)[OF n, folded int_forms] year_ends(3)[OF n] by (auto simp: year_days_def split: if_splits)
  moreover have "leap (int n + era * 400 + 1) = leap (int n + 1)"
  proof -
    have e: "int n + era * 400 + 1 = int n + 1 + 400 * era" by simp
    have "(int n + 1 + 400 * era) mod 400 = (int n + 1) mod 400" by (rule mod_mult_self2)
    moreover have "(int n + 1 + 400 * era) mod 100 = (int n + 1) mod 100"
      using mod_mult_self2[of "int n + 1" 100 "4 * era"] by simp
    moreover have "(int n + 1 + 400 * era) mod 4 = (int n + 1) mod 4"
      using mod_mult_self2[of "int n + 1" 4 "100 * era"] by simp
    ultimately show ?thesis by (simp only: leap_def e)
  qed
  ultimately show ?thesis by (simp add: year_days_def)
qed

section \<open>The computation\<close>

definition date_in_era :: "int \<Rightarrow> nat \<Rightarrow> int \<times> nat \<times> nat" where
  "date_in_era era doe = date_at (int (year_of doe) + era * 400) (doe - year_start (year_of doe))"

lemma era_floor: "tdiv (if 0 \<le> z then z else z - 146096) 146097 = z div 146097"
proof (cases "0 \<le> z")
  case False
  have "(146096 - z) div 146097 = - (z div 146097)"
  proof (rule int_div_pos_eq[where r = "146096 - z mod 146097"])
    show "146096 - z = 146097 * - (z div 146097) + (146096 - z mod 146097)"
      using div_mult_mod_eq[of z 146097] by (simp add: algebra_simps)
  qed simp_all
  with False show ?thesis by (simp add: tdiv_def)
qed (simp add: tdiv_def)

lemma civil_in_era:
  "civil_from_days z = date_in_era ((z + 719468) div 146097) (nat ((z + 719468) mod 146097))"
proof -
  have "z + 719468 - (z + 719468) div 146097 * 146097 = (z + 719468) mod 146097"
    by (simp add: minus_div_mult_eq_mod)
  then show ?thesis
    by (simp only: civil_from_days_def date_in_era_def date_at_def month_day_def year_of_def year_start_def era_floor Let_def prod.case)
qed

lemma era_step:
  assumes "doe < 146097"
  shows "next_date (date_in_era era doe) =
    (if Suc doe < 146097 then date_in_era era (Suc doe) else date_in_era (era + 1) 0)"
proof -
  define n where "n = year_of doe"
  have n: "n < 400" using year_of_lt[OF assms] by (simp add: n_def)
  have b: "year_start n \<le> doe" "doe < year_end n" using year_of_bounds[OF assms] by (simp_all add: n_def)
  let ?y = "int n + era * 400"
  have len: "year_end n - year_start n = year_days ?y" by (rule year_length[OF n])
  then have lt: "doe - year_start n < year_days ?y" using b by simp
  have zero: "year_of 0 = 0" "year_start 0 = 0" by (simp_all add: year_of_def year_start_def)
  note st = date_step[OF lt]
  have now: "date_in_era era doe = date_at ?y (doe - year_start n)" by (simp add: date_in_era_def n_def)
  consider "Suc doe < year_end n" | "Suc doe = year_end n" using b by linarith
  then show ?thesis
  proof cases
    case 1
    then have "year_of (Suc doe) = n" using b n by (intro year_of_unique) auto
    then have "date_in_era era (Suc doe) = date_at ?y (Suc doe - year_start n)" by (simp add: date_in_era_def)
    moreover have "Suc doe < 146097" using 1 year_ends(4)[OF n] by simp
    moreover have "Suc (doe - year_start n) = Suc doe - year_start n" "Suc doe - year_start n < year_days ?y"
      using 1 b len by simp_all
    ultimately show ?thesis using st now by simp
  next
    case 2
    then have s: "\<not> Suc (doe - year_start n) < year_days ?y" using b len by simp
    show ?thesis
    proof (cases "n = 399")
      case True
      then have "Suc doe = 146097" using 2 by (simp add: year_end_def)
      moreover have "date_in_era (era + 1) 0 = date_at (?y + 1) 0" using True zero by (simp add: date_in_era_def add.commute)
      ultimately show ?thesis using st now s by simp
    next
      case False
      then have m: "n + 1 < 400" and e: "Suc doe = year_start (n + 1)" using n 2 by (simp_all add: year_end_def)
      then have "year_of (Suc doe) = n + 1" using year_ends(1)[OF m] by simp
      then have "date_in_era era (Suc doe) = date_at (?y + 1) 0"
        using e by (simp add: date_in_era_def algebra_simps)
      moreover have "Suc doe < 146097" using e year_ends(3,4)[OF m] by simp
      ultimately show ?thesis using st now s by simp
    qed
  qed
qed

lemma succ_div_mod:
  assumes "0 < (b :: int)"
  shows "x mod b = b - 1 \<Longrightarrow> (x + 1) div b = x div b + 1 \<and> (x + 1) mod b = 0"
    and "x mod b \<noteq> b - 1 \<Longrightarrow> (x + 1) div b = x div b \<and> (x + 1) mod b = x mod b + 1"
proof -
  have x: "x = b * (x div b) + x mod b" by simp
  show "(x + 1) div b = x div b + 1 \<and> (x + 1) mod b = 0" if "x mod b = b - 1"
  proof -
    have "x + 1 = b * (x div b + 1) + 0" using x that by (simp add: algebra_simps)
    then show ?thesis using assms int_div_pos_eq int_mod_pos_eq by blast
  qed
  show "(x + 1) div b = x div b \<and> (x + 1) mod b = x mod b + 1" if "x mod b \<noteq> b - 1"
  proof -
    have "x + 1 = b * (x div b) + (x mod b + 1)" using x by simp
    moreover have "0 \<le> x mod b + 1" "x mod b + 1 < b"
      using that pos_mod_bound[OF assms, of x] pos_mod_sign[OF assms, of x] by linarith+
    ultimately show ?thesis using int_div_pos_eq int_mod_pos_eq by blast
  qed
qed

text \<open>C40 The dates in the log are the Gregorian calendar's: day 0 is 1970-01-01, and the day after any day is
  the calendar's next day, over month ends, leap years and centuries, forwards and backwards.\<close>

theorem civil_from_days_calendar:
  "civil_from_days 0 = (1970, 1, 1) \<and> (\<forall>z. civil_from_days (z + 1) = next_date (civil_from_days z))"
proof (intro conjI allI)
  show "civil_from_days 0 = (1970, 1, 1)"
    by (simp add: civil_in_era date_in_era_def year_of_def year_start_def date_at_def month_day_def)
  fix z :: int
  define x where "x = z + 719468"
  have m: "nat (x mod 146097) < 146097" by simp
  have s: "z + 1 + 719468 = x + 1" by (simp add: x_def)
  have "date_in_era ((x + 1) div 146097) (nat ((x + 1) mod 146097)) =
    (if Suc (nat (x mod 146097)) < 146097 then date_in_era (x div 146097) (Suc (nat (x mod 146097)))
     else date_in_era (x div 146097 + 1) 0)"
  proof (cases "x mod 146097 = 146096")
    case True
    then have "(x + 1) div 146097 = x div 146097 + 1" "(x + 1) mod 146097 = 0" using succ_div_mod(1)[of 146097 x] by simp_all
    with True show ?thesis by simp
  next
    case False
    then have "(x + 1) div 146097 = x div 146097" "(x + 1) mod 146097 = x mod 146097 + 1"
      using succ_div_mod(2)[of 146097 x] by simp_all
    moreover have "Suc (nat (x mod 146097)) < 146097" using False m by linarith
    ultimately show ?thesis by (simp add: nat_add_distrib)
  qed
  then show "civil_from_days (z + 1) = next_date (civil_from_days z)"
    by (simp only: civil_in_era s x_def[symmetric] era_step[OF m])
qed

end
