(* ===== verification/Request_Laws.thy ===== *)
theory Request_Laws
  imports Mover_Registry
begin

text \<open>
  What a request carries and gets back: a query string is read as it was written, and the number a
  client is given for a search names that search again.
\<close>

section \<open>Query strings\<close>

text \<open>A query as a client writes it, each key and value encoded by \<open>enc\<close>.\<close>

definition query_text :: "(string \<Rightarrow> string) \<Rightarrow> (string \<times> string) list \<Rightarrow> string" where
  "query_text enc ps = join_with (CHR ''&'') (map (\<lambda>p. enc (fst p) @ CHR ''='' # enc (snd p)) ps)"

definition encodes :: "mover_env \<Rightarrow> (string \<Rightarrow> string) \<Rightarrow> string \<Rightarrow> bool" where
  "encodes E enc s \<longleftrightarrow> pct_decode E (enc s) = s \<and> CHR ''&'' \<notin> set (enc s) \<and> CHR ''='' \<notin> set (enc s)"

lemma parse_pair_text:
  assumes "encodes E enc k" and "encodes E enc v"
  shows "parse_pair E (enc k @ CHR ''='' # enc v) = (k, v)"
proof -
  have "split_once (CHR ''='') (enc k @ CHR ''='' # enc v) = Some (enc k, enc v)"
    using assms(1) by (simp add: split_once_Some encodes_def)
  then show ?thesis using assms by (simp add: parse_pair_def encodes_def)
qed

text \<open>C36 Query strings round-trip: what a client writes as encoded \<open>key=value\<close> pairs joined by \<open>&\<close> is read
  back as exactly these pairs, the last one winning for a key written twice.\<close>

theorem parse_query_text:
  assumes "\<And>k v. (k, v) \<in> set ps \<Longrightarrow> encodes E enc k \<and> encodes E enc v"
  shows "parse_query E (query_text enc ps) = map_of (rev ps)"
proof (cases "ps = []")
  case True
  then show ?thesis by (simp add: parse_query_def query_text_def)
next
  case False
  define item where "item = (\<lambda>p :: string \<times> string. enc (fst p) @ CHR ''='' # enc (snd p))"
  define add where "add = (\<lambda>m pair. if pair = [] then m
     else m(fst (parse_pair E pair) \<mapsto> snd (parse_pair E pair)))"
  have "\<forall>s \<in> set (map item ps). CHR ''&'' \<notin> set s"
    using assms by (fastforce simp: item_def encodes_def)
  then have split: "split_on (CHR ''&'') (query_text enc ps) = map item ps"
    using False by (simp add: query_text_def item_def split_join_with)
  have read: "foldl add m (map item qs) = m ++ map_of (rev qs)" if "set qs \<subseteq> set ps" for m qs
    using that
  proof (induction qs arbitrary: m)
    case (Cons p qs)
    obtain k v where p: "p = (k, v)" by fastforce
    then have "add m (item p) = m(k \<mapsto> v)"
      using parse_pair_text[of E enc k v] assms[of k v] Cons.prems by (simp add: add_def item_def)
    moreover have "m(k \<mapsto> v) ++ map_of (rev qs) = m ++ map_of (rev (p # qs))"
      by (simp add: p map_add_def fun_eq_iff split: option.splits)
    ultimately show ?case using Cons by simp
  qed simp
  have "parse_query E (query_text enc ps) = foldl add Map.empty (map item ps)"
    by (simp add: parse_query_def split add_def)
  then show ?thesis using read[of ps Map.empty] by simp
qed

lemma parse_query_text_witness:
  "parse_query sample_env ''src=/a b&dst=/c&src=/d'' = [''src'' \<mapsto> ''/d'', ''dst'' \<mapsto> ''/c'']"
proof -
  define ps where "ps = [(''src'', ''/a b''), (''dst'', ''/c''), (''src'', ''/d'')]"
  have "encodes sample_env id k \<and> encodes sample_env id v" if "(k, v) \<in> set ps" for k v
    using that by (auto simp: ps_def encodes_def sample_env_def)
  then have "parse_query sample_env (query_text id ps) = map_of (rev ps)" by (rule parse_query_text)
  moreover have "query_text id ps = ''src=/a b&dst=/c&src=/d''" by (simp add: query_text_def ps_def)
  moreover have "map_of (rev ps) = [''src'' \<mapsto> ''/d'', ''dst'' \<mapsto> ''/c'']" by (simp add: ps_def fun_eq_iff)
  ultimately show ?thesis by simp
qed

section \<open>Numbers in requests\<close>

lemma parse_show_u64: "parse_u64 (show_nat (unat k)) = Some k"
proof -
  have d: "48 \<le> (of_char c :: nat) \<and> (of_char c :: nat) \<le> 57" if c: "c \<in> set (show_nat n)" for c n
  proof -
    obtain d where "d < 10" "c = digit_char d" using show_nat_digits[OF c] by blast
    then show ?thesis by (simp add: of_char_digit)
  qed
  have "CHR ''+'' \<notin> set (show_nat n)" for n using d[of "CHR ''+''" n] by auto
  then have "(case show_nat (unat k) of [] \<Rightarrow> [] | c # cs \<Rightarrow> if c = CHR ''+'' \<and> cs \<noteq> [] then cs else show_nat (unat k))
      = show_nat (unat k)"
    by (cases "show_nat (unat k)") (auto, metis list.set_intros(1))
  moreover have "unat k < 2 ^ 64" using unsigned_less[of k] by simp
  ultimately show ?thesis using d by (simp add: parse_u64_def show_nat_value)
qed

lemma parse_query_single:
  assumes "pct_decode E k = k" and "pct_decode E v = v" and "{CHR ''&'', CHR ''=''} \<inter> (set k \<union> set v) = {}"
  shows "parse_query E (k @ CHR ''='' # v) = [k \<mapsto> v]"
proof -
  have "split_on (CHR ''&'') (k @ CHR ''='' # v) = [k @ CHR ''='' # v]" using assms(3) by simp
  moreover have "parse_pair E (k @ CHR ''='' # v) = (k, v)"
    using parse_pair_text[of E id k v] assms by (auto simp: encodes_def)
  ultimately show ?thesis by (simp add: parse_query_def)
qed

lemma show_nat_no_sep: "CHR ''&'' \<notin> set (show_nat n)" "CHR ''='' \<notin> set (show_nat n)"
proof -
  have "48 \<le> (of_char c :: nat) \<and> (of_char c :: nat) \<le> 57" if "c \<in> set (show_nat n)" for c
    using show_nat_digits[OF that] by (auto simp: of_char_digit)
  then show "CHR ''&'' \<notin> set (show_nat n)" "CHR ''='' \<notin> set (show_nat n)" by force+
qed

definition get_search :: "u64 \<Rightarrow> request" where
  "get_search sid = \<lparr>q_method = ''GET'', q_path = ''/api/search'', q_query = ''id='' @ show_nat (unat sid),
     q_body = Inr [], q_frames = [], q_nanos = 0\<rparr>"

text \<open>C37 The number handed out for a search finds it: after \<open>POST /api/search\<close> has been accepted, asking
  \<open>GET /api/search?id=N\<close> with the number of the answer, printed in decimal, gives exactly the new
  search, running and without matches, and the walk it names has been started.\<close>

theorem search_roundtrip:
  assumes "q_method q = ''POST''" and "q_path q = ''/api/search''" and "q_body q = Inr b"
    and "json_parse (d_env D) b = Inr v" and "str_field ''root'' v \<noteq> []" and "str_field ''q'' v \<noteq> []"
    and "pct_decode (d_env D) ''id'' = ''id''"
    and "pct_decode (d_env D) (show_nat (unat (next_search s))) = show_nat (unat (next_search s))"
    and "route D S q s = (r, t)"
  shows "r = json_resp D 202 (JObject [(''search_id'', JU64 (next_search s))]) \<and>
    route D S (get_search (next_search s)) t =
      (json_resp D 200 (search_json (next_search s) (new_search (str_field ''root'' v) (str_field ''q'' v))), t) \<and>
    tasks t = tasks s @ [SearchTask (next_search s) (resolve_path (d_env D) (str_field ''root'' v)) (str_field ''q'' v)]"
proof -
  let ?k = "next_search s"
  have t: "r = json_resp D 202 (JObject [(''search_id'', JU64 ?k)])"
    "t = s\<lparr>next_search := ?k + 1,
        searches := AList.update ?k (new_search (str_field ''root'' v) (str_field ''q'' v)) (searches s),
        tasks := tasks s @ [SearchTask ?k (resolve_path (d_env D) (str_field ''root'' v)) (str_field ''q'' v)]\<rparr>"
    using assms by (simp_all add: route_def handle_search_start_def with_json_def search_request_def Let_def)
  have "parse_query (d_env D) (''id'' @ CHR ''='' # show_nat (unat ?k)) = [''id'' \<mapsto> show_nat (unat ?k)]"
    using assms(7,8) show_nat_no_sep by (intro parse_query_single) auto
  then have "route D S (get_search ?k) t =
      (json_resp D 200 (search_json ?k (new_search (str_field ''root'' v) (str_field ''q'' v))), t)"
    by (simp add: route_def get_search_def handle_search_def parse_show_u64 t(2) update_conv' Let_def)
  with t show ?thesis by simp
qed

text \<open>A daemon that has run a search before; the body of a request is the text searched for.\<close>

definition search_daemon :: daemon where
  "search_daemon = sample_daemon\<lparr>d_env := sample_env\<lparr>json_parse :=
     (\<lambda>b. Inr (JObject [(''root'', JString ''/src''), (''q'', JString b)]))\<rparr>\<rparr>"

definition search_for :: "string \<Rightarrow> request" where
  "search_for b = \<lparr>q_method = ''POST'', q_path = ''/api/search'', q_query = [], q_body = Inr b, q_frames = [], q_nanos = 0\<rparr>"

definition searched_mover :: mover where
  "searched_mover = (sample_mover [] 1 [])\<lparr>next_search := 12\<rparr>"

lemma search_roundtrip_witness:
  "\<exists>t. snd (route search_daemon no_sudo (search_for ''txt'') searched_mover) = t \<and>
     route search_daemon no_sudo (get_search 12) t =
       (json_resp search_daemon 200 (search_json 12 (new_search ''/src'' ''txt'')), t)"
proof -
  obtain r t where rt: "route search_daemon no_sudo (search_for ''txt'') searched_mover = (r, t)" by fastforce
  have k: "next_search searched_mover = 12" by (simp add: searched_mover_def)
  have v: "json_parse (d_env search_daemon) ''txt'' = Inr (JObject [(''root'', JString ''/src''), (''q'', JString ''txt'')])"
    by (simp add: search_daemon_def)
  have f: "str_field ''root'' (JObject [(''root'', JString ''/src''), (''q'', JString ''txt'')]) = ''/src''"
    "str_field ''q'' (JObject [(''root'', JString ''/src''), (''q'', JString ''txt'')]) = ''txt''" by code_simp+
  have d: "pct_decode (d_env search_daemon) x = x" for x by (simp add: search_daemon_def sample_env_def)
  have b: "q_method (search_for ''txt'') = ''POST''" "q_path (search_for ''txt'') = ''/api/search''"
    "q_body (search_for ''txt'') = Inr ''txt''" by (simp_all add: search_for_def)
  from search_roundtrip[OF b v _ _ d d rt] f k rt show ?thesis by simp
qed

end
