(* ===== verification/Search_Laws.thy ===== *)
theory Search_Laws
  imports Mover_Registry Tree_Paths
begin

text \<open>
  What a search finds: whatever goes wrong, only matching entries, at most a thousand of them; and
  without faults every entry of the tree whose name matches.
\<close>

section \<open>Soundness and bounds, under every pattern of faults\<close>

text \<open>A tree as a file system gives it: the names in a directory are distinct and plain; links are allowed.\<close>

fun names_ok :: "node \<Rightarrow> bool" where
  "names_ok (File d) = True"
| "names_ok (Symlink x) = True"
| "names_ok (Dir es) = (distinct (map fst es) \<and> (\<forall>e \<in> set es. plain_name (fst e) \<and> names_ok (snd e)))"

lemma names_ok_tget: "names_ok t \<Longrightarrow> tget t l = Some n \<Longrightarrow> names_ok n"
proof (induction t l rule: tget.induct)
  case (2 es x xs)
  then show ?case by (fastforce split: option.splits dest: map_of_SomeD)
qed auto

text \<open>The worlds of a search differ in the faults still to come only.\<close>

definition same_disk :: "world \<Rightarrow> world \<Rightarrow> bool" where
  "same_disk w v \<longleftrightarrow> fs v = fs w \<and> cwd v = cwd w \<and> (faults w = [] \<longrightarrow> faults v = [])"

lemma same_disk_refl [simp]: "same_disk w w"
  by (simp add: same_disk_def)

lemma same_disk_trans: "same_disk w v \<Longrightarrow> same_disk v u \<Longrightarrow> same_disk w u"
  by (auto simp: same_disk_def)

lemma same_disk_resolve: "same_disk w v \<Longrightarrow> resolve f v p = resolve f w p"
  by (simp add: same_disk_def resolve_def)

text \<open>
  A match of a search in the world \<open>w\<close>: the entry \<open>name\<close> of the directory \<open>r\<close> below the root is
  there, it is the node \<open>n\<close>, and the record has its name, its path and its own kind and size;
  only when faults occur can the query of these have failed.
\<close>

definition good_match :: "mover_env \<Rightarrow> string \<Rightarrow> string list \<Rightarrow> path \<Rightarrow> world \<Rightarrow> json \<Rightarrow> bool" where
  "good_match E sub sfxs root w m \<longleftrightarrow>
     (\<exists>l r name n. resolve True w root = Inr l \<and> tget (fs w) (l @ r @ [name]) = Some n \<and>
        name_matches E sub sfxs name \<and>
        (m = match_json name (path_at root (r @ [name])) (Some n) \<or>
         faults w \<noteq> [] \<and> m = match_json name (path_at root (r @ [name])) None))"

definition search_ok :: "mover_env \<Rightarrow> string \<Rightarrow> string list \<Rightarrow> path \<Rightarrow> world \<Rightarrow> u64 \<Rightarrow> 'a search_state_scheme \<Rightarrow> bool" where
  "search_ok E sub sfxs root w sid s \<longleftrightarrow>
     (\<exists>r. map_of (searches s) sid = Some r \<and> length (s_matches r) \<le> max_results \<and>
       (\<forall>m \<in> set (s_matches r). good_match E sub sfxs root w m))"

text \<open>A step of the walk: it reads the tree and writes to its own record only.\<close>

definition search_step :: "mover_env \<Rightarrow> string \<Rightarrow> string list \<Rightarrow> path \<Rightarrow> world \<Rightarrow> u64 \<Rightarrow>
    'a search_state_scheme \<Rightarrow> 'a search_state_scheme \<Rightarrow> bool" where
  "search_step E sub sfxs root w sid s t \<longleftrightarrow>
     same_disk (jw s) (jw t) \<and> jobs t = jobs s \<and> (\<forall>i. i \<noteq> sid \<longrightarrow> map_of (searches t) i = map_of (searches s) i) \<and>
     (search_ok E sub sfxs root w sid s \<longrightarrow> search_ok E sub sfxs root w sid t)"

lemma search_step_refl [simp]: "search_step E sub sfxs root w sid s s"
  by (simp add: search_step_def)

lemma search_step_trans:
  "search_step E sub sfxs root w sid s t \<Longrightarrow> search_step E sub sfxs root w sid t u \<Longrightarrow> search_step E sub sfxs root w sid s u"
  by (auto simp: search_step_def intro: same_disk_trans)

lemma step_disk: "search_step E sub sfxs root w sid s t \<Longrightarrow> same_disk w (jw s) \<Longrightarrow> same_disk w (jw t)"
  by (auto simp: search_step_def intro: same_disk_trans)

lemma query_step:
  assumes "on_world f s = (r, t)" and "same_disk (jw s) (snd (f (jw s)))"
  shows "search_step E sub sfxs root w sid s t"
  using assms by (auto simp: on_world_simps search_step_def search_ok_def)

lemma update_step:
  assumes "\<And>r. s_matches (f r) = s_matches r"
  shows "search_step E sub sfxs root w sid s (search_update sid f s)"
  using assms by (auto simp: search_step_def search_update_def search_ok_def map_of_reg_update)

lemma push_step:
  assumes "push_match sid m s = (b, t)" and "good_match E sub sfxs root w m"
  shows "search_step E sub sfxs root w sid s t"
proof (cases "map_of (searches s) sid")
  case None
  then show ?thesis using assms(1) by (simp add: push_match_def)
next
  case (Some r)
  then show ?thesis
    using assms
    by (auto simp: push_match_def search_step_def search_update_def search_ok_def map_of_reg_update split: if_splits)
qed

text \<open>A query gives what is in the tree, or fails by a fault.\<close>

lemma sys_answer:
  assumes "sys (\<lambda>w. (g w, fs w)) w = (r, v)" and "\<And>u. same_disk w u \<Longrightarrow> g u = g w"
  shows "same_disk w v" and "r = g w \<or> faults w \<noteq> [] \<and> isl r"
proof -
  have "same_disk w v \<and> (r = g w \<or> faults w \<noteq> [] \<and> isl r)"
  proof (cases "faults w = []")
    case True
    then have "r = g w" "v = w" using assms(1) by (auto simp: sys_simps)
    then show ?thesis by simp
  next
    case False
    from assms(1) show ?thesis
    proof (cases rule: sys_cases)
      case (fault e)
      with False show ?thesis by (simp add: same_disk_def)
    next
      case (run t)
      have d: "same_disk w (w\<lparr>faults := tl (faults w)\<rparr>)" by (simp add: same_disk_def)
      have "t = fs w" using run(1) by simp
      then have "same_disk w v" using False by (simp add: run(2) same_disk_def)
      moreover have "r = g w" using run(1) assms(2)[OF d] by simp
      ultimately show ?thesis by simp
    qed
  qed
  then show "same_disk w v" "r = g w \<or> faults w \<noteq> [] \<and> isl r" by simp_all
qed

lemma same_disk_node: "same_disk w v \<Longrightarrow> node_at f v p = node_at f w p"
  by (cases "resolve f w p") (simp_all add: node_at_def same_disk_resolve, simp add: same_disk_def)

lemma stat_answer:
  assumes "symlink_metadata p w = (r, v)"
  shows "same_disk w v" and "r = node_at False w p \<or> faults w \<noteq> [] \<and> isl r"
  using sys_answer[OF assms[unfolded symlink_metadata_def]] same_disk_node by blast+

lemma read_dir_answer:
  assumes "read_dir p w = (r, v)"
  shows "same_disk w v" and "r = Inr es \<Longrightarrow> node_at True w p = Inr (Dir es)"
proof -
  note a = sys_answer[OF assms[unfolded read_dir_def] arg_cong[OF same_disk_node,
      of w _ "\<lambda>x. case x of Inl e \<Rightarrow> Inl e | Inr (Dir es) \<Rightarrow> Inr es | Inr _ \<Rightarrow> Inl (Os ENOTDIR)" True p]]
  show "same_disk w v" using a(1) by blast
  show "r = Inr es \<Longrightarrow> node_at True w p = Inr (Dir es)"
    using a(2) by (auto split: sum.splits node.splits)
qed

lemma next_answer:
  assumes "next_entry e w = (r, v)"
  shows "same_disk w v" and "r = Inr e1 \<Longrightarrow> e1 = e"
  using sys_answer[OF assms[unfolded next_entry_def]] by auto

text \<open>Where the walk is: at a directory below the root, reached by its names.\<close>

definition walk_at :: "world \<Rightarrow> path \<Rightarrow> path \<Rightarrow> loc \<Rightarrow> loc \<Rightarrow> (string \<times> node) list \<Rightarrow> bool" where
  "walk_at w root dir l r es \<longleftrightarrow>
     resolve True w root = Inr l \<and> dir = path_at root r \<and> resolve True w dir = Inr (l @ r) \<and>
     tget (fs w) (l @ r) = Some (Dir es)"

lemma walk_at_entry:
  assumes "walk_at w root dir l r es" and "names_ok (fs w)" and "e \<in> set es"
  shows "plain_name (fst e)" and "tget (fs w) (l @ r @ [fst e]) = Some (snd e)"
proof -
  have g: "tget (fs w) (l @ r) = Some (Dir es)" using assms(1) by (simp add: walk_at_def)
  have "names_ok (Dir es)" using names_ok_tget[OF assms(2) g] .
  then show "plain_name (fst e)" "tget (fs w) (l @ r @ [fst e]) = Some (snd e)"
    using assms(3) child_node[OF g _ assms(3)] by auto
qed

lemma visit_step:
  assumes "visit E sid dir sub sfxs (fst e) s = (b, t)" and "walk_at w root dir l r es" and "names_ok (fs w)"
    and "e \<in> set es" and "same_disk w (jw s)"
  shows "search_step E sub sfxs root w sid s t"
proof (cases "name_matches E sub sfxs (fst e)")
  case False
  then show ?thesis using assms(1) by (simp add: visit_def)
next
  case True
  let ?p = "path_join dir (fst e)"
  note en = walk_at_entry[OF assms(2-4)]
  have wa: "resolve True w root = Inr l" "dir = path_at root r" "resolve True w dir = Inr (l @ r)"
    "tget (fs w) (l @ r) = Some (Dir es)"
    using assms(2) unfolding walk_at_def by blast+
  have "resolve False w ?p = Inr ((l @ r) @ [fst e])" using resolve_name[OF wa(3,4) en(1)] by simp
  then have na: "node_at False (jw s) ?p = Inr (snd e)"
    using en(2) same_disk_node[OF assms(5)] by (simp add: node_at_def)
  obtain x s1 where q: "on_world (symlink_metadata ?p) s = (x, s1)" by fastforce
  obtain x' v where sm: "symlink_metadata ?p (jw s) = (x', v)" by fastforce
  have x: "x = Inr (snd e) \<or> faults w \<noteq> [] \<and> isl x"
    using stat_answer(2)[OF sm] na q sm assms(5) by (auto simp: on_world_def same_disk_def)
  have g: "good_match E sub sfxs root w (match_json (fst e) ?p (case x of Inl y \<Rightarrow> None | Inr n \<Rightarrow> Some n))"
    unfolding good_match_def using x wa(1,2) en(2) True
    by (intro exI[of _ l] exI[of _ r] exI[of _ "fst e"] exI[of _ "snd e"]) (auto split: sum.splits)
  have "push_match sid (match_json (fst e) ?p (case x of Inl y \<Rightarrow> None | Inr n \<Rightarrow> Some n)) s1 = (b, t)"
    using assms(1) True q by (auto simp: visit_def Let_def split: sum.splits)
  from push_step[OF this g] have "search_step E sub sfxs root w sid s1 t" .
  moreover have "search_step E sub sfxs root w sid s s1"
    by (rule query_step[OF q]) (use sm stat_answer(1)[OF sm] in simp)
  ultimately show ?thesis using search_step_trans by blast
qed

text \<open>A directory found among the entries is below the root again.\<close>

lemma subdir_at:
  assumes "walk_at w root dir l r es" and "names_ok (fs w)" and "e \<in> set es" and "is_dirn (Some (snd e))"
    and "resolve True w (path_join dir (fst e)) = Inr k"
  shows "\<exists>l r. resolve True w root = Inr l \<and> path_join dir (fst e) = path_at root r \<and> k = l @ r"
proof -
  note en = walk_at_entry[OF assms(1-3)]
  have wa: "resolve True w root = Inr l" "dir = path_at root r" "resolve True w dir = Inr (l @ r)"
    "tget (fs w) (l @ r) = Some (Dir es)"
    using assms(1) unfolding walk_at_def by blast+
  have "resolve True w (path_join dir (fst e)) = Inr ((l @ r) @ [fst e])"
    by (rule resolve_name[OF wa(3,4) en(1)]) (use en(2) assms(4) in auto)
  with assms(5) wa(1,2) show ?thesis by (intro exI[of _ l] exI[of _ "r @ [fst e]"]) simp
qed

lemma walk_search_step:
  "walk_search E n sid dir sub sfxs s = Some t \<Longrightarrow> names_ok (fs w) \<Longrightarrow> same_disk w (jw s) \<Longrightarrow>
   (\<And>k. resolve True w dir = Inr k \<Longrightarrow> \<exists>l r. resolve True w root = Inr l \<and> dir = path_at root r \<and> k = l @ r) \<Longrightarrow>
   search_step E sub sfxs root w sid s t"
  "search_entries E n sid dir sub sfxs es s = Some t \<Longrightarrow> names_ok (fs w) \<Longrightarrow> same_disk w (jw s) \<Longrightarrow>
   walk_at w root dir l r ds \<Longrightarrow> set es \<subseteq> set ds \<Longrightarrow> search_step E sub sfxs root w sid s t"
proof (induction E n sid dir sub sfxs s and E n sid dir sub sfxs es s arbitrary: t and t l r ds
    rule: walk_search_search_entries.induct)
  case (1 E sid dir sub sfxs s)
  then show ?case by simp
next
  case (2 E n sid dir sub sfxs s)
  show ?case
  proof (cases "search_full sid s")
    case True
    with "2.prems" show ?thesis by simp
  next
    case False
    obtain x s1 where q: "on_world (read_dir dir) s = (x, s1)" by fastforce
    obtain x' v where rd: "read_dir dir (jw s) = (x', v)" by fastforce
    have st: "search_step E sub sfxs root w sid s s1"
      by (rule query_step[OF q]) (use rd read_dir_answer(1)[OF rd] in simp)
    show ?thesis
    proof (cases x)
      case (Inl e)
      with "2.prems"(1) False q st show ?thesis by simp
    next
      case (Inr es)
      with q rd have "node_at True (jw s) dir = Inr (Dir es)"
        using read_dir_answer(2)[OF rd] by (simp add: on_world_def)
      then obtain k where k: "resolve True w dir = Inr k" "tget (fs w) k = Some (Dir es)"
        using same_disk_node[OF "2.prems"(3)] by (auto simp: node_at_def split: sum.splits option.splits)
      then obtain l r where "walk_at w root dir l r es" using "2.prems"(4) by (force simp: walk_at_def)
      moreover have "search_entries E n sid dir sub sfxs es s1 = Some t"
        using "2.prems"(1) False q Inr by simp
      ultimately have "search_step E sub sfxs root w sid s1 t"
        using "2.IH"[OF False q[symmetric] Inr] "2.prems"(2) step_disk[OF st "2.prems"(3)] by blast
      with st show ?thesis by (rule search_step_trans)
    qed
  qed
next
  case (3 E n sid dir sub sfxs s)
  then show ?case by simp
next
  case (4 E n sid dir sub sfxs e es s)
  obtain x s1 where q: "on_world (next_entry e) s = (x, s1)" by fastforce
  obtain x' v where ne: "next_entry e (jw s) = (x', v)" by fastforce
  have st: "search_step E sub sfxs root w sid s s1"
    by (rule query_step[OF q]) (use ne next_answer(1)[OF ne] in simp)
  show ?case
  proof (cases x)
    case (Inl y)
    with "4.prems"(1) q st show ?thesis by simp
  next
    case (Inr e1)
    have e1: "e1 = e" using Inr q ne next_answer(2)[OF ne] by (simp add: on_world_def)
    have e: "e \<in> set ds" "set es \<subseteq> set ds" using "4.prems"(5) by auto
    obtain b s2 where v: "visit E sid dir sub sfxs (fst e1) s1 = (b, s2)" by fastforce
    have st2: "search_step E sub sfxs root w sid s s2"
      using search_step_trans[OF st visit_step[OF v[unfolded e1] "4.prems"(4,2) e(1) step_disk[OF st "4.prems"(3)]]] .
    note d2 = step_disk[OF st2 "4.prems"(3)]
    show ?thesis
    proof (cases b)
      case True
      with "4.prems"(1) q Inr v st2 show ?thesis by simp
    next
      case nb: False
      show ?thesis
      proof (cases "is_dirn (Some (snd e1))")
        case False
        with "4.prems"(1) q Inr v nb have "search_entries E n sid dir sub sfxs es s2 = Some t" by simp
        from search_step_trans[OF st2 "4.IH"(3)[OF q[symmetric] Inr v[symmetric] _ False this "4.prems"(2) d2 "4.prems"(4) e(2)]] nb
        show ?thesis by simp
      next
        case True
        let ?s2 = "search_update sid (\<lambda>r. r\<lparr>s_done_dirs := s_done_dirs r + 1\<rparr>) s2"
        obtain s3 where ws: "walk_search E n sid (path_join dir (fst e1)) sub sfxs ?s2 = Some s3"
          and rest: "search_entries E n sid dir sub sfxs es s3 = Some t"
          using "4.prems"(1) q Inr v nb True by (auto split: option.splits)
        have t2: "search_step E sub sfxs root w sid s ?s2"
          using search_step_trans[OF st2 update_step] by simp
        have "\<exists>l r. resolve True w root = Inr l \<and> path_join dir (fst e1) = path_at root r \<and> k = l @ r"
          if "resolve True w (path_join dir (fst e1)) = Inr k" for k
          using subdir_at[OF "4.prems"(4,2) e(1)] that True by (simp add: e1)
        then have t3: "search_step E sub sfxs root w sid ?s2 s3"
          using "4.IH"(1)[OF q[symmetric] Inr v[symmetric] _ True ws "4.prems"(2) step_disk[OF t2 "4.prems"(3)]] nb
          by blast
        note s3 = search_step_trans[OF t2 t3]
        have "search_step E sub sfxs root w sid s3 t"
          using "4.IH"(2)[OF q[symmetric] Inr v[symmetric] _ True ws rest "4.prems"(2)
              step_disk[OF s3 "4.prems"(3)] "4.prems"(4) e(2)] nb by simp
        with s3 show ?thesis by (rule search_step_trans)
      qed
    qed
  qed
qed

text \<open>C34 Whatever faults occur, a finished search holds at most 1000 matches, sorted by their paths; each is the
  record of an entry that is in the tree below the root, whose name passes the query's filter, with
  the name, the path, the kind and the size of that entry itself (kind and size are left at their
  defaults only if faults occur); the file system, the jobs and the other searches are untouched.
  Assumed is a file system whose directories have distinct, plain names.\<close>

theorem search_sound:
  assumes "run_search E depth sid root q s = Some t" and "map_of (searches s) sid = Some (new_search root' q')"
    and "names_ok (fs (jw s))"
  shows "\<exists>res. map_of (searches t) sid = Some res \<and> s_status res = ''done'' \<and> length (s_matches res) \<le> 1000 \<and>
      sorted (map match_path (s_matches res)) \<and>
      (\<forall>m \<in> set (s_matches res). \<exists>l r name n.
         resolve True (jw s) root = Inr l \<and> tget (fs (jw s)) (l @ r @ [name]) = Some n \<and>
         name_matches E (fst (parse_search_query E q)) (snd (parse_search_query E q)) name \<and>
         (m = match_json name (path_at root (r @ [name])) (Some n) \<or>
          faults (jw s) \<noteq> [] \<and> m = match_json name (path_at root (r @ [name])) None)) \<and>
      fs (jw t) = fs (jw s) \<and> jobs t = jobs s \<and> (\<forall>i. i \<noteq> sid \<longrightarrow> map_of (searches t) i = map_of (searches s) i)"
proof -
  obtain sub sfxs where p: "parse_search_query E q = (sub, sfxs)" by fastforce
  let ?fin = "\<lambda>r. r\<lparr>s_matches := sort_key match_path (s_matches r), s_status := ''done''\<rparr>"
  obtain u where w: "walk_search E depth sid root sub sfxs s = Some u" and t: "t = search_update sid ?fin u"
    using assms(1) p by (auto simp: run_search_def)
  have "\<exists>l r. resolve True (jw s) root = Inr l \<and> root = path_at root r \<and> k = l @ r"
    if "resolve True (jw s) root = Inr k" for k
    using that by (intro exI[of _ k] exI[of _ "[]"]) simp
  then have st: "search_step E sub sfxs root (jw s) sid s u"
    using walk_search_step(1)[OF w assms(3) same_disk_refl] by blast
  have "search_ok E sub sfxs root (jw s) sid s"
    using assms(2) by (simp add: search_ok_def new_search_def)
  then obtain r where r: "map_of (searches u) sid = Some r" "length (s_matches r) \<le> max_results"
    "\<forall>m \<in> set (s_matches r). good_match E sub sfxs root (jw s) m"
    using st by (auto simp: search_step_def search_ok_def)
  have f: "map_of (searches t) sid = Some (?fin r)"
    using r(1) t by (simp add: search_update_def map_of_reg_update)
  have o: "fs (jw t) = fs (jw s)" "jobs t = jobs s" "\<forall>i. i \<noteq> sid \<longrightarrow> map_of (searches t) i = map_of (searches s) i"
    using st t by (simp_all add: search_step_def same_disk_def search_update_def map_of_reg_update)
  show ?thesis
    using f o r(2,3) by (intro exI[of _ "?fin r"]) (simp add: p max_results_def good_match_def)
qed

text \<open>A search of the sample tree.\<close>

definition sample_search :: search_state where
  "sample_search = \<lparr>jw = sample_world, jobs = [], searches = [(1, new_search ''/src'' ''*.txt'')]\<rparr>"

lemma sample_search_ends: "run_search sample_env 4 1 ''/src'' ''*.txt'' sample_search \<noteq> None"
  by code_simp

lemma search_sound_witness:
  "\<exists>t r. run_search sample_env 4 1 ''/src'' ''*.txt'' sample_search = Some t \<and>
     map_of (searches t) 1 = Some r \<and> s_status r = ''done'' \<and> length (s_matches r) \<le> 1000"
proof -
  obtain t where t: "run_search sample_env 4 1 ''/src'' ''*.txt'' sample_search = Some t"
    using sample_search_ends by auto
  have m: "map_of (searches sample_search) 1 = Some (new_search ''/src'' ''*.txt'')" by (simp add: sample_search_def)
  have "names_ok (fs (jw sample_search))" by code_simp
  from search_sound[OF t m this] t show ?thesis by blast
qed

section \<open>Completeness, without faults\<close>

text \<open>The matches below a directory, in the order of the walk.\<close>

fun matches_in :: "mover_env \<Rightarrow> string \<Rightarrow> string list \<Rightarrow> path \<Rightarrow> node \<Rightarrow> json list" where
  "matches_in E sub sfxs d (Dir es) = concat (map (\<lambda>e.
     (if name_matches E sub sfxs (fst e) then [match_json (fst e) (path_join d (fst e)) (Some (snd e))] else []) @
     matches_in E sub sfxs (path_join d (fst e)) (snd e)) es)"
| "matches_in E sub sfxs d n = []"

text \<open>The state after matches have been pushed: nothing else has changed but the count of directories.\<close>

definition pushed :: "u64 \<Rightarrow> json list \<Rightarrow> 'a search_state_scheme \<Rightarrow> 'a search_state_scheme \<Rightarrow> bool" where
  "pushed sid ms s t \<longleftrightarrow>
     (\<exists>k. t = search_update sid (\<lambda>r. r\<lparr>s_matches := s_matches r @ ms, s_done_dirs := s_done_dirs r + k\<rparr>) s)"

text \<open>Room for \<open>n\<close> more matches.\<close>

definition room :: "u64 \<Rightarrow> nat \<Rightarrow> 'a search_state_scheme \<Rightarrow> bool" where
  "room sid n s \<longleftrightarrow> faults (jw s) = [] \<and>
     (\<exists>r. map_of (searches s) sid = Some r \<and> \<not> s_truncated r \<and> length (s_matches r) + n \<le> max_results)"

lemma pushed_fields:
  assumes "pushed sid ms s t"
  shows "jw t = jw s" and "jobs t = jobs s" and "room sid (length ms + n) s \<Longrightarrow> room sid n t"
  using assms by (auto simp: pushed_def search_update_def room_def map_of_reg_update)

lemma pushed_trans: "pushed sid ms s t \<Longrightarrow> pushed sid ns t u \<Longrightarrow> pushed sid (ms @ ns) s u"
  unfolding pushed_def search_update_def
  by (auto simp: reg_update_twice add.assoc)

lemma reg_update_id: "(\<And>v. f v = v) \<Longrightarrow> reg_update k f m = m"
  unfolding reg_update_def by (rule map_idI) (simp split: prod.splits)

lemma pushed_Nil [simp]: "pushed sid [] s s"
proof -
  have "reg_update sid (\<lambda>r. r\<lparr>s_matches := s_matches r @ [], s_done_dirs := s_done_dirs r + 0\<rparr>) (searches s) = searches s"
    by (rule reg_update_id) simp
  then have "search_update sid (\<lambda>r. r\<lparr>s_matches := s_matches r @ [], s_done_dirs := s_done_dirs r + 0\<rparr>) s = s"
    by (simp add: search_update_def)
  then show ?thesis unfolding pushed_def by (intro exI[of _ 0]) (rule sym)
qed

lemma pushed_dir: "pushed sid [] s (search_update sid (\<lambda>r. r\<lparr>s_done_dirs := s_done_dirs r + 1\<rparr>) s)"
  unfolding pushed_def by (intro exI[of _ 1]) simp

lemma room_less: "room sid n s \<Longrightarrow> m \<le> n \<Longrightarrow> room sid m s"
  by (auto simp: room_def)

lemma room_full: "search_full sid s \<Longrightarrow> room sid n s \<Longrightarrow> n = 0"
  by (auto simp: search_full_def room_def)

lemma push_room:
  assumes "room sid (Suc n) s"
  shows "\<exists>t. push_match sid m s = (False, t) \<and> pushed sid [m] s t"
proof -
  obtain r where r: "map_of (searches s) sid = Some r" "length (s_matches r) + Suc n \<le> max_results"
    using assms by (auto simp: room_def)
  have "pushed sid [m] s (search_update sid (\<lambda>r. r\<lparr>s_matches := s_matches r @ [m]\<rparr>) s)"
    unfolding pushed_def by (intro exI[of _ 0]) simp
  with r show ?thesis by (simp add: push_match_def)
qed

lemma on_world_quiet: "f (jw s) = (r, jw s) \<Longrightarrow> on_world f s = (r, s)"
  by (simp add: on_world_simps)

lemma visit_room:
  assumes "faults (jw s) = []" and "node_at False (jw s) (path_join d n) = Inr x"
    and "room sid (length (if name_matches E sub sfxs n then [match_json n (path_join d n) (Some x)] else []) + k) s"
  shows "\<exists>t. visit E sid d sub sfxs n s = (False, t) \<and>
    pushed sid (if name_matches E sub sfxs n then [match_json n (path_join d n) (Some x)] else []) s t"
proof (cases "name_matches E sub sfxs n")
  case True
  have "on_world (symlink_metadata (path_join d n)) s = (Inr x, s)"
    using assms(1,2) by (intro on_world_quiet) (simp add: quiet_queries)
  then show ?thesis using True push_room[of sid k s] assms(3) by (auto simp: visit_def Let_def)
qed (simp add: visit_def)

lemma walk_search_finds:
  fixes s :: "'a search_state_scheme"
  assumes "resolve True (jw s) dir = Inr l" and "tget (fs (jw s)) l = Some (Dir es)" and "plain_tree (Dir es)"
    and "tree_height (Dir es) \<le> depth" and "room sid (length (matches_in E sub sfxs dir (Dir es))) s"
  shows "\<exists>t. walk_search E depth sid dir sub sfxs s = Some t \<and> pushed sid (matches_in E sub sfxs dir (Dir es)) s t"
proof -
  have "\<exists>t. walk_search E depth sid dir sub sfxs s = Some t \<and> pushed sid (matches_in E sub sfxs dir n) s t"
    if "resolve True (jw s) dir = Inr l" "tget (fs (jw s)) l = Some n" "plain_tree n" "is_dirn (Some n)"
      "tree_height n \<le> depth" "room sid (length (matches_in E sub sfxs dir n)) s"
    for n dir l depth and s :: "'a search_state_scheme"
    using that
  proof (induction n arbitrary: dir l depth s)
    case (Dir es)
    obtain k where k: "depth = Suc k" using Dir.prems(5) by (cases depth) auto
    have q: "faults (jw s) = []" using Dir.prems(6) by (simp add: room_def)
    let ?item = "\<lambda>e. (if name_matches E sub sfxs (fst e) then [match_json (fst e) (path_join dir (fst e)) (Some (snd e))] else []) @
      matches_in E sub sfxs (path_join dir (fst e)) (snd e)"
    have ents: "\<exists>t. search_entries E k sid dir sub sfxs xs u = Some t \<and> pushed sid (concat (map ?item xs)) u t"
      if "set xs \<subseteq> set es" "jw u = jw s" "room sid (length (concat (map ?item xs))) u"
      for xs and u :: "'a search_state_scheme"
      using that
    proof (induction xs arbitrary: u)
      case Nil
      then show ?case by simp
    next
      case (Cons e xs)
      then have e: "e \<in> set es" by simp
      have p: "plain_name (fst e)" "plain_tree (snd e)" "distinct (map fst es)" using Dir.prems(3) e by auto
      have g: "tget (fs (jw s)) (l @ [fst e]) = Some (snd e)" using child_node[OF Dir.prems(2) p(3) e] .
      have nl: "tget (fs (jw s)) (l @ [fst e]) \<noteq> Some (Symlink x)" for x using g p(2) by auto
      have r: "resolve f (jw s) (path_join dir (fst e)) = Inr (l @ [fst e])" for f
        using resolve_name[OF Dir.prems(1,2) p(1)] nl by blast
      have ne: "on_world (next_entry e) u = (Inr e, u)"
        using q Cons.prems(2) by (intro on_world_quiet) (simp add: quiet_queries)
      let ?m = "if name_matches E sub sfxs (fst e) then [match_json (fst e) (path_join dir (fst e)) (Some (snd e))] else []"
      let ?sub = "matches_in E sub sfxs (path_join dir (fst e)) (snd e)"
      let ?rest = "concat (map ?item xs)"
      have rm: "room sid (length ?m + (length ?sub + length ?rest)) u"
        using Cons.prems(3) by (simp add: add.assoc split del: if_split)
      have na: "node_at False (jw u) (path_join dir (fst e)) = Inr (snd e)"
        using r g Cons.prems(2) by (simp add: node_at_def)
      obtain v where v: "visit E sid dir sub sfxs (fst e) u = (False, v)" "pushed sid ?m u v"
        using visit_room[OF _ na rm] q Cons.prems(2) by auto
      have rv: "room sid (length ?sub + length ?rest) v" by (rule pushed_fields(3)[OF v(2) rm])
      have wv: "jw v = jw s" using pushed_fields(1)[OF v(2)] Cons.prems(2) by simp
      show ?case
      proof (cases "is_dirn (Some (snd e))")
        case False
        then have ns: "?sub = []" using p(2) by (cases "snd e") auto
        obtain t where t: "search_entries E k sid dir sub sfxs xs v = Some t" "pushed sid ?rest v t"
          using Cons.IH[of v] Cons.prems(1) wv rv ns by auto
        have "pushed sid (?m @ ?rest) u t" by (rule pushed_trans[OF v(2) t(2)])
        then show ?thesis using ne v(1) t(1) False ns by simp
      next
        case True
        let ?v = "search_update sid (\<lambda>r. r\<lparr>s_done_dirs := s_done_dirs r + 1\<rparr>) v"
        have pd: "pushed sid [] v ?v" by (rule pushed_dir)
        have rd: "room sid (length ?sub + length ?rest) ?v" using pushed_fields(3)[OF pd] rv by simp
        have h: "tree_height (snd e) \<le> k" using child_height[OF e, of "Suc k"] Dir.prems(5) k by (simp add: less_Suc_eq_le)
        have wd: "jw ?v = jw s" using pushed_fields(1)[OF pd] wv by simp
        obtain t1 where t1: "walk_search E k sid (path_join dir (fst e)) sub sfxs ?v = Some t1" "pushed sid ?sub ?v t1"
          using Dir.IH[OF e snd_in_snds, of ?v "path_join dir (fst e)" "l @ [fst e]" k] r g p(2) True wd h
            room_less[OF rd] by auto
        have r1: "room sid (length ?rest) t1" by (rule pushed_fields(3)[OF t1(2) rd])
        obtain t where t: "search_entries E k sid dir sub sfxs xs t1 = Some t" "pushed sid ?rest t1 t"
          using Cons.IH[of t1] Cons.prems(1) pushed_fields(1)[OF t1(2)] wd r1 by auto
        have "pushed sid (?m @ [] @ ?sub @ ?rest) u t"
          by (rule pushed_trans[OF v(2) pushed_trans[OF pd pushed_trans[OF t1(2) t(2)]]])
        then show ?thesis using ne v(1) t1(1) t(1) True by simp
      qed
    qed
    show ?case
    proof (cases "search_full sid s")
      case True
      have "length (matches_in E sub sfxs dir (Dir es)) = 0"
        using room_full[OF True Dir.prems(6)] .
      then have none: "matches_in E sub sfxs dir (Dir es) = []" by (simp only: length_0_conv)
      have "walk_search E depth sid dir sub sfxs s = Some s" using True k by simp
      then show ?thesis unfolding none using pushed_Nil by blast
    next
      case False
      have rd: "on_world (read_dir dir) s = (Inr es, s)"
        using read_dir_quiet[OF q Dir.prems(1,2)] by (intro on_world_quiet) simp
      obtain t where "search_entries E k sid dir sub sfxs es s = Some t" "pushed sid (concat (map ?item es)) s t"
        using ents[of es s] Dir.prems(6) by auto
      then show ?thesis using False rd k by auto
    qed
  qed simp_all
  from this[of s dir l "Dir es" depth] assms show ?thesis by simp
qed

text \<open>C35 A search misses nothing: without faults, on a tree without links that holds at most 1000 matches, it
  ends with exactly the records of all entries whose name passes the filter, each once, sorted by
  path, and not marked as truncated.\<close>

theorem search_complete:
  assumes "faults (jw s) = []" and "resolve True (jw s) root = Inr l" and "tget (fs (jw s)) l = Some n"
    and "plain_tree n" and "is_dirn (Some n)" and "tree_height n \<le> depth"
    and "map_of (searches s) sid = Some (new_search root' q')" and "parse_search_query E q = (sub, sfxs)"
    and "length (matches_in E sub sfxs root n) \<le> 1000"
  shows "\<exists>t r. run_search E depth sid root q s = Some t \<and> map_of (searches t) sid = Some r \<and>
    s_matches r = sort_key match_path (matches_in E sub sfxs root n) \<and> \<not> s_truncated r \<and> s_status r = ''done''"
proof -
  obtain es where n: "n = Dir es" using assms(5) by (auto simp: is_dirn_iff)
  have "room sid (length (matches_in E sub sfxs root (Dir es))) s"
    using assms(1,7,9) n by (simp add: room_def new_search_def max_results_def)
  then obtain u where u: "walk_search E depth sid root sub sfxs s = Some u" "pushed sid (matches_in E sub sfxs root n) s u"
    using walk_search_finds[OF assms(2), of es depth] assms(3,4,6) n by blast
  then obtain k where "map_of (searches u) sid =
      Some ((new_search root' q')\<lparr>s_matches := matches_in E sub sfxs root n, s_done_dirs := k\<rparr>)"
    using assms(7) by (auto simp: pushed_def search_update_def map_of_reg_update new_search_def)
  then show ?thesis
    using u(1) assms(8) by (simp add: run_search_def search_update_def map_of_reg_update new_search_def)
qed

lemma search_complete_witness:
  "\<exists>t r. run_search sample_env 4 1 ''/src'' ''*.txt'' sample_search = Some t \<and> map_of (searches t) 1 = Some r \<and>
     s_matches r = [match_json ''a.txt'' ''/src/a.txt'' (Some (plain_file [1, 2, 3])),
       match_json ''b.txt'' ''/src/sub/b.txt'' (Some (plain_file [4]))]"
proof -
  define n where "n = Dir [(''a.txt'', plain_file [1, 2, 3]), (''sub'', Dir [(''b.txt'', plain_file [4])])]"
  have q: "faults (jw sample_search) = []" by (simp add: sample_search_def sample_world_def)
  have r: "resolve True (jw sample_search) ''/src'' = Inr [''src'']" by code_simp
  have g: "tget (fs (jw sample_search)) [''src''] = Some n"
    by (simp add: sample_search_def sample_world_def sample_tree_def n_def)
  have p: "plain_tree n" "is_dirn (Some n)" "tree_height n \<le> 4"
    by (simp_all add: n_def plain_file_def plain_name_def)
  have m: "map_of (searches sample_search) 1 = Some (new_search ''/src'' ''*.txt'')" by (simp add: sample_search_def)
  have y: "parse_search_query sample_env ''*.txt'' = ([], [''.txt''])" by code_simp
  define ms where "ms = [match_json ''a.txt'' ''/src/a.txt'' (Some (plain_file [1, 2, 3])),
       match_json ''b.txt'' ''/src/sub/b.txt'' (Some (plain_file [4]))]"
  have ms: "matches_in sample_env [] [''.txt''] ''/src'' n = ms" "sort_key match_path ms = ms"
    unfolding n_def ms_def by code_simp+
  have "length (matches_in sample_env [] [''.txt''] ''/src'' n) \<le> 1000" by (simp add: ms(1), simp add: ms_def)
  from search_complete[OF q r g p m y this] ms show ?thesis unfolding ms_def by simp blast
qed

end
