(* ===== verification/Mover_Tasks.thy ===== *)
theory Mover_Tasks
  imports Mover_Handlers
begin

text \<open>
  The closures that the handlers of \<open>src/bin/file-mover.rs\<close> hand to the blocking pool: which
  function a task runs, and on what.  The tasks a handler has started are listed in the daemon's
  state (\<open>tasks\<close>); \<open>run_task\<close> is the work of one of them.
\<close>

text \<open>A job works on the file system and the registry of jobs; the rest of the daemon's state stays.\<close>

definition with_jobs :: "mover \<Rightarrow> job_state \<Rightarrow> mover" where
  "with_jobs s t = s\<lparr>jw := jw t, jobs := jobs t\<rparr>"

fun run_task :: "daemon \<Rightarrow> nat \<Rightarrow> nat option \<Rightarrow> nat list \<Rightarrow> task \<Rightarrow> mover \<Rightarrow> mover option" where
  "run_task D depth cpus sched (CopyTask jid opn src dst) s =
     map_option (with_jobs s) (run_job (d_env D) depth cpus sched jid opn src dst (job_state.truncate s))"
| "run_task D depth cpus sched (DeleteTask jid p) s =
     map_option (with_jobs s) (run_delete_job (d_env D) depth cpus sched jid p (job_state.truncate s))"
| "run_task D depth cpus sched (SearchTask sid p q) s = run_search (d_env D) depth sid p q s"

text \<open>A job in the registry is in the answer of \<open>GET /api/status\<close>.\<close>

lemma status_lists:
  assumes "map_of (jobs u) k = Some j"
  shows "\<exists>js. handle_status D u = json_resp D 200 (JObject [(''jobs'', JArray js)]) \<and> job_json (k, j) \<in> set js"
  using map_of_SomeD[OF assms] by (auto simp: handle_status_def)

end
