(* ===== verification/Job_Records.thy ===== *)
theory Job_Records
  imports Job_Laws
begin

text \<open>
  The type of a job's record, as \<open>GET /api/status\<close> shows it: one of four states, one of three
  operations, at most six current paths, and never more done than there is to do.  Every job keeps
  it for its own record and leaves all other records alone, under every fault and every schedule.
\<close>

section \<open>Well-formed records\<close>

definition known_status :: "string \<Rightarrow> bool" where
  "known_status x \<longleftrightarrow> x = ''queued'' \<or> x = ''running'' \<or> x = ''done'' \<or> x = ''error''"

definition known_op :: "string \<Rightarrow> bool" where
  "known_op x \<longleftrightarrow> x = ''move'' \<or> x = ''copy'' \<or> x = ''delete''"

definition record_ok :: "job \<Rightarrow> bool" where
  "record_ok j \<longleftrightarrow> known_op (j_op j) \<and> known_status (status j) \<and> length (current j) \<le> 6 \<and>
     done_files j \<le> total_files j \<and> done_dirs j \<le> total_dirs j"

text \<open>While a job runs: its totals, and bounds of what it has counted so far.\<close>

definition counted :: "u64 \<Rightarrow> u64 \<Rightarrow> nat \<Rightarrow> nat \<Rightarrow> job \<Rightarrow> bool" where
  "counted tf td a b j \<longleftrightarrow> known_op (j_op j) \<and> known_status (status j) \<and> length (current j) \<le> 6 \<and>
     total_files j = tf \<and> total_dirs j = td \<and> unat (done_files j) \<le> a \<and> unat (done_dirs j) \<le> b"

lemma counted_record:
  assumes "counted (of_nat a) (of_nat b) a b j" and "a < 2 ^ 64" and "b < 2 ^ 64"
  shows "record_ok j"
  using assms by (simp add: counted_def record_ok_def word_le_nat_alt unsigned_of_nat take_bit_nat_eq_self)

lemma unat_inc_le: "unat (x + 1) \<le> unat x + 1" for x :: u64
  by (cases "x + 1 = 0") (simp_all add: unatSuc add.commute[of x])

lemma unat_inc_bound: "unat x \<le> a \<Longrightarrow> unat (x + 1) \<le> Suc a" for x :: u64
  using unat_inc_le[of x] by simp

text \<open>The changes a worker makes.\<close>

lemma counted_changes:
  assumes "counted tf td a b j"
  shows "counted tf td a b (note_current p j)" and "counted tf td a b (note_error e j)"
    and "counted tf td (Suc a) b (j\<lparr>done_files := done_files j + 1\<rparr>)"
    and "counted tf td (Suc a) b (j\<lparr>done_files := done_files j + 1, done_bytes := n\<rparr>)"
    and "counted tf td a (Suc b) (j\<lparr>done_dirs := done_dirs j + 1\<rparr>)"
    and "counted tf td a (Suc b) (note_current p (j\<lparr>done_dirs := done_dirs j + 1\<rparr>))"
    and "known_status x \<Longrightarrow> counted tf td a b (j\<lparr>status := x\<rparr>)"
  using assms unat_inc_bound[of "done_files j" a] unat_inc_bound[of "done_dirs j" b]
  by (simp_all add: counted_def note_current_def note_error_def Let_def)

lemma counted_mono: "counted tf td a b j \<Longrightarrow> a \<le> a' \<Longrightarrow> b \<le> b' \<Longrightarrow> counted tf td a' b' j"
  by (simp add: counted_def)

section \<open>One record among the others\<close>

definition own_record :: "u64 \<Rightarrow> (u64 \<times> job) list \<Rightarrow> (job \<Rightarrow> bool) \<Rightarrow> (u64 \<times> job) list \<Rightarrow> bool" where
  "own_record jid m0 P m \<longleftrightarrow>
     (\<exists>j. map_of m jid = Some j \<and> P j) \<and> (\<forall>k. k \<noteq> jid \<longrightarrow> map_of m k = map_of m0 k)"

lemma own_update:
  assumes "own_record jid m0 P m" and "\<And>j. P j \<Longrightarrow> Q (f j)"
  shows "own_record jid m0 Q (reg_update jid f m)"
  using assms by (auto simp: own_record_def map_of_reg_update)

lemmas own_noted = own_update[where P = "counted tf td a b" and Q = "counted tf td a b" and f = "note_current p",
    OF _ counted_changes(1)] for tf td a b p

lemmas own_failed = own_update[where P = "counted tf td a b" and Q = "counted tf td a b" and f = "note_error e",
    OF _ counted_changes(2)] for tf td a b e

lemma own_weaken: "own_record jid m0 P m \<Longrightarrow> (\<And>j. P j \<Longrightarrow> Q j) \<Longrightarrow> own_record jid m0 Q m"
  by (auto simp: own_record_def)

lemma on_world_keeps_jobs: "on_world f s = (r, t) \<Longrightarrow> jobs t = jobs s"
  by (auto simp: on_world_def split: prod.splits)

section \<open>The workers\<close>

lemma start_copy_jobs: "start_copy E sz p q s = (ph, t) \<Longrightarrow> jobs t = jobs s"
  by (auto simp: start_copy_def dest!: on_world_keeps_jobs split: prod.splits sum.splits)

lemma transfer_step_record:
  assumes "transfer_step E t i ph s = (r, u)"
    and "own_record (t_id t) m0 (counted tf td a b) (jobs s)"
  shows "own_record (t_id t) m0 (counted tf td (case r of None \<Rightarrow> Suc a | Some x \<Rightarrow> a) b) (jobs u)"
proof -
  have keep: ?thesis if "jobs u = jobs s" "r = Some x" for x
    using assms(2) that by simp
  show ?thesis
  proof (cases ph)
    case (Noting sz)
    then show ?thesis using assms own_noted[OF assms(2)]
      by (auto simp: transfer_step_def Let_def)
  next
    case (Failing sz e)
    then show ?thesis using assms own_failed[OF assms(2)]
      by (auto simp: transfer_step_def Let_def)
  next
    case (Counting sz ok)
    then have "r = None" "jobs u = reg_update (t_id t) (\<lambda>j. j\<lparr>done_files := done_files j + 1,
        done_bytes := (if ok then done_bytes j + sz else done_bytes j)\<rparr>) (jobs s)"
      using assms(1) by (auto simp: transfer_step_def Let_def)
    then show ?thesis using own_update[OF assms(2)] counted_changes(4) by simp
  qed (use assms(1) keep in \<open>auto simp: transfer_step_def Let_def dest!: on_world_keeps_jobs start_copy_jobs
      split: prod.splits sum.splits option.splits if_splits\<close>)
qed

lemma delete_step_record:
  assumes "delete_step E jid ps i ph s = (r, u)" and "own_record jid m0 (counted tf td a b) (jobs s)"
  shows "own_record jid m0 (counted tf td (case r of None \<Rightarrow> Suc a | Some x \<Rightarrow> a) b) (jobs u)"
proof (cases ph)
  case DNote
  then show ?thesis using assms(1) own_noted[OF assms(2)]
    by (auto simp: delete_step_def Let_def)
next
  case DRemove
  obtain x s1 where o: "on_world (remove_file (ps ! i)) s = (x, s1)" by fastforce
  note m = on_world_keeps_jobs[OF o]
  show ?thesis
  proof (cases x)
    case (Inl e)
    with assms(1) DRemove o m have "r = None"
      "jobs u = reg_update jid (note_error (ps ! i @ '': '' @ io_text E e)) (jobs s)"
      by (auto simp: delete_step_def Let_def)
    then show ?thesis
      using own_weaken[OF own_failed[OF assms(2)] counted_mono[of tf td a b _ "Suc a" b]] by simp
  next
    case (Inr y)
    with assms(1) DRemove o m have "r = None"
      "jobs u = reg_update jid (\<lambda>j. j\<lparr>done_files := done_files j + 1\<rparr>) (jobs s)"
      by (auto simp: delete_step_def Let_def)
    then show ?thesis using own_update[OF assms(2)] counted_changes(3) by simp
  qed
qed

section \<open>At every moment of the pools\<close>

definition pool_record :: "u64 \<Rightarrow> (u64 \<times> job) list \<Rightarrow> u64 \<Rightarrow> u64 \<Rightarrow> nat \<Rightarrow> nat set \<Rightarrow> work \<Rightarrow> bool" where
  "pool_record jid m0 tf td b F s \<longleftrightarrow> finite F \<and> own_record jid m0 (counted tf td (card F) b) (jobs s)"

interpretation tr: work_pool Sizing "transfer_step E t" n "pool_record (t_id t) m0 tf td b"
  "\<lambda>i s. True" "\<lambda>i a s. True" "\<lambda>i s. True" for E t n m0 tf td b
proof (unfold_locales, goal_cases)
  case (2 F s i a x u)
  then show ?case using transfer_step_record[OF 2(5)] by (simp add: pool_record_def)
next
  case (3 F s i a u)
  then show ?case using transfer_step_record[OF 3(5)] by (simp add: pool_record_def)
qed simp_all

interpretation dr: work_pool DNote "delete_step E jid ps" n "pool_record jid m0 tf td b"
  "\<lambda>i s. True" "\<lambda>i a s. True" "\<lambda>i s. True" for E jid ps n m0 tf td b
proof (unfold_locales, goal_cases)
  case (2 F s i a x u)
  then show ?case using delete_step_record[OF 2(5)] by (simp add: pool_record_def)
next
  case (3 F s i a u)
  then show ?case using delete_step_record[OF 3(5)] by (simp add: pool_record_def)
qed simp_all

lemma finished_card: "card (finished n p) \<le> n"
  using card_mono[of "{..<n}" "finished n p"] by (auto simp: finished_def)

lemma pool_start_record:
  assumes "own_record jid m0 (counted tf td 0 b) (jobs s)"
  shows "pool_record jid m0 tf td b {} (job_state.extend s (work.fields 0))"
  using assms by (simp add: pool_record_def)

lemma pool_moment:
  assumes "pool_record jid m0 tf td b (finished n p) s"
  shows "own_record jid m0 (counted tf td n b) (jobs s)"
  using assms counted_mono[OF _ finished_card order.refl] own_weaken unfolding pool_record_def by blast

lemma transfer_moment:
  assumes "own_record (t_id t) m0 (counted tf td 0 b) (jobs s)"
    and "p = run_pool Sizing (transfer_step E t) n sched (new_pool m (job_state.extend s (work.fields 0)))"
  shows "own_record (t_id t) m0 (counted tf td n b) (jobs (p_state p))"
  using tr.goodD(2)[OF tr.run_good[OF tr.new_pool_good[OF pool_start_record[OF assms(1)]]]] assms(2)
  by (intro pool_moment) simp

lemma delete_moment:
  assumes "own_record jid m0 (counted tf td 0 b) (jobs s)"
    and "p = run_pool DNote (delete_step E jid ps) n sched (new_pool m (job_state.extend s (work.fields 0)))"
  shows "own_record jid m0 (counted tf td n b) (jobs (p_state p))"
  using dr.goodD(2)[OF dr.run_good[OF dr.new_pool_good[OF pool_start_record[OF assms(1)]]]] assms(2)
  by (intro pool_moment) simp

section \<open>The directories\<close>

lemma make_dirs_record:
  assumes "own_record jid m0 (counted tf td a b) (jobs s)"
  shows "own_record jid m0 (counted tf td a (b + length rels)) (jobs (make_dirs jid dst rels s))"
  using assms
proof (induction rels arbitrary: s b)
  case (Cons rel rels)
  obtain x s1 where o: "on_world (create_dir_all (target_path dst rel)) s = (x, s1)" by fastforce
  note m = on_world_keeps_jobs[OF o]
  show ?case
  proof (cases x)
    case (Inl e)
    have "own_record jid m0 (counted tf td a (Suc b)) (jobs s1)"
      using own_weaken[OF Cons.prems counted_mono[of tf td a b _ a "Suc b"]] m by simp
    then show ?thesis using Cons.IH[of "Suc b" s1] o Inl by (simp add: Let_def)
  next
    case (Inr u)
    let ?f = "\<lambda>j. note_current (target_path dst rel) (j\<lparr>done_dirs := done_dirs j + 1\<rparr>)"
    have "own_record jid m0 (counted tf td a (Suc b)) (jobs (job_update jid ?f s1))"
      using own_update[OF Cons.prems, of "counted tf td a (Suc b)" ?f] counted_changes(6) m by simp
    then show ?thesis using Cons.IH[of "Suc b" "job_update jid ?f s1"] o Inr by (simp add: Let_def)
  qed
qed simp

lemma remove_dirs_record:
  assumes "own_record jid m0 (counted tf td a b) (jobs s)" and "remove_dirs jid ds n s = (k, u)"
  shows "own_record jid m0 (counted tf td a (b + length ds)) (jobs u)"
  using assms
proof (induction ds arbitrary: s b n)
  case (Cons d ds)
  let ?s = "job_update jid (note_current d) s"
  obtain x s1 where o: "on_world (remove_dir d) ?s = (x, s1)" by fastforce
  have m: "own_record jid m0 (counted tf td a b) (jobs s1)"
    using on_world_keeps_jobs[OF o] own_noted[OF Cons.prems(1)] by simp
  show ?case
  proof (cases x)
    case (Inl e)
    have "own_record jid m0 (counted tf td a (Suc b)) (jobs s1)"
      using own_weaken[OF m counted_mono[of tf td a b _ a "Suc b"]] by simp
    then show ?thesis using Cons.IH[of "Suc b" s1 "n + 1"] Cons.prems(2) o Inl by simp
  next
    case (Inr y)
    let ?t = "job_update jid (\<lambda>j. j\<lparr>done_dirs := done_dirs j + 1\<rparr>) s1"
    have "own_record jid m0 (counted tf td a (Suc b)) (jobs ?t)"
      using own_update[OF m, of "counted tf td a (Suc b)" "\<lambda>j. j\<lparr>done_dirs := done_dirs j + 1\<rparr>"] counted_changes(5) by simp
    then show ?thesis using Cons.IH[of "Suc b" ?t n] Cons.prems(2) o Inr by simp
  qed
qed simp

section \<open>Whole jobs\<close>

lemma fast_move_jobs: "fast_move opn same src dst s = (b, t) \<Longrightarrow> jobs t = jobs s"
  by (auto simp: fast_move_def dest!: on_world_keeps_jobs split: prod.splits bool.splits if_splits)

text \<open>The record a job starts with, and what a failed plan makes of it.\<close>

definition started :: "u64 \<Rightarrow> (u64 \<times> job) list \<Rightarrow> bool" where
  "started jid m \<longleftrightarrow> (\<exists>j. map_of m jid = Some j \<and> record_ok j \<and> done_files j = 0 \<and> done_dirs j = 0)"

lemma started_own:
  "started jid m \<Longrightarrow> own_record jid m (\<lambda>j. record_ok j \<and> done_files j = 0 \<and> done_dirs j = 0) m"
  by (auto simp: started_def own_record_def)

text \<open>Setting the totals of the plan, then counting up to them.\<close>

lemma planned_own:
  assumes "started jid m"
  shows "own_record jid m (counted tf td 0 0)
    (reg_update jid (\<lambda>j. j\<lparr>total_files := tf, total_dirs := td, total_bytes := tb\<rparr>)
      (reg_update jid (\<lambda>j. j\<lparr>status := ''running''\<rparr>) m))"
  by (rule own_update[OF own_update[OF started_own[OF assms], where Q = "\<lambda>j. record_ok j \<and> done_files j = 0 \<and> done_dirs j = 0"]])
     (auto simp: record_ok_def counted_def known_status_def)

lemma failed_own:
  assumes "started jid m"
  shows "own_record jid m (\<lambda>j. record_ok j \<and> status j = ''error'')
    (reg_update jid (\<lambda>j. j\<lparr>status := ''error'', job_error := e\<rparr>) (reg_update jid (\<lambda>j. j\<lparr>status := ''running''\<rparr>) m))"
  by (rule own_update[OF own_update[OF started_own[OF assms], where Q = "\<lambda>j. record_ok j \<and> done_files j = 0 \<and> done_dirs j = 0"]])
     (auto simp: record_ok_def known_status_def)

abbreviation "ended j \<equiv> status j = ''done'' \<or> status j = ''error''"

lemma ending_own:
  assumes "own_record jid m0 (counted (of_nat a) (of_nat b) a b) m" and "a < 2 ^ 64" and "b < 2 ^ 64"
    and "x = ''done'' \<or> x = ''error''"
  shows "own_record jid m0 (\<lambda>j. record_ok j \<and> ended j) (reg_update jid (\<lambda>j. j\<lparr>status := x\<rparr>) m)"
proof (rule own_update[OF assms(1)])
  fix j
  assume j: "counted (of_nat a) (of_nat b) a b j"
  have "counted (of_nat a) (of_nat b) a b (j\<lparr>status := x\<rparr>)"
    using assms(4) by (intro counted_changes(7)[OF j]) (auto simp: known_status_def)
  then have "record_ok (j\<lparr>status := x\<rparr>)" using counted_record assms(2,3) by blast
  then show "record_ok (j\<lparr>status := x\<rparr>) \<and> ended (j\<lparr>status := x\<rparr>)" using assms(4) by simp
qed

lemma transfer_all_record:
  assumes "own_record (t_id t) m0 (counted (of_nat n) (of_nat b) 0 b) (jobs s)" and "n = length (t_files t)"
    and "n < 2 ^ 64" and "b < 2 ^ 64" and "transfer_all E cpus sched t src s = Some s'"
  shows "own_record (t_id t) m0 (\<lambda>j. record_ok j \<and> ended j) (jobs s')"
proof -
  define p where "p = run_pool Sizing (transfer_step E t) (length (t_files t)) sched
                (new_pool (nthreads cpus) (job_state.extend s (work.fields 0)))"
  have m: "own_record (t_id t) m0 (counted (of_nat n) (of_nat b) n b) (jobs (p_state p))"
    using transfer_moment[OF assms(1) p_def] assms(2) by simp
  have "jobs s' = reg_update (t_id t) (\<lambda>j. j\<lparr>status := ''done''\<rparr>) (jobs (p_state p))"
    using assms(5) unfolding transfer_all_def p_def[symmetric]
    by (auto simp: Let_def on_world_simps split: if_splits)
  then show ?thesis using ending_own[OF m assms(3,4)] by simp
qed

lemma run_job_record:
  assumes "started jid (jobs s)"
    and "\<And>acc w. walk_files depth src [] no_files (jw s) = Some (Inr (), acc, w) \<Longrightarrow>
      length (w_files acc) < 2 ^ 64 \<and> length (w_dirs acc) < 2 ^ 64"
    and "run_job E depth cpus sched jid opn src dst s = Some s'"
  shows "own_record jid (jobs s) (\<lambda>j. record_ok j \<and> ended j) (jobs s')"
proof -
  note rj = assms(3)[unfolded run_job_def Let_def]
  obtain x acc w where w: "walk_files depth src [] no_files (jw s) = Some (x, acc, w)"
    using rj by (cases "walk_files depth src [] no_files (jw s)") auto
  show ?thesis
  proof (cases x)
    case (Inl e)
    with rj w have "jobs s' = reg_update jid (\<lambda>j. j\<lparr>status := ''error'', job_error := Some (io_text E e)\<rparr>)
      (reg_update jid (\<lambda>j. j\<lparr>status := ''running''\<rparr>) (jobs s))" by (auto simp: job_update_def)
    then show ?thesis using own_weaken[OF failed_own[OF assms(1)]] by auto
  next
    case (Inr u)
    let ?n = "length (w_files acc)" and ?b = "length (w_dirs acc)"
    have small: "?n < 2 ^ 64" "?b < 2 ^ 64" using assms(2)[of acc w] w Inr by simp_all
    define s1 where "s1 = job_update jid (\<lambda>j. j\<lparr>total_files := of_nat ?n, total_dirs := of_nat ?b, total_bytes := w_bytes acc\<rparr>)
      ((job_update jid (\<lambda>j. j\<lparr>status := ''running''\<rparr>) s)\<lparr>jw := w\<rparr>)"
    define same where "same = (path_drive [fst (roots E), snd (roots E)] src = path_drive [fst (roots E), snd (roots E)] dst)"
    have o: "own_record jid (jobs s) (counted (of_nat ?n) (of_nat ?b) 0 0) (jobs s1)"
      using planned_own[OF assms(1)] by (simp add: s1_def job_update_def)
    obtain b s2 where fm: "fast_move opn same src dst s1 = (b, s2)" by fastforce
    have o2: "own_record jid (jobs s) (counted (of_nat ?n) (of_nat ?b) 0 0) (jobs s2)"
      using o fast_move_jobs[OF fm] by simp
    show ?thesis
    proof (cases b)
      case True
      let ?f = "\<lambda>j. j\<lparr>done_files := total_files j, done_dirs := total_dirs j, done_bytes := total_bytes j, status := ''done''\<rparr>"
      have "jobs s' = reg_update jid ?f (jobs s2)"
        using rj w Inr fm True by (simp add: s1_def same_def) auto
      then show ?thesis using own_update[OF o2, of "\<lambda>j. record_ok j \<and> ended j" ?f]
        by (simp add: counted_def record_ok_def known_status_def)
    next
      case False
      define t where "t = \<lparr>t_id = jid, t_op = opn, t_same_drive = same, t_files = w_files acc, t_dst = dst\<rparr>"
      have ta: "transfer_all E cpus sched t src (make_dirs jid dst (w_dirs acc) s2) = Some s'"
        using rj w Inr fm False by (simp add: s1_def same_def t_def)
      have t: "t_id t = jid" "?n = length (t_files t)" by (simp_all add: t_def)
      have "own_record jid (jobs s) (counted (of_nat ?n) (of_nat ?b) 0 ?b) (jobs (make_dirs jid dst (w_dirs acc) s2))"
        using make_dirs_record[OF o2] by simp
      then show ?thesis using transfer_all_record[OF _ t(2) small ta] t(1) by simp
    qed
  qed
qed

lemma delete_all_record:
  assumes "own_record jid m0 (counted (of_nat (length (d_files acc))) (of_nat (length (d_dirs acc))) 0 0) (jobs s)"
    and "length (d_files acc) < 2 ^ 64" and "length (d_dirs acc) < 2 ^ 64"
    and "delete_all E cpus sched jid acc s = Some s'"
  shows "own_record jid m0 (\<lambda>j. record_ok j \<and> ended j) (jobs s')"
proof -
  define p where "p = run_pool DNote (delete_step E jid (d_files acc)) (length (d_files acc)) sched
                (new_pool (nthreads cpus) (job_state.extend s (work.fields 0)))"
  obtain n s1 where rd: "remove_dirs jid (rev (d_dirs acc)) (failed (p_state p)) (job_state.truncate (p_state p)) = (n, s1)"
    by fastforce
  have m: "own_record jid m0 (counted (of_nat (length (d_files acc))) (of_nat (length (d_dirs acc)))
      (length (d_files acc)) (length (d_dirs acc))) (jobs s1)"
    using remove_dirs_record[OF _ rd, of m0 _ _ _ 0] delete_moment[OF assms(1) p_def] by simp
  have "jobs s' = reg_update jid (\<lambda>j. j\<lparr>status := (if n = 0 then ''done'' else ''error'')\<rparr>) (jobs s1)"
    using assms(4) rd unfolding delete_all_def p_def[symmetric] by (auto simp: Let_def split: if_splits)
  then show ?thesis using ending_own[OF m assms(2,3), of "if n = 0 then ''done'' else ''error''"] by simp
qed

lemma run_delete_record:
  assumes "started jid (jobs s)"
    and "\<And>acc w. walk_delete depth src no_paths (snd (path_is_symlink src (snd (path_is_file src (jw s))))) = Some (Inr (), acc, w) \<Longrightarrow>
      length (d_files acc) < 2 ^ 64 \<and> length (d_dirs acc) < 2 ^ 64"
    and "run_delete_job E depth cpus sched jid src s = Some s'"
  shows "own_record jid (jobs s) (\<lambda>j. record_ok j \<and> ended j) (jobs s')"
proof -
  let ?s = "job_update jid (\<lambda>j. j\<lparr>status := ''running''\<rparr>) s"
  note rd = assms(3)[unfolded run_delete_job_def Let_def]
  define query where "query = (case on_world (path_is_file src) ?s of
              (True, s1) \<Rightarrow> (True, s1) | (False, s1) \<Rightarrow> on_world (path_is_symlink src) s1)"
  obtain b s1 where q: "query = (b, s1)" by fastforce
  have j1: "jobs s1 = jobs ?s"
    using q by (auto simp: query_def dest!: on_world_keeps_jobs split: prod.splits bool.splits)
  show ?thesis
  proof (cases b)
    case True
    obtain x s2 where f: "on_world (remove_file src) s1 = (x, s2)" by fastforce
    note j2 = on_world_keeps_jobs[OF f]
    show ?thesis
    proof (cases x)
      case (Inl e)
      with rd q True f j1 j2 have "jobs s' = reg_update jid (\<lambda>j. j\<lparr>status := ''error'', job_error := Some (io_text E e)\<rparr>)
          (reg_update jid (\<lambda>j. j\<lparr>status := ''running''\<rparr>) (jobs s))" by (auto simp: query_def[symmetric])
      then show ?thesis using own_weaken[OF failed_own[OF assms(1)]] by auto
    next
      case (Inr u)
      let ?f = "\<lambda>j. j\<lparr>done_files := done_files j + 1, total_files := 1, status := ''done''\<rparr>"
      from rd q True f j1 j2 Inr have "jobs s' = reg_update jid ?f (reg_update jid (\<lambda>j. j\<lparr>status := ''running''\<rparr>) (jobs s))"
        by (auto simp: query_def[symmetric])
      then show ?thesis
        using own_update[OF own_update[OF started_own[OF assms(1)],
            of "\<lambda>j. record_ok j \<and> done_files j = 0 \<and> done_dirs j = 0" "\<lambda>j. j\<lparr>status := ''running''\<rparr>"],
            of "\<lambda>j. record_ok j \<and> ended j" ?f]
        by (simp add: record_ok_def known_status_def)
    qed
  next
    case False
    have w: "jw s1 = snd (path_is_symlink src (snd (path_is_file src (jw s))))"
      using q False by (auto simp: query_def on_world_simps split: bool.splits)
    obtain x acc v where wd: "walk_delete depth src no_paths (jw s1) = Some (x, acc, v)"
      using rd q False by (cases "walk_delete depth src no_paths (jw s1)") (auto simp: query_def[symmetric])
    show ?thesis
    proof (cases x)
      case (Inl e)
      with rd q False wd j1 have "jobs s' = reg_update jid (\<lambda>j. j\<lparr>status := ''error'', job_error := Some (io_text E e)\<rparr>)
          (reg_update jid (\<lambda>j. j\<lparr>status := ''running''\<rparr>) (jobs s))" by (auto simp: query_def[symmetric])
      then show ?thesis using own_weaken[OF failed_own[OF assms(1)]] by auto
    next
      case (Inr u)
      define s2 where "s2 = job_update jid (\<lambda>j. j\<lparr>total_files := of_nat (length (d_files acc)),
          total_dirs := of_nat (length (d_dirs acc)), total_bytes := d_bytes acc\<rparr>) (s1\<lparr>jw := v\<rparr>)"
      have "delete_all E cpus sched jid acc s2 = Some s'"
        using rd q False wd Inr by (simp add: query_def[symmetric] s2_def)
      moreover have "own_record jid (jobs s) (counted (of_nat (length (d_files acc))) (of_nat (length (d_dirs acc))) 0 0) (jobs s2)"
        using planned_own[OF assms(1)] j1 by (simp add: s2_def)
      moreover have "length (d_files acc) < 2 ^ 64" "length (d_dirs acc) < 2 ^ 64"
        using assms(2)[of acc v] wd Inr w by simp_all
      ultimately show ?thesis by (intro delete_all_record)
    qed
  qed
qed

end
