(* ===== verification/Task_Laws.thy ===== *)
theory Task_Laws
  imports Mover_Tasks Job_Records Mover_Registry Tree_Copy Job_Endings Search_Laws
begin

text \<open>
  Requests and the background tasks they start, together: the records of jobs keep their type, and a
  copy request is followed from its body to the copied files and to what \<open>GET /api/status\<close> shows.
\<close>

section \<open>The daemon's records keep their type\<close>

definition records_ok :: "mover \<Rightarrow> bool" where
  "records_ok s \<longleftrightarrow> (\<forall>k j. map_of (jobs s) k = Some j \<longrightarrow> record_ok j)"

lemma new_job_ok: "known_op opn \<Longrightarrow> record_ok (new_job opn src dst)"
  by (simp add: record_ok_def new_job_def known_status_def)

lemma records_insert:
  assumes "records_ok s" and "jobs t = AList.update k (new_job opn src dst) (jobs s)" and "known_op opn"
  shows "records_ok t"
  using assms new_job_ok by (auto simp: records_ok_def update_conv' split: if_splits)

lemma register_records:
  assumes "records_ok s" and "register_job D opn src dst s = (r, t)" and "known_op opn"
  shows "records_ok t"
proof -
  have "jobs t = jobs s \<or> jobs t = AList.update (next_id s) (new_job opn src dst) (jobs s)"
    using assms(2) by (auto simp: register_job_def Let_def split: option.splits)
  then show ?thesis using assms(1,3) records_insert[OF assms(1)] by (auto simp: records_ok_def)
qed

lemma route_records:
  assumes "records_ok s" and "route D S q s = (r, t)"
  shows "records_ok t"
  using route_jobs[OF assms(2)] unfolding adds_job_def
proof (elim disjE exE conjE)
  assume "search_only s t"
  then show ?thesis using assms(1) by (simp add: search_only_def records_ok_def)
next
  fix opn src dst r' s1
  assume "opn = ''move''" and "same_jobs s s1" and "register_job D opn src dst s1 = (r', t)"
  then show ?thesis using assms(1) register_records[of s1 D opn src dst r' t]
    by (simp add: known_op_def same_jobs_def records_ok_def)
next
  fix opn src dst r' s1
  assume "opn = ''copy''" and "same_jobs s s1" and "register_job D opn src dst s1 = (r', t)"
  then show ?thesis using assms(1) register_records[of s1 D opn src dst r' t]
    by (simp add: known_op_def same_jobs_def records_ok_def)
next
  fix p
  assume "jobs t = AList.update (next_id s) (new_job ''delete'' p []) (jobs s)"
  then show ?thesis by (rule records_insert[OF assms(1)]) (simp add: known_op_def)
qed

text \<open>The job a task works on, and that its plan does not list more entries than a counter can hold.\<close>

fun task_job :: "task \<Rightarrow> u64 option" where
  "task_job (CopyTask jid opn src dst) = Some jid"
| "task_job (DeleteTask jid p) = Some jid"
| "task_job (SearchTask sid p q) = None"

fun small_plan :: "nat \<Rightarrow> task \<Rightarrow> world \<Rightarrow> bool" where
  "small_plan depth (CopyTask jid opn src dst) w \<longleftrightarrow>
     (case walk_files depth src [] no_files w of
        Some (Inr u, acc, v) \<Rightarrow> length (w_files acc) < 2 ^ 64 \<and> length (w_dirs acc) < 2 ^ 64 | _ \<Rightarrow> True)"
| "small_plan depth (DeleteTask jid p) w \<longleftrightarrow>
     (case walk_delete depth p no_paths (snd (path_is_symlink p (snd (path_is_file p w)))) of
        Some (Inr u, acc, v) \<Rightarrow> length (d_files acc) < 2 ^ 64 \<and> length (d_dirs acc) < 2 ^ 64 | _ \<Rightarrow> True)"
| "small_plan depth (SearchTask sid p q) w \<longleftrightarrow> True"

text \<open>A search leaves the jobs alone, on any tree.\<close>

lemma visit_jobs: "visit E sid dir sub sfxs name s = (b, t) \<Longrightarrow> jobs t = jobs s"
  by (auto simp: visit_def push_match_def search_update_def on_world_def Let_def
      split: if_splits prod.splits sum.splits option.splits)

lemma walk_search_jobs:
  "walk_search E n sid dir sub sfxs s = Some t \<Longrightarrow> jobs t = jobs s"
  "search_entries E n sid dir sub sfxs es s = Some t \<Longrightarrow> jobs t = jobs s"
proof (induction E n sid dir sub sfxs s and E n sid dir sub sfxs es s arbitrary: t and t
    rule: walk_search_search_entries.induct)
  case (2 E n sid dir sub sfxs s)
  then show ?case
    by (auto simp: on_world_keeps_jobs split: if_splits prod.splits sum.splits)
next
  case (4 E n sid dir sub sfxs e es s)
  obtain x s1 where q: "on_world (next_entry e) s = (x, s1)" by fastforce
  note js = on_world_keeps_jobs[OF q]
  show ?case
  proof (cases x)
    case (Inl y)
    with "4.prems" q js show ?thesis by simp
  next
    case (Inr e1)
    obtain b s2 where v: "visit E sid dir sub sfxs (fst e1) s1 = (b, s2)" by fastforce
    note jv = visit_jobs[OF v] and ih = "4.IH"[OF q[symmetric] Inr v[symmetric]]
    let ?s2 = "search_update sid (\<lambda>r. r\<lparr>s_done_dirs := s_done_dirs r + 1\<rparr>) s2"
    have js2: "jobs ?s2 = jobs s2" by (simp add: search_update_def)
    consider "b" "t = s2" | "\<not> b" "\<not> is_dirn (Some (snd e1))" "search_entries E n sid dir sub sfxs es s2 = Some t"
      | s3 where "\<not> b" "is_dirn (Some (snd e1))" "walk_search E n sid (path_join dir (fst e1)) sub sfxs ?s2 = Some s3"
        "search_entries E n sid dir sub sfxs es s3 = Some t"
      using "4.prems" q Inr v by (cases b; cases "is_dirn (Some (snd e1))") (auto split: option.splits)
    then show ?thesis
    proof cases
      case 1
      with js jv show ?thesis by simp
    next
      case 2
      with js jv ih(3)[of t] show ?thesis by simp
    next
      case 3
      with js jv js2 ih(1)[of s3] ih(2)[of s3 t] show ?thesis by simp
    qed
  qed
qed simp_all

lemma run_search_jobs: "run_search E depth sid p q s = Some t \<Longrightarrow> jobs t = jobs s"
  using walk_search_jobs(1) by (fastforce simp: run_search_def search_update_def split: prod.splits)

lemma task_record:
  assumes "task_job tk = Some jid" and "started jid (jobs s)" and "small_plan depth tk (jw s)"
    and "run_task D depth cpus sched tk s = Some t"
  shows "own_record jid (jobs s) (\<lambda>j. record_ok j \<and> ended j) (jobs t)"
proof (cases tk)
  case (CopyTask k opn src dst)
  then obtain u where u: "run_job (d_env D) depth cpus sched jid opn src dst (job_state.truncate s) = Some u" "t = with_jobs s u"
    using assms(1,4) by auto
  have "own_record jid (jobs (job_state.truncate s)) (\<lambda>j. record_ok j \<and> ended j) (jobs u)"
    by (rule run_job_record[OF _ _ u(1)]) (use assms(2,3) CopyTask in auto)
  then show ?thesis using u(2) by (simp add: with_jobs_def)
next
  case (DeleteTask k p)
  then obtain u where u: "run_delete_job (d_env D) depth cpus sched jid p (job_state.truncate s) = Some u" "t = with_jobs s u"
    using assms(1,4) by auto
  have "own_record jid (jobs (job_state.truncate s)) (\<lambda>j. record_ok j \<and> ended j) (jobs u)"
    by (rule run_delete_record[OF _ _ u(1)]) (use assms(2,3) DeleteTask in auto)
  then show ?thesis using u(2) by (simp add: with_jobs_def)
qed (use assms(1) in simp)

text \<open>C12 The records of jobs are well-typed at all times: every request keeps them so, and so does every
  background task, under every fault and every schedule of its workers: at its end its own record is
  done or in error, never with more done than there is to do, and no other record has changed.\<close>

theorem job_records_typed:
  assumes "\<forall>k j. map_of (jobs s) k = Some j \<longrightarrow> record_ok j"
  shows "(\<forall>q r t. route D S q s = (r, t) \<longrightarrow> (\<forall>k j. map_of (jobs t) k = Some j \<longrightarrow> record_ok j)) \<and>
    (\<forall>tk t. run_task D depth cpus sched tk s = Some t \<longrightarrow> small_plan depth tk (jw s) \<longrightarrow>
       (\<forall>jid. task_job tk = Some jid \<longrightarrow> started jid (jobs s)) \<longrightarrow>
       (\<forall>k j. map_of (jobs t) k = Some j \<longrightarrow> record_ok j) \<and>
       (\<forall>k. task_job tk \<noteq> Some k \<longrightarrow> map_of (jobs t) k = map_of (jobs s) k) \<and>
       (\<forall>jid. task_job tk = Some jid \<longrightarrow>
          (\<exists>j. map_of (jobs t) jid = Some j \<and> (status j = ''done'' \<or> status j = ''error''))))"
proof (intro conjI allI impI)
  show "record_ok j" if "route D S q s = (r, t)" "map_of (jobs t) k = Some j" for q r t k j
    using route_records[OF _ that(1)] that(2) assms by (auto simp: records_ok_def)
next
  fix tk t
  assume run: "run_task D depth cpus sched tk s = Some t" and small: "small_plan depth tk (jw s)"
    and st: "\<forall>jid. task_job tk = Some jid \<longrightarrow> started jid (jobs s)"
  have own: "own_record jid (jobs s) (\<lambda>j. record_ok j \<and> ended j) (jobs t)" if "task_job tk = Some jid" for jid
    by (rule task_record[OF that _ small run]) (use st that in blast)
  have same: "jobs t = jobs s" if "task_job tk = None"
    using that run by (cases tk) (auto dest: run_search_jobs)
  show keep: "map_of (jobs t) k = map_of (jobs s) k" if "task_job tk \<noteq> Some k" for k
    using own same that by (cases "task_job tk") (auto simp: own_record_def)
  show "\<exists>j. map_of (jobs t) jid = Some j \<and> ended j" if "task_job tk = Some jid" for jid
    using own[OF that] by (auto simp: own_record_def)
  show "record_ok j" if "map_of (jobs t) k = Some j" for k j
  proof (cases "task_job tk = Some k")
    case True
    then show ?thesis using own[OF True] that by (auto simp: own_record_def)
  next
    case False
    then show ?thesis using keep[OF False] that assms by simp
  qed
qed

text \<open>The daemon after the request to copy \<open>/src\<close>, and the job it has started.\<close>

definition copy_requested :: mover where
  "copy_requested = sample_mover [(1, new_job ''copy'' ''/src'' ''/dst/x'')] 2 [CopyTask 1 ''copy'' ''/src'' ''/dst/x'']"

lemma copy_requested_simps:
  "job_state.truncate copy_requested = copy_state" "jw copy_requested = sample_world"
  "jobs copy_requested = [(1, new_job ''copy'' ''/src'' ''/dst/x'')]"
  by (simp_all add: copy_requested_def sample_mover_def copy_state_def job_state.defs)

lemma sample_plan: "walk_files 4 ''/src'' [] no_files (jw copy_state) = Some (Inr (), found ''/src'' [] sample_src no_files, jw copy_state)"
  by code_simp

lemma sample_task_ends:
  "run_task sample_daemon 4 (Some 2) sample_sched (CopyTask 1 ''copy'' ''/src'' ''/dst/x'') copy_requested \<noteq> None"
proof -
  have h: "tree_height sample_src < 4" by (simp add: sample_src_def plain_file_def)
  have op: "''copy'' \<noteq> ''move'' \<or> \<not> same" for same by simp
  have "run_job (d_env sample_daemon) 4 (Some 2) sample_sched 1 ''copy'' ''/src'' ''/dst/x'' copy_state \<noteq> None"
    unfolding run_job_plan[OF sample_copyable h op refl] by code_simp
  then show ?thesis by (simp add: copy_requested_simps)
qed

lemma job_records_typed_witness:
  "\<exists>t j. run_task sample_daemon 4 (Some 2) sample_sched (CopyTask 1 ''copy'' ''/src'' ''/dst/x'') copy_requested = Some t \<and>
     map_of (jobs t) 1 = Some j \<and> record_ok j \<and> (status j = ''done'' \<or> status j = ''error'')"
proof -
  let ?tk = "CopyTask 1 ''copy'' ''/src'' ''/dst/x''"
  obtain t where t: "run_task sample_daemon 4 (Some 2) sample_sched ?tk copy_requested = Some t"
    using sample_task_ends by blast
  have ok: "record_ok (new_job ''copy'' ''/src'' ''/dst/x'')" by (rule new_job_ok) (simp add: known_op_def)
  then have "\<forall>k j. map_of (jobs copy_requested) k = Some j \<longrightarrow> record_ok j"
    by (simp add: copy_requested_simps)
  note typed = conjunct2[OF job_records_typed[OF this, of sample_daemon no_sudo 4 "Some 2" sample_sched], rule_format, OF t]
  have "small_plan 4 ?tk (jw copy_requested)"
    using sample_plan
    by (simp add: copy_requested_simps copy_state_def found_def sample_src_def plain_file_def no_files_def)
  moreover have "started jid (jobs copy_requested)" if "task_job ?tk = Some jid" for jid
    using that ok by (simp add: started_def copy_requested_simps new_job_def)
  ultimately show ?thesis using typed t by (auto simp del: run_task.simps)
qed

section \<open>The workers' steps are steps of the daemon\<close>

text \<open>
  The step system of \<open>Mover_Registry\<close> lets a background job change its record in any way that keeps
  what the job is about and does not wake an ended job; every turn of a worker is such a change.
\<close>

definition keeps_work :: "(job \<Rightarrow> job) \<Rightarrow> bool" where
  "keeps_work f \<longleftrightarrow> (\<forall>j. j_op (f j) = j_op j \<and> j_src (f j) = j_src j \<and> j_dst (f j) = j_dst j \<and> status (f j) = status j)"

lemma keeps_work_step:
  assumes "keeps_work f" and "map_of (jobs m) k = Some j"
  shows "daemon_step D S m (job_update k f m)"
  using assms by (intro daemon_step.progress[of m k j]) (simp_all add: keeps_work_def active_def)

lemma transfer_step_daemon:
  assumes "transfer_step E t i ph s = (r, u)" and "jobs s = jobs m" and "map_of (jobs m) (t_id t) = Some j"
  shows "\<exists>n. daemon_step D S m n \<and> jobs u = jobs n"
proof -
  obtain g where g: "jobs u = reg_update (t_id t) g (jobs s)" "keeps_work g"
    using transfer_step_jobs[OF assms(1)] by (auto simp: counts_def keeps_work_def)
  then show ?thesis
    using keeps_work_step[OF g(2) assms(3)] assms(2) by (intro exI[of _ "job_update (t_id t) g m"]) simp
qed

lemma delete_step_daemon:
  assumes "delete_step E jid ps i ph s = (r, u)" and "jobs s = jobs m" and "map_of (jobs m) jid = Some j"
  shows "\<exists>n. daemon_step D S m n \<and> jobs u = jobs n"
proof -
  have "\<exists>g. jobs u = reg_update jid g (jobs s) \<and> keeps_work g"
  proof (cases ph)
    case DNote
    then show ?thesis using assms(1)
      by (intro exI[of _ "note_current (ps ! i)"]) (auto simp: delete_step_def keeps_work_def Let_def)
  next
    case DRemove
    obtain x s1 where o: "on_world (remove_file (ps ! i)) s = (x, s1)" by fastforce
    note w = on_world_keeps_jobs[OF o]
    show ?thesis
    proof (cases x)
      case (Inl e)
      then show ?thesis using assms(1) DRemove o w
        by (intro exI[of _ "note_error (ps ! i @ '': '' @ io_text E e)"]) (auto simp: delete_step_def keeps_work_def Let_def)
    next
      case (Inr y)
      then show ?thesis using assms(1) DRemove o w
        by (intro exI[of _ "\<lambda>j. j\<lparr>done_files := done_files j + 1\<rparr>"]) (auto simp: delete_step_def keeps_work_def Let_def)
    qed
  qed
  then obtain g where g: "jobs u = reg_update jid g (jobs s)" "keeps_work g" by blast
  then show ?thesis
    using keeps_work_step[OF g(2) assms(3)] assms(2) by (intro exI[of _ "job_update jid g m"]) simp
qed

section \<open>A copy request from its body to the files\<close>

lemma register_new:
  assumes "\<forall>p \<in> set (jobs s). \<not> same_work opn src dst (snd p)"
  shows "register_job D opn src dst s =
    (json_resp D 202 (JObject [(''ok'', JBool True), (''job_id'', JU64 (next_id s)), (''op'', JString opn)]),
     s\<lparr>next_id := next_id s + 1, jobs := AList.update (next_id s) (new_job opn src dst) (jobs s),
       tasks := tasks s @ [CopyTask (next_id s) opn src dst]\<rparr>)"
proof -
  have "find (\<lambda>(i, j). same_work opn src dst j) (jobs s) = None"
    using assms by (auto simp: find_None_iff)
  then show ?thesis by (simp add: register_job_def Let_def)
qed

lemma copy_request_registers:
  assumes "copyable src l n dst L (jw s)" and "\<not> path_eq src dst"
    and "json_parse (d_env D) b = Inr v" and "str_field ''src'' v = src" and "str_field ''dst'' v = dst" and "str_field ''sudopass'' v = []"
    and "\<forall>p \<in> set (jobs s). \<not> same_work ''copy'' src dst (snd p)"
  shows "handle_move_copy D S (Inr b) False s = register_job D ''copy'' src dst s"
  using assms(2-6) free_destination[OF assms(1)]
  by (simp add: handle_move_copy_def with_json_def move_copy_request_def Let_def)

lemma copy_task_ends:
  assumes "copyable src l n dst L (jw s)" and "tree_height n < depth"
  shows "\<exists>more t. run_task D depth cpus (sched @ more) (CopyTask jid ''copy'' src dst) s = Some t"
proof -
  let ?s = "job_state.truncate s"
  have c: "copyable src l n dst L (jw ?s)" using assms(1) by simp
  have op: "''copy'' \<noteq> ''move'' \<or> \<not> same" for same by simp
  show ?thesis
    using run_job_plan[OF c assms(2) op refl, where E = "d_env D" and cpus = cpus]
      transfer_runs_out[where E = "d_env D" and cpus = cpus and sched = sched and src = src]
    by simp
qed

text \<open>C6 A copy request from the bytes of its body to the copied files: POST /api/copy for a tree and a free
  place is answered with 202 and the number of a new job and starts one background task, and nothing
  else happens yet.  That task can always be run to its end, whatever turns its workers have taken; and
  whenever it ends without faults, GET /api/status lists the job as done, without an error, with all
  files counted, the destination is an exact copy and no other file's contents have changed.\<close>

theorem copy_request_served:
  assumes "copyable src l n dst L (jw s)" and "tree_height n < depth" and "\<not> path_eq src dst"
    and "json_parse (d_env D) b = Inr v" and "str_field ''src'' v = src" and "str_field ''dst'' v = dst" and "str_field ''sudopass'' v = []"
    and "\<forall>p \<in> set (jobs s). \<not> same_work ''copy'' src dst (snd p)"
    and "q_method q = ''POST''" and "q_path q = ''/api/copy''" and "q_body q = Inr b"
  shows "\<exists>t. route D S q s = (json_resp D 202
        (JObject [(''ok'', JBool True), (''job_id'', JU64 (next_id s)), (''op'', JString ''copy'')]), t) \<and>
    jw t = jw s \<and> tasks t = tasks s @ [CopyTask (next_id s) ''copy'' src dst] \<and>
    (\<forall>cpus sched. \<exists>more u. run_task D depth cpus (sched @ more) (CopyTask (next_id s) ''copy'' src dst) t = Some u) \<and>
    (\<forall>cpus sched u. run_task D depth cpus sched (CopyTask (next_id s) ''copy'' src dst) t = Some u \<longrightarrow>
       (\<exists>j js. handle_status D u = json_resp D 200 (JObject [(''jobs'', JArray js)]) \<and> job_json (next_id s, j) \<in> set js \<and>
          status j = ''done'' \<and> job_error j = None \<and> done_files j = of_nat (length (tree_files n))) \<and>
       (\<forall>r. case tget n r of
          Some (File d) \<Rightarrow> holds (L @ r) (fbytes d) (jw u)
        | Some (Dir es) \<Rightarrow> is_dirn (tget (fs (jw u)) (L @ r))
        | _ \<Rightarrow> tget (fs (jw u)) (L @ r) = None) \<and>
       (\<forall>q. \<not> prefix L q \<longrightarrow> content (jw u) q = content (jw s) q))"
proof -
  let ?k = "next_id s"
  define t where "t = s\<lparr>next_id := ?k + 1, jobs := AList.update ?k (new_job ''copy'' src dst) (jobs s),
       tasks := tasks s @ [CopyTask ?k ''copy'' src dst]\<rparr>"
  have w: "jw t = jw s" and m: "map_of (jobs t) ?k = Some (new_job ''copy'' src dst)"
    by (simp_all add: t_def update_conv')
  have c: "copyable src l n dst L (jw t)" using assms(1) w by simp
  have "route D S q s = register_job D ''copy'' src dst s"
    using copy_request_registers[OF assms(1,3-8)] assms(9-11) by (simp add: route_def Let_def)
  then have r: "route D S q s = (json_resp D 202
      (JObject [(''ok'', JBool True), (''job_id'', JU64 ?k), (''op'', JString ''copy'')]), t)"
    using register_new[OF assms(8)] by (simp add: t_def)
  have run: "(\<exists>j. map_of (jobs u) ?k = Some j \<and> status j = ''done'' \<and> job_error j = None \<and>
        done_files j = of_nat (length (tree_files n))) \<and> tree_copied n L (jw u) \<and>
      (\<forall>q. \<not> prefix L q \<longrightarrow> content (jw u) q = content (jw s) q)"
    if fin: "run_task D depth cpus sched (CopyTask ?k ''copy'' src dst) t = Some u" for cpus sched u
  proof -
    obtain u1 where u: "run_job (d_env D) depth cpus sched ?k ''copy'' src dst (job_state.truncate t) = Some u1" "u = with_jobs t u1"
      using fin by auto
    have "copyable src l n dst L (jw (job_state.truncate t))" "map_of (jobs (job_state.truncate t)) ?k = Some (new_job ''copy'' src dst)"
      using c m by simp_all
    note r = tree_job_copies[OF this(1) assms(2) this(2) u(1)]
    then have "\<forall>q. \<not> prefix L q \<longrightarrow> content (jw u1) q = content (jw (job_state.truncate t)) q"
      by (blast intro: entry_content)
    with r show ?thesis using u(2) w by (simp add: with_jobs_def new_job_def)
  qed
  have task: "tasks t = tasks s @ [CopyTask ?k ''copy'' src dst]" by (simp add: t_def)
  have done_shown: "\<exists>j js. handle_status D u = json_resp D 200 (JObject [(''jobs'', JArray js)]) \<and> job_json (?k, j) \<in> set js \<and>
          status j = ''done'' \<and> job_error j = None \<and> done_files j = of_nat (length (tree_files n))"
    if "run_task D depth cpus sched (CopyTask ?k ''copy'' src dst) t = Some u" for cpus sched u
    using run[OF that] status_lists by blast
  show ?thesis
    using r w task copy_task_ends[OF c assms(2)] done_shown run[unfolded tree_copied_def]
    by (intro exI[of _ t] conjI allI impI) blast+
qed

lemma copy_request_served_witness:
  "\<exists>t u. route sample_daemon no_sudo (copy_to ''/dst/x'') (sample_mover [] 1 []) = (json_resp sample_daemon 202
        (JObject [(''ok'', JBool True), (''job_id'', JU64 1), (''op'', JString ''copy'')]), t) \<and>
     run_task sample_daemon 4 (Some 2) sample_sched (CopyTask 1 ''copy'' ''/src'' ''/dst/x'') t = Some u \<and>
     holds [''dst'', ''x'', ''sub'', ''b.txt''] [4] (jw u)"
proof -
  let ?s = "sample_mover [] 1 []" and ?q = "copy_to ''/dst/x''"
    and ?v = "JObject [(''src'', JString ''/src''), (''dst'', JString ''/dst/x'')]"
  have s: "jw ?s = jw copy_state" "jobs ?s = []" "next_id ?s = 1" by (simp_all add: sample_mover_def copy_state_def)
  have c: "copyable ''/src'' [''src''] sample_src ''/dst/x'' [''dst'', ''x''] (jw ?s)" using sample_copyable s by simp
  have h: "tree_height sample_src < 4" by (simp add: sample_src_def plain_file_def)
  have ne: "\<not> path_eq ''/src'' ''/dst/x''" by code_simp
  have v: "json_parse (d_env sample_daemon) ''/dst/x'' = Inr ?v" "str_field ''src'' ?v = ''/src''"
    "str_field ''dst'' ?v = ''/dst/x''" "str_field ''sudopass'' ?v = []" "q_method ?q = ''POST''" "q_path ?q = ''/api/copy''"
    "q_body ?q = Inr ''/dst/x''"
    by (simp_all add: sample_daemon_def copy_to_def)
  have nj: "\<forall>p \<in> set (jobs ?s). \<not> same_work ''copy'' ''/src'' ''/dst/x'' (snd p)" by (simp add: s)
  obtain t where t: "route sample_daemon no_sudo ?q ?s = (json_resp sample_daemon 202
      (JObject [(''ok'', JBool True), (''job_id'', JU64 (next_id ?s)), (''op'', JString ''copy'')]), t)"
    and run: "\<forall>cpus sched u. run_task sample_daemon 4 cpus sched (CopyTask (next_id ?s) ''copy'' ''/src'' ''/dst/x'') t = Some u \<longrightarrow>
       (\<forall>r. case tget sample_src r of
          Some (File d) \<Rightarrow> holds ([''dst'', ''x''] @ r) (fbytes d) (jw u)
        | Some (Dir es) \<Rightarrow> is_dirn (tget (fs (jw u)) ([''dst'', ''x''] @ r))
        | _ \<Rightarrow> tget (fs (jw u)) ([''dst'', ''x''] @ r) = None)"
    using copy_request_served[OF c h ne v(1-4) nj v(5-7), of no_sudo] by blast
  have "t = copy_requested" using t sample_requests(1) by (simp add: copy_requested_def prod_eq_iff)
  then obtain u where u: "run_task sample_daemon 4 (Some 2) sample_sched (CopyTask 1 ''copy'' ''/src'' ''/dst/x'') t = Some u"
    using sample_task_ends by auto
  have g: "tget sample_src [''sub'', ''b.txt''] = Some (plain_file [4])" by (simp add: sample_src_def)
  have "holds [''dst'', ''x'', ''sub'', ''b.txt''] [4] (jw u)"
    using run[unfolded s(3), rule_format, OF u, of "[''sub'', ''b.txt'']"] g by (simp add: plain_file_def)
  then show ?thesis using t u s(3) by auto
qed

end
