(* ===== verification/Delete_Served.thy ===== *)
theory Delete_Served
  imports Mover_Tasks Mover_Registry Tree_Delete Job_Endings
begin







end
