(* ===== verification/Rename_Laws.thy ===== *)
theory Rename_Laws
  imports Mover_Registry Name_Laws
begin

text \<open>
  \<open>POST /api/rename\<close> without a password, from the request to the file system: the entry, a file, a
  link or a whole directory, gets its new name in its own directory, or nothing changes.
\<close>

section \<open>Renaming to a free place\<close>

text \<open>Any node moved to a parallel free location; under every fault it is moved or all is as before.\<close>

lemma rename_free:
  assumes "plain_end p" and "plain_end q" and "resolve False w p = Inr a" and "resolve False w q = Inr b"
    and "a \<parallel> b" and "tget (fs w) a = Some n" and "tget (fs w) b = None" and "rename_path p q w = (r, v)"
  shows "r = Inr () \<and> fs v = nt.move (fs w) a b \<or> (\<exists>e. r = Inl e) \<and> fs v = fs w" and "faults w = [] \<Longrightarrow> r = Inr ()"
proof -
  have l: "resolve_leaf w p = Inr a" "resolve_leaf w q = Inr b" "\<not> ends_in_dots p" "\<not> ends_in_dots q"
    using assms(1-4) by (simp_all add: resolve_leaf_plain) (simp_all add: plain_end_def)
  have ne: "a \<noteq> b" "a \<noteq> []" "b \<noteq> []" "\<not> prefix a b" "\<not> prefix b a"
    using assms(5) by (auto simp: parallel_def)
  then have rl: "rename_locs (fs w) a b = (Inr (), nt.move (fs w) a b)"
    using assms(6,7) by (simp add: rename_locs_def nt.move_def split: node.splits)
  show "r = Inr () \<and> fs v = nt.move (fs w) a b \<or> (\<exists>e. r = Inl e) \<and> fs v = fs w"
    using assms(8) unfolding rename_path_def
    by (cases rule: sys_cases) (use l rl in auto)
  show "r = Inr ()" if "faults w = []"
    using assms(8) that l rl by (simp add: rename_path_def sys_simps)
qed

text \<open>What the move is, seen from every location: the node below its new name, nothing below the old
  one, and every entry elsewhere untouched.\<close>

lemma moved_to_sibling:
  assumes "tget t (c @ [old]) = Some n" and "is_dirn (tget t c)" and "old \<noteq> name"
  shows "tget (nt.move t (c @ [old]) (c @ [name])) ((c @ [name]) @ r) = tget n r"
    and "tget (nt.move t (c @ [old]) (c @ [name])) (c @ [old]) = None"
    and "c @ [old] \<parallel> q \<Longrightarrow> c @ [name] \<parallel> q \<Longrightarrow> tget (nt.move t (c @ [old]) (c @ [name])) q = tget t q"
proof -
  have par: "c @ [old] \<parallel> c @ [name]" using assms(3) by (auto simp: parallel_def)
  have "tget (nt.move t (c @ [old]) (c @ [name])) (c @ [name]) = Some n"
    by (rule nt.move_dest[OF assms(1) par]) (use assms(2) in simp_all)
  then show "tget (nt.move t (c @ [old]) (c @ [name])) ((c @ [name]) @ r) = tget n r"
    by (subst tget_append) simp
  show "tget (nt.move t (c @ [old]) (c @ [name])) (c @ [old]) = None"
    by (rule nt.move_source[OF assms(1) par]) simp
  show "tget (nt.move t (c @ [old]) (c @ [name])) q = tget t q" if "c @ [old] \<parallel> q" "c @ [name] \<parallel> q"
    by (rule nt.move_other[OF that])
qed

section \<open>The handler\<close>

text \<open>The answers of \<open>rename_request\<close> without a password.\<close>

lemma rename_request_cases:
  assumes "rename_request D S v s = (r, t)" and "str_field ''sudopass'' v = []" and "str_field ''src'' v \<noteq> []"
    and "resolve_path (d_env D) (str_field ''src'' v) = p" and "path_parent p = Some d" and "str_field ''name'' v = name"
  obtains (bad) "\<not> plain_name name" "r_status r = 400" "t = s"
  | (taken) v1 where "plain_name name" "path_exists (path_join d name) (jw s) = (True, v1)" "r_status r = 409" "t = s\<lparr>jw := v1\<rparr>"
  | (renamed) v1 v2 where "plain_name name" "path_exists (path_join d name) (jw s) = (False, v1)"
      "rename_path p (path_join d name) v1 = (Inr (), v2)" "r = ok_dst D (path_join d name)" "t = s\<lparr>jw := v2\<rparr>"
  | (failed) v1 v2 e where "plain_name name" "path_exists (path_join d name) (jw s) = (False, v1)"
      "rename_path p (path_join d name) v1 = (Inl e, v2)" "r_status r = 403 \<or> r_status r = 500" "t = s\<lparr>jw := v2\<rparr>"
proof (cases "plain_name name")
  case False
  then show ?thesis
    using assms by (intro bad) (auto simp: rename_request_def plain_name_def json_resp_def text_resp_def Let_def)
next
  case True
  obtain b v1 where ex: "path_exists (path_join d name) (jw s) = (b, v1)" by fastforce
  obtain x v2 where rn: "rename_path p (path_join d name) v1 = (x, v2)" by fastforce
  have ok: "\<not> (name = [] \<or> slash \<in> set name \<or> name = ''.'' \<or> name = ''..'')"
    using True by (auto simp: plain_name_def)
  note rq = assms(1)[unfolded rename_request_def Let_def assms(4,6)]
  show ?thesis
  proof (cases b)
    case b: True
    then show ?thesis using rq ok assms(3,5) ex True
      by (intro taken) (auto simp: on_world_def json_resp_def text_resp_def)
  next
    case nb: False
    show ?thesis
    proof (cases x)
      case (Inr u)
      then show ?thesis using rq ok assms(3,5) ex rn nb True
        by (intro renamed) (auto simp: on_world_def)
    next
      case (Inl e)
      then show ?thesis using rq ok assms(2,3,5) ex rn nb True
        by (intro failed) (auto simp: on_world_def json_resp_def text_resp_def needs_password_def split: if_splits)
    qed
  qed
qed

lemma path_exists_quiet: "faults w = [] \<Longrightarrow> path_exists p w = (\<not> isl (node_at True w p), w)"
  by (simp add: path_exists_def metadata_def sys_simps split: sum.splits)

text \<open>C11 POST /api/rename without a password: under every fault, an answer other than 200 means that nothing
  in the file system has changed; if the new name was free, 200 means that the entry with all that is
  below it is now under the new name in the same directory, no longer under the old one, and nothing
  else has changed.  Without faults a name that is no name of an entry is answered with 400, an
  existing file or directory with 409, and a free name with 200.  The jobs are not touched.\<close>

theorem rename_correct:
  assumes "handle_rename D S (Inr b) s = (r, t)" and "json_parse (d_env D) b = Inr v" and "str_field ''sudopass'' v = []"
    and "str_field ''src'' v \<noteq> []" and "resolve_path (d_env D) (str_field ''src'' v) = path_join d old"
    and "path_parent (path_join d old) = Some d" and "plain_name old" and "str_field ''name'' v = name"
    and "env_ok (jw s)" and "resolve False (jw s) (path_join d old) = Inr l" and "tget (fs (jw s)) l = Some n"
  shows "\<exists>c. l = c @ [old] \<and> jobs t = jobs s \<and>
    (r_status r \<noteq> 200 \<longrightarrow> fs (jw t) = fs (jw s)) \<and>
    (tget (fs (jw s)) (c @ [name]) = None \<and> r_status r = 200 \<longrightarrow>
       (\<forall>q. tget (fs (jw t)) ((c @ [name]) @ q) = tget n q) \<and> tget (fs (jw t)) (c @ [old]) = None \<and>
       (\<forall>q. c @ [old] \<parallel> q \<and> c @ [name] \<parallel> q \<longrightarrow> tget (fs (jw t)) q = tget (fs (jw s)) q)) \<and>
    (faults (jw s) = [] \<longrightarrow>
       (\<not> plain_name name \<longrightarrow> r_status r = 400) \<and>
       (plain_name name \<and> (\<exists>m. tget (fs (jw s)) (c @ [name]) = Some m \<and> (\<forall>x. m \<noteq> Symlink x)) \<longrightarrow> r_status r = 409) \<and>
       (plain_name name \<and> tget (fs (jw s)) (c @ [name]) = None \<longrightarrow> r_status r = 200))"
proof -
  let ?w = "jw s" and ?p = "path_join d old" and ?q = "path_join d name"
  obtain c where c: "l = c @ [old]" using same_directory[OF assms(10,7,7)] by auto
  have q: "resolve False ?w ?q = Inr (c @ [name])" if "plain_name name"
    using same_directory[OF assms(10,7) that] c by auto
  have dir: "is_dirn (tget (fs ?w) c)" using resolve_dir_above[OF assms(9,10)] c by simp
  have src: "tget (fs ?w) (c @ [old]) = Some n" using assms(11) c by simp
  have ren: "(x = Inr () \<and> fs v2 = nt.move (fs ?w) (c @ [old]) (c @ [name]) \<or> (\<exists>e. x = Inl e) \<and> fs v2 = fs ?w)
      \<and> (faults ?w = [] \<longrightarrow> x = Inr ())"
    if "plain_name name" "path_exists ?q ?w = (b, v1)" "rename_path ?p ?q v1 = (x, v2)" "tget (fs ?w) (c @ [name]) = None"
    for b v1 v2 x
  proof -
    have v1: "fs v1 = fs ?w" "cwd v1 = cwd ?w" using path_exists_query[OF that(2)] by simp_all
    then have rs: "resolve False v1 u = resolve False ?w u" for u by (simp add: resolve_def)
    have par: "c @ [old] \<parallel> c @ [name]" using that(4) src by (auto simp: parallel_def)
    have "faults v1 = []" if "faults ?w = []"
      using \<open>path_exists ?q ?w = (b, v1)\<close> path_exists_quiet[OF that, of ?q] that by auto
    moreover have "resolve False v1 ?p = Inr (c @ [old])" "resolve False v1 ?q = Inr (c @ [name])"
      using assms(10) c q[OF that(1)] by (simp_all add: rs)
    note rf = rename_free[OF plain_end_join[OF assms(7)] plain_end_join[OF that(1)] this par _ _ that(3)]
    ultimately show ?thesis using rf[of n] src that(4) by (simp add: v1(1))
  qed
  have quiet: "path_exists ?q ?w = (\<not> isl (node_at True ?w ?q), ?w)" if "faults ?w = []"
    using that by (rule path_exists_quiet)
  have empty: "isl (node_at True ?w ?q)" if "plain_name name" "tget (fs ?w) (c @ [name]) = None"
    using resolve_follow[OF q[OF that(1)]] that(2) by (simp add: node_at_def)
  have there: "\<not> isl (node_at True ?w ?q)"
    if "plain_name name" "tget (fs ?w) (c @ [name]) = Some m" "\<forall>x. m \<noteq> Symlink x" for m
    using resolve_follow[OF q[OF that(1)]] that(2,3) by (simp add: node_at_def)
  have unseen: "\<not> (faults ?w = [] \<and> (\<exists>m. tget (fs ?w) (c @ [name]) = Some m \<and> (\<forall>x. m \<noteq> Symlink x)))"
    if "plain_name name" "path_exists ?q ?w = (False, v1)" for v1
  proof
    assume a: "faults ?w = [] \<and> (\<exists>m. tget (fs ?w) (c @ [name]) = Some m \<and> (\<forall>x. m \<noteq> Symlink x))"
    then have "\<not> isl (node_at True ?w ?q)" using there[OF that(1)] by blast
    then show False using quiet that(2) a by simp
  qed
  note sib = moved_to_sibling[OF src dir]
  have rq: "rename_request D S v s = (r, t)" using assms(1,2) by (simp add: handle_rename_def with_json_def)
  have ne: "old \<noteq> name" if "tget (fs ?w) (c @ [name]) = None" using that src by auto
  show ?thesis
    using rq assms(3,4,5,6,8)
  proof (cases rule: rename_request_cases)
    case bad
    then show ?thesis using c by (intro exI[of _ c]) simp
  next
    case (taken v1)
    have "fs v1 = fs ?w" using path_exists_query[OF taken(2)] by simp
    moreover have "\<not> (faults ?w = [] \<and> tget (fs ?w) (c @ [name]) = None)"
      using quiet taken(1,2) empty by auto
    ultimately show ?thesis using c taken by (intro exI[of _ c]) auto
  next
    case (renamed v1 v2)
    have r: "r_status r = 200" using renamed(4) by (simp add: ok_dst_def json_resp_def text_resp_def)
    note free = unseen[OF renamed(1,2)]
    have mv: "fs v2 = nt.move (fs ?w) (c @ [old]) (c @ [name])" if "tget (fs ?w) (c @ [name]) = None"
      using ren[OF renamed(1,2,3) that] by simp
    show ?thesis using c r free mv sib ne renamed(1,5) by (intro exI[of _ c]) auto
  next
    case (failed v1 v2 e)
    have "r_status r \<noteq> 200" using failed(4) by auto
    moreover have "fs v2 = fs ?w"
    proof -
      have "fs v1 = fs ?w" using path_exists_query[OF failed(2)] by simp
      moreover have "fs v2 = fs v1" using failed(3) unfolding rename_path_def
        by (cases rule: sys_cases) (auto simp: rename_locs_def split: sum.splits option.splits node.splits list.splits if_splits)
      ultimately show ?thesis by simp
    qed
    moreover have "\<not> (faults ?w = [] \<and> tget (fs ?w) (c @ [name]) = None)" using ren[OF failed(1,2,3)] by auto
    moreover note unseen[OF failed(1,2)]
    ultimately show ?thesis using c failed(1,5) by (intro exI[of _ c]) auto
  qed
qed

text \<open>Renaming \<open>/src/a.txt\<close>; the body of a request is taken as the new name.\<close>

definition rename_daemon :: daemon where
  "rename_daemon = sample_daemon\<lparr>d_env := sample_env\<lparr>json_parse :=
     (\<lambda>b. Inr (JObject [(''src'', JString ''/src/a.txt''), (''name'', JString b)]))\<rparr>\<rparr>"

lemma rename_correct_witness:
  "r_status (fst (handle_rename rename_daemon no_sudo (Inr ''n.txt'') (sample_mover [] 1 []))) = 200 \<and>
   tget (fs (jw (snd (handle_rename rename_daemon no_sudo (Inr ''n.txt'') (sample_mover [] 1 []))))) [''src'', ''n.txt''] =
     Some (plain_file [1, 2, 3])"
proof -
  let ?s = "sample_mover [] 1 []" and ?v = "JObject [(''src'', JString ''/src/a.txt''), (''name'', JString ''n.txt'')]"
  have w: "jw ?s = sample_world" "faults sample_world = []" by (simp_all add: sample_mover_def sample_world_def)
  have h: "handle_rename rename_daemon no_sudo (Inr ''n.txt'') ?s = (fst (handle_rename rename_daemon no_sudo (Inr ''n.txt'') ?s),
      snd (handle_rename rename_daemon no_sudo (Inr ''n.txt'') ?s))" by simp
  have j: "json_parse (d_env rename_daemon) ''n.txt'' = Inr ?v"
    "str_field ''sudopass'' ?v = []" "str_field ''src'' ?v \<noteq> []" "str_field ''name'' ?v = ''n.txt''"
    by (simp_all add: rename_daemon_def)
  have p: "resolve_path (d_env rename_daemon) (str_field ''src'' ?v) = path_join ''/src'' ''a.txt''"
    "path_parent (path_join ''/src'' ''a.txt'') = Some ''/src''" "plain_name ''a.txt''" "plain_name ''n.txt''"
    "resolve False (jw ?s) (path_join ''/src'' ''a.txt'') = Inr [''src'', ''a.txt'']"
    "tget (fs (jw ?s)) [''src'', ''a.txt''] = Some (plain_file [1, 2, 3])"
    "tget (fs (jw ?s)) [''src'', ''n.txt''] = None" by code_simp+
  have e: "env_ok (jw ?s)" using sample_env_ok w by simp
  from rename_correct[OF h j(1-3) p(1-3) j(4) e p(5,6)]
  show ?thesis using p(4,7) w by (auto simp: append_eq_Cons_conv)
qed

end
